(* ===== verification/Dpdk_Prelude.thy ===== *)
theory Dpdk_Prelude
  imports Main "HOL-Library.Word" "HOL-Library.State_Monad" "HOL-Library.Monad_Syntax"
begin

text \<open>
  Shared foundations: the machine types, the way a C function is run (a state monad over the
  trace of what the process has done so far), C loops, and the generic lemmas the component
  theories rest on.

  A C function that calls out of the process is a value of type \<open>'a io\<close>: it takes the trace so
  far and returns its result with the trace extended.  Everything external that the code reads
  (the status of a library call, the packets of a burst) comes from an environment indexed by the
  position in the trace, see the theory of the API.  A deterministic program asks its questions
  at increasing positions, so quantifying over all such environments covers every behaviour of
  the outside world.
\<close>

section \<open>Machine types\<close>

type_synonym u8 = "8 word"
type_synonym u16 = "16 word"
type_synonym u32 = "32 word"
type_synonym u64 = "64 word"

type_synonym ptr = nat   \<comment> \<open>an address; 0 is NULL\<close>
type_synonym mbuf = nat  \<comment> \<open>the address of a \<^verbatim>\<open>struct rte_mbuf\<close>\<close>

definition NULL :: ptr where
  "NULL = 0"

named_theorems io_simps \<open>equations that run the state monad on API calls\<close>
named_theorems appends_intros \<open>a function only appends to the trace\<close>

section \<open>Running a function over the trace\<close>

type_synonym ('e, 'a) io_on = "('e list, 'a) state"

abbreviation ret :: "'a \<Rightarrow> ('s, 'a) state" where
  "ret \<equiv> State_Monad.return"

definition result :: "('s, 'a) state \<Rightarrow> 's \<Rightarrow> 'a" where
  "result m h = fst (run_state m h)"

definition final :: "('s, 'a) state \<Rightarrow> 's \<Rightarrow> 's" where
  "final m h = snd (run_state m h)"

text \<open>\<open>m\<close> only ever appends to the trace.\<close>

definition appends :: "('e, 'a) io_on \<Rightarrow> bool" where
  "appends m \<longleftrightarrow> (\<forall>h. \<exists>new. final m h = h @ new)"

text \<open>What \<open>m\<close> appends when it runs after \<open>h\<close>.\<close>

definition emitted :: "('e, 'a) io_on \<Rightarrow> 'e list \<Rightarrow> 'e list" where
  "emitted m h = drop (length h) (final m h)"

lemma result_ret [simp]: "result (ret x) h = x"
  by (simp add: result_def)

lemma final_ret [simp]: "final (ret x) h = h"
  by (simp add: final_def)

lemma result_bind [simp]: "result (m \<bind> f) h = result (f (result m h)) (final m h)"
  by (simp add: result_def final_def split: prod.splits)

lemma final_bind [simp]: "final (m \<bind> f) h = final (f (result m h)) (final m h)"
  by (simp add: result_def final_def split: prod.splits)

lemma result_if [simp]: "result (if b then m else m') h = (if b then result m h else result m' h)"
  by simp

lemma final_if [simp]: "final (if b then m else m') h = (if b then final m h else final m' h)"
  by simp

lemma run_state_result_final: "run_state m h = (result m h, final m h)"
  by (simp add: result_def final_def)

text \<open>Two functions are the same when they agree on result and trace from every start.\<close>

lemma io_eqI:
  assumes "\<And>h. result m h = result m' h" and "\<And>h. final m h = final m' h"
  shows "m = m'"
  by (rule state_ext) (simp add: run_state_result_final assms)

lemma appends_ret [intro, simp, appends_intros]: "appends (ret x)"
  by (simp add: appends_def)

lemma appends_bind [appends_intros]:
  assumes "appends m" and "\<And>x. appends (f x)"
  shows "appends (m \<bind> f)"
proof -
  have "\<exists>new. final (m \<bind> f) h = h @ new" for h
  proof -
    obtain n1 where 1: "final m h = h @ n1" using assms(1) by (auto simp: appends_def)
    obtain n2 where "final (f (result m h)) (h @ n1) = (h @ n1) @ n2"
      using assms(2) unfolding appends_def by blast
    with 1 show ?thesis by simp
  qed
  then show ?thesis by (simp add: appends_def)
qed

lemma appends_if [appends_intros]:
  "appends m \<Longrightarrow> appends m' \<Longrightarrow> appends (if b then m else m')"
  by simp

lemma appends_case_option [appends_intros]:
  "appends m \<Longrightarrow> (\<And>x. appends (f x)) \<Longrightarrow> appends (case r of None \<Rightarrow> m | Some x \<Rightarrow> f x)"
  by (cases r) auto

lemma appends_case_sum [appends_intros]:
  "(\<And>x. appends (f x)) \<Longrightarrow> (\<And>x. appends (g x)) \<Longrightarrow> appends (case r of Inl x \<Rightarrow> f x | Inr x \<Rightarrow> g x)"
  by (cases r) auto

lemma appends_case_list [appends_intros]:
  "appends m \<Longrightarrow> (\<And>x xs. appends (f x xs)) \<Longrightarrow> appends (case r of [] \<Rightarrow> m | x # xs \<Rightarrow> f x xs)"
  by (cases r) auto

lemma appends_let [appends_intros]: "(\<And>x. appends (f x)) \<Longrightarrow> appends (let x = v in f x)"
  by simp

lemma final_emitted: "appends m \<Longrightarrow> final m h = h @ emitted m h"
  unfolding appends_def emitted_def by (metis append_eq_conv_conj)

lemma emitted_bind:
  assumes "appends m" and "\<And>x. appends (f x)"
  shows "emitted (m \<bind> f) h = emitted m h @ emitted (f (result m h)) (h @ emitted m h)"
proof -
  have "final (f (result m h)) (h @ emitted m h)
        = (h @ emitted m h) @ emitted (f (result m h)) (h @ emitted m h)"
    using assms(2) by (rule final_emitted)
  then show ?thesis
    by (simp add: emitted_def [of "m \<bind> f"] final_emitted [OF assms(1)])
qed

section \<open>Optional results\<close>

text \<open>Taking a computation with early returns apart, one branch at a time.\<close>

lemma bind_SomeE:
  assumes "Option.bind m f = Some y"
  obtains x where "m = Some x" and "f x = Some y"
  using assms by (cases m) auto

lemma if_SomeE:
  assumes "(if b then m else m') = Some y"
  obtains "b" and "m = Some y" | "\<not> b" and "m' = Some y"
  using assms by (cases b) auto

section \<open>Loops of the code\<close>

text \<open>\<open>for (i = 0; i < n; i++) body(xs[i])\<close> over an array of \<open>n\<close> elements.\<close>

fun for_each :: "('a \<Rightarrow> ('s, unit) state) \<Rightarrow> 'a list \<Rightarrow> ('s, unit) state" where
  "for_each f [] = ret ()"
| "for_each f (x # xs) = f x \<bind> (\<lambda>_. for_each f xs)"

text \<open>
  The same loop with an early return: the body returns \<open>Some r\<close> to leave the enclosing function
  with \<open>r\<close>, \<open>None\<close> to go on.
\<close>

fun for_return :: "('a \<Rightarrow> ('s, 'r option) state) \<Rightarrow> 'a list \<Rightarrow> ('s, 'r option) state" where
  "for_return f [] = ret None"
| "for_return f (x # xs) = f x \<bind> (\<lambda>r. case r of None \<Rightarrow> for_return f xs | Some v \<Rightarrow> ret (Some v))"

text \<open>
  A service loop \<open>while (1)\<close> or \<open>while (!quit)\<close>: the body returns the loop variables, \<open>Inr\<close> to go
  round again and \<open>Inl\<close> to leave.  \<open>rounds n\<close> runs at most \<open>n\<close> iterations; \<open>Inr\<close> says the loop is
  still running after them.
\<close>

fun rounds :: "nat \<Rightarrow> ('v \<Rightarrow> ('s, 'r + 'v) state) \<Rightarrow> 'v \<Rightarrow> ('s, 'r + 'v) state" where
  "rounds 0 body v = ret (Inr v)"
| "rounds (Suc n) body v =
     body v \<bind> (\<lambda>r. case r of Inl x \<Rightarrow> ret (Inl x) | Inr v' \<Rightarrow> rounds n body v')"

lemma result_for_each [simp]: "result (for_each f xs) h = ()"
  by simp

lemma final_for_each_append:
  assumes "\<And>x h. final (f x) h = h @ g x"
  shows "final (for_each f xs) h = h @ concat (map g xs)"
  by (induction xs arbitrary: h) (simp_all add: assms)

lemma appends_for_each [appends_intros]:
  "(\<And>x. appends (f x)) \<Longrightarrow> appends (for_each f xs)"
  by (induction xs) (simp_all add: appends_bind)

lemma appends_for_return [appends_intros]:
  "(\<And>x. appends (f x)) \<Longrightarrow> appends (for_return f xs)"
  by (induction xs) (simp_all add: appends_bind appends_case_option)

lemma appends_rounds [appends_intros]:
  "(\<And>v. appends (body v)) \<Longrightarrow> appends (rounds n body v)"
  by (induction n arbitrary: v) (simp_all add: appends_bind appends_case_sum)

text \<open>The rule for a property of the trace that every iteration keeps.\<close>

lemma rounds_invariant:
  assumes "I h v"
    and "\<And>h v v'. I h v \<Longrightarrow> result (body v) h = Inr v' \<Longrightarrow> I (final (body v) h) v'"
    and "\<And>h v x. I h v \<Longrightarrow> result (body v) h = Inl x \<Longrightarrow> Q (final (body v) h) x"
  shows "case result (rounds n body v) h of
      Inl x \<Rightarrow> Q (final (rounds n body v) h) x
    | Inr v' \<Rightarrow> I (final (rounds n body v) h) v'"
  using assms(1)
proof (induction n arbitrary: h v)
  case 0
  then show ?case by simp
next
  case (Suc n)
  show ?case
  proof (cases "result (body v) h")
    case (Inl x)
    with Suc.prems show ?thesis by (simp add: assms(3))
  next
    case (Inr v')
    with Suc.prems have "I (final (body v) h) v'" by (rule assms(2))
    from Suc.IH [OF this] Inr show ?thesis by (simp split: sum.splits)
  qed
qed

section \<open>Bytes and machine words\<close>

text \<open>Network (big endian) composition of bytes.\<close>

definition be_word16 :: "u8 \<Rightarrow> u8 \<Rightarrow> u16" where
  "be_word16 b0 b1 = of_nat (256 * unat b0 + unat b1)"

definition be_word32 :: "u8 \<Rightarrow> u8 \<Rightarrow> u8 \<Rightarrow> u8 \<Rightarrow> u32" where
  "be_word32 b0 b1 b2 b3 =
     of_nat (2 ^ 24 * unat b0 + 2 ^ 16 * unat b1 + 256 * unat b2 + unat b3)"

lemma unat_byte_less [simp]: "unat (b :: u8) < 256"
  using unsigned_less [of b] by simp

lemma unat_be_word16 [simp]: "unat (be_word16 b0 b1) = 256 * unat b0 + unat b1"
proof -
  have "256 * unat b0 + unat b1 < 65536"
    using unat_byte_less [of b0] unat_byte_less [of b1] by linarith
  then show ?thesis
    unfolding be_word16_def by (simp only: unat_of_nat) simp
qed

lemma unat_be_word32 [simp]:
  "unat (be_word32 b0 b1 b2 b3) = 2 ^ 24 * unat b0 + 2 ^ 16 * unat b1 + 256 * unat b2 + unat b3"
proof -
  have "16777216 * unat b0 + 65536 * unat b1 + 256 * unat b2 + unat b3 < 4294967296"
    using unat_byte_less [of b0] unat_byte_less [of b1] unat_byte_less [of b2] unat_byte_less [of b3]
    by linarith
  then show ?thesis
    unfolding be_word32_def by (simp only: unat_of_nat) simp
qed

lemma base256_unique:
  fixes a b c d :: nat
  assumes "256 * a + b = 256 * c + d" and "b < 256" and "d < 256"
  shows "a = c \<and> b = d"
proof -
  have "(256 * a + b) div 256 = (256 * c + d) div 256" "(256 * a + b) mod 256 = (256 * c + d) mod 256"
    using assms(1) by simp_all
  with assms(2,3) show ?thesis by simp
qed

lemma be_word16_eq_iff [simp]: "be_word16 a b = be_word16 c d \<longleftrightarrow> a = c \<and> b = d"
proof
  assume "be_word16 a b = be_word16 c d"
  then have "256 * unat a + unat b = 256 * unat c + unat d"
    by (metis unat_be_word16)
  then have "unat a = unat c \<and> unat b = unat d"
    by (rule base256_unique) simp_all
  then show "a = c \<and> b = d" by (simp add: word_unat_eq_iff)
qed simp

lemma be_word32_eq_iff [simp]:
  "be_word32 a b c d = be_word32 a' b' c' d' \<longleftrightarrow> a = a' \<and> b = b' \<and> c = c' \<and> d = d'"
proof
  assume "be_word32 a b c d = be_word32 a' b' c' d'"
  then have "2 ^ 24 * unat a + 2 ^ 16 * unat b + 256 * unat c + unat d =
      2 ^ 24 * unat a' + 2 ^ 16 * unat b' + 256 * unat c' + unat d'"
    by (metis unat_be_word32)
  then have "256 * (256 * (256 * unat a + unat b) + unat c) + unat d =
      256 * (256 * (256 * unat a' + unat b') + unat c') + unat d'"
    by simp
  from base256_unique [OF this unat_byte_less unat_byte_less]
  have 1: "256 * (256 * unat a + unat b) + unat c = 256 * (256 * unat a' + unat b') + unat c'"
    and "unat d = unat d'" by simp_all
  moreover from base256_unique [OF 1 unat_byte_less unat_byte_less]
  have 2: "256 * unat a + unat b = 256 * unat a' + unat b'" and "unat c = unat c'" by simp_all
  moreover from base256_unique [OF 2 unat_byte_less unat_byte_less]
  have "unat a = unat a'" "unat b = unat b'" by simp_all
  ultimately show "a = a' \<and> b = b' \<and> c = c' \<and> d = d'" by (simp add: word_unat_eq_iff)
qed simp

text \<open>Octet \<open>k\<close> (counted from the least significant) of a 32-bit value: \<open>(x >> 8k) & 0xff\<close>.\<close>

unbundle bit_operations_syntax

definition octet :: "nat \<Rightarrow> u32 \<Rightarrow> u32" where
  "octet k x = drop_bit (8 * k) x AND 0xff"

lemma unat_octet: "unat (octet k x) = unat x div 2 ^ (8 * k) mod 256"
proof -
  have "(0xff :: u32) = mask 8" by (simp add: mask_eq_exp_minus_1)
  then have "octet k x = take_bit 8 (drop_bit (8 * k) x)"
    by (simp only: octet_def take_bit_eq_mask)
  then have "unat (octet k x) = take_bit 8 (drop_bit (8 * k) (unat x))"
    by (simp only: unsigned_take_bit_eq unat_drop_bit_eq)
  then show ?thesis by (simp only: take_bit_eq_mod drop_bit_eq_div) simp
qed

lemma base256_digits:
  assumes "b < (256 :: nat)" and "c < 256" and "d < 256" and "a < 256"
  shows "(2 ^ 24 * a + 2 ^ 16 * b + 256 * c + d) div 2 ^ 24 mod 256 = a"
    and "(2 ^ 24 * a + 2 ^ 16 * b + 256 * c + d) div 2 ^ 16 mod 256 = b"
    and "(2 ^ 24 * a + 2 ^ 16 * b + 256 * c + d) div 2 ^ 8 mod 256 = c"
    and "(2 ^ 24 * a + 2 ^ 16 * b + 256 * c + d) mod 256 = d"
proof -
  have 1: "(256 * x + y) div 256 = x" "(256 * x + y) mod 256 = y" if "y < 256" for x y :: nat
    using that by simp_all
  let ?n = "2 ^ 24 * a + 2 ^ 16 * b + 256 * c + d"
  have n: "?n = 256 * (256 * (256 * a + b) + c) + d"
    by simp
  have d8: "?n div 2 ^ 8 = 256 * (256 * a + b) + c"
    unfolding n using 1(1) [OF assms(3), of "256 * (256 * a + b) + c"] by (simp only: power_numeral) simp
  have d16: "?n div 2 ^ 16 = 256 * a + b"
  proof -
    have "?n div 2 ^ 16 = ?n div 2 ^ 8 div 256" by (simp only: div_mult2_eq [symmetric]) simp
    also have "\<dots> = 256 * a + b" unfolding d8 by (rule 1(1) [OF assms(2)])
    finally show ?thesis .
  qed
  have d24: "?n div 2 ^ 24 = a"
  proof -
    have "?n div 2 ^ 24 = ?n div 2 ^ 16 div 256" by (simp only: div_mult2_eq [symmetric]) simp
    also have "\<dots> = a" unfolding d16 by (rule 1(1) [OF assms(1)])
    finally show ?thesis .
  qed
  show "?n div 2 ^ 24 mod 256 = a" unfolding d24 using assms(4) by simp
  show "?n div 2 ^ 16 mod 256 = b" unfolding d16 by (rule 1(2) [OF assms(1)])
  show "?n div 2 ^ 8 mod 256 = c" unfolding d8 by (rule 1(2) [OF assms(2)])
  show "?n mod 256 = d" unfolding n by (rule 1(2) [OF assms(3)])
qed

lemma octets_be_word32:
  "unat (octet 3 (be_word32 a b c d)) = unat a"
  "unat (octet 2 (be_word32 a b c d)) = unat b"
  "unat (octet 1 (be_word32 a b c d)) = unat c"
  "unat (octet 0 (be_word32 a b c d)) = unat d"
  unfolding unat_octet unat_be_word32
  using base256_digits [of "unat b" "unat c" "unat d" "unat a"]
  by simp_all

end
