(* ===== verification/Dpdk_Api.thy ===== *)
theory Dpdk_Api
  imports Dpdk_Prelude
begin

text \<open>
  The interface between the programs and everything outside them: the DPDK library, the C
  library and the operating system.  None of that code is part of the repository, so nothing of
  its behaviour is defined here.  A call is a value of the type \<open>call\<close> (the function's name and
  its arguments), the answer comes from an environment \<open>env\<close> that is a parameter of every program
  model, and the call is appended to the trace together with its answer.

  What a program relies on is stated as a predicate on the environment (for instance
  \<open>bursts_bounded\<close>: a receive burst returns at most as many packets as were asked for, as the
  DPDK reference documents) and appears as a hypothesis of the theorems that need it.
\<close>

section \<open>Calls\<close>

datatype numa = Caller_socket | Port_socket u16  \<comment> \<open>\<open>rte_socket_id()\<close>, \<open>rte_eth_dev_socket_id(port)\<close>\<close>

datatype eal_call =
    Eal_init
  | Eal_cleanup
  | Remote_launch string nat
  | Mp_wait_lcore
  | Wait_lcore nat
  | Next_worker nat
  | Install_signal string
  | Sleep_us nat
  | Pause
  | Exit int
  | Timer_cycles
  | Timer_hz
  | Tsc_hz
  | Lcore_id
  | Abort
  | Getpid
  | Rand
  | Timer_subsystem_init
  | Timer_init
  | Timer_reset u64 nat           \<comment> \<open>ticks and core of a periodic timer\<close>
  | Timer_manage

datatype mem_call =
    Pool_create string nat nat   \<comment> \<open>name, number of mbufs, cache size\<close>
  | Pool_lookup string
  | Pool_avail ptr
  | Mbuf_alloc ptr
  | Mbuf_append mbuf nat         \<comment> \<open>buffer and number of bytes\<close>
  | Mbuf_prepend mbuf nat
  | Mbuf_trim mbuf nat
  | Mbuf_adj mbuf nat
  | Mbuf_free mbuf
  | Prefetch mbuf
  | Store mbuf nat "u8 list"     \<comment> \<open>a write of bytes at an offset of the packet data\<close>
  | Malloc nat
  | Free ptr
  | Mempool_create string nat nat nat  \<comment> \<open>name, objects, object size, cache size\<close>
  | Dynfield_register string nat
  | Seqn_set mbuf u32            \<comment> \<open>a store to the sequence number field of an mbuf\<close>
  | Frag_table_create nat nat nat nat
  | Mbuf_set_len mbuf nat         \<comment> \<open>\<open>data_len\<close> and \<open>pkt_len\<close>\<close>

datatype eth_call =
    Is_valid_port u16
  | Count_avail
  | Dev_configure u16 nat nat
  | Rx_queue_setup u16 nat nat numa ptr
  | Tx_queue_setup u16 nat nat numa
  | Dev_start u16
  | Promiscuous_enable u16
  | Macaddr_get u16
  | Dev_info_get u16
  | Dev_stop u16
  | Dev_close u16
  | Rx_burst u16 nat nat
  | Tx_burst u16 nat "mbuf list"

datatype evd_call =
    Evd_configure nat nat nat         \<comment> \<open>device, queues, ports\<close>
  | Evd_queue_setup nat nat
  | Evd_port_setup nat nat
  | Evd_port_link nat nat "nat list"
  | Evd_service string              \<comment> \<open>\<open>rte_service_get_by_name\<close>\<close>
  | Evd_service_run
  | Evd_start nat
  | Evd_default_conf nat nat
  | Evd_dev_count
  | Evd_stop nat
  | Evd_close nat
  | Evd_enqueue nat nat nat mbuf      \<comment> \<open>device, port, queue and payload of the one event\<close>
  | Evd_release nat nat mbuf          \<comment> \<open>the same call with \<open>RTE_EVENT_OP_RELEASE\<close>\<close>
  | Evd_forward nat nat nat mbuf      \<comment> \<open>the same call with \<open>RTE_EVENT_OP_FORWARD\<close>\<close>
  | Evd_dequeue nat nat nat          \<comment> \<open>device, port, number of events\<close>

datatype ring_call =
    Ring_create string nat
  | Ring_lookup string
  | Ring_enqueue_burst ptr "mbuf list"
  | Ring_dequeue_burst ptr nat
  | Ring_enqueue ptr ptr
  | Ring_dequeue ptr

datatype graph_call =
    Node_register string
  | Node_enqueue nat "mbuf list"      \<comment> \<open>edge, objects\<close>
  | Node_enqueue_x1 nat mbuf
  | Graph_create string "string list"
  | Graph_lookup string
  | Graph_walk ptr
  | Graph_destroy ptr

text \<open>The structures of the ACL library: a field of the input, and a rule with value and mask or range.\<close>

datatype field_type = FIELD_BITMASK | FIELD_MASK | FIELD_RANGE

record field_def =
  fd_type :: field_type
  fd_size :: nat
  fd_field_index :: nat
  fd_input_index :: nat
  fd_offset :: nat

record acl_rule =
  priority :: int
  category_mask :: nat
  userdata :: nat
  rule_fields :: "(nat \<times> nat) list"   \<comment> \<open>\<open>value\<close> and \<open>mask_range\<close>\<close>

datatype acl_call =
    Acl_create string nat nat         \<comment> \<open>name, maximal number of rules, fields per rule\<close>
  | Acl_add_rules ptr "acl_rule list"
  | Acl_build ptr nat "field_def list" \<comment> \<open>categories, fields\<close>
  | Acl_classify ptr mbuf
  | Acl_free ptr

text \<open>Metering and flow rules: a profile of rates and bursts, the actions of a policy or a flow.\<close>

record meter_profile =
  cir :: u64
  pir :: u64
  cbs :: u64
  pbs :: u64

datatype flow_action = Action_drop | Action_meter nat | Action_end
datatype flow_item = Item_eth | Item_ipv4 | Item_end

datatype mtr_call =
    Profile_add u16 nat meter_profile
  | Policy_add u16 nat "flow_action list" "flow_action list" "flow_action list"  \<comment> \<open>green, yellow, red\<close>
  | Meter_create u16 nat nat nat     \<comment> \<open>meter, profile, policy\<close>
  | Flow_create u16 "flow_item list" "flow_action list"

datatype reorder_call =
    Reorder_create string nat
  | Reorder_insert ptr mbuf
  | Reorder_drain ptr nat
  | Reorder_free ptr

text \<open>Messages between processes: a name and the bytes of the parameter.\<close>

datatype mp_call =
    Mp_register string
  | Mp_unregister string
  | Mp_reply string string
  | Mp_request_sync string string
  | Mp_free_msgs                  \<comment> \<open>\<open>free(reply.msgs)\<close>\<close>

datatype call =
    Eal eal_call
  | Mem mem_call
  | Eth eth_call
  | Evd evd_call
  | Ring ring_call
  | Graph graph_call
  | Acl acl_call
  | Mtr mtr_call
  | Reorder reorder_call
  | Mp mp_call

section \<open>Environments, events and traces\<close>

text \<open>
  The answers, by the position of the call in the trace.  A C function that returns \<open>int\<close> takes
  its value from \<open>status\<close>, one that returns a pointer from \<open>pointer\<close> (0 is NULL), one that fills
  an array of mbufs from \<open>burst\<close>, one that returns an unsigned count from \<open>counted\<close>.  What a call
  writes through an output pointer (a MAC address, a device description) is in \<open>filled\<close>, the
  size of a structure of the library in \<open>size_of\<close>, the parameters of the replies to a message in
  \<open>replies\<close>.
\<close>

record env =
  status :: "nat \<Rightarrow> call \<Rightarrow> int"
  pointer :: "nat \<Rightarrow> call \<Rightarrow> ptr"
  burst :: "nat \<Rightarrow> call \<Rightarrow> mbuf list"
  counted :: "nat \<Rightarrow> call \<Rightarrow> nat"
  filled :: "nat \<Rightarrow> call \<Rightarrow> nat list"
  size_of :: "string \<Rightarrow> nat"
  replies :: "nat \<Rightarrow> call \<Rightarrow> string list"

datatype parg = PU nat | PD int | PS string   \<comment> \<open>\<open>%u\<close> and \<open>%x\<close>, \<open>%d\<close>, \<open>%s\<close>\<close>

datatype event =
    Printf string "parg list"
  | Status call int
  | Pointer call ptr
  | Burst call "mbuf list"
  | Count call nat
  | Did call
  | Access mbuf     \<comment> \<open>the program reads the data of a packet\<close>
  | Overread mbuf   \<comment> \<open>the program reads past the data of a packet; what it prints then is left open\<close>
  | Undefined       \<comment> \<open>a write through NULL or past the end of an array: the C program has no meaning\<close>

type_synonym 'a io = "(event list, 'a) state"

definition say :: "string \<Rightarrow> parg list \<Rightarrow> unit io" where
  "say f as = State (\<lambda>h. ((), h @ [Printf f as]))"

definition ask_status :: "env \<Rightarrow> call \<Rightarrow> int io" where
  "ask_status E c = State (\<lambda>h. (status E (length h) c, h @ [Status c (status E (length h) c)]))"

definition ask_pointer :: "env \<Rightarrow> call \<Rightarrow> ptr io" where
  "ask_pointer E c = State (\<lambda>h. (pointer E (length h) c, h @ [Pointer c (pointer E (length h) c)]))"

definition ask_burst :: "env \<Rightarrow> call \<Rightarrow> mbuf list io" where
  "ask_burst E c = State (\<lambda>h. (burst E (length h) c, h @ [Burst c (burst E (length h) c)]))"

definition ask_count :: "env \<Rightarrow> call \<Rightarrow> nat io" where
  "ask_count E c = State (\<lambda>h. (counted E (length h) c, h @ [Count c (counted E (length h) c)]))"

text \<open>What the call just made has written through its output pointer.\<close>

definition output_of :: "env \<Rightarrow> call \<Rightarrow> nat list io" where
  "output_of E c = State (\<lambda>h. (filled E (length h - 1) c, h))"

definition replies_to :: "env \<Rightarrow> call \<Rightarrow> string list io" where
  "replies_to E c = State (\<lambda>h. (replies E (length h - 1) c, h))"

definition act :: "call \<Rightarrow> unit io" where
  "act c = State (\<lambda>h. ((), h @ [Did c]))"

definition emit :: "event list \<Rightarrow> unit io" where
  "emit es = State (\<lambda>h. ((), h @ es))"

lemma run_io [simp, io_simps]:
  "result (say f as) h = ()" "final (say f as) h = h @ [Printf f as]"
  "result (ask_status E c) h = status E (length h) c"
  "final (ask_status E c) h = h @ [Status c (status E (length h) c)]"
  "result (ask_pointer E c) h = pointer E (length h) c"
  "final (ask_pointer E c) h = h @ [Pointer c (pointer E (length h) c)]"
  "result (ask_burst E c) h = burst E (length h) c"
  "final (ask_burst E c) h = h @ [Burst c (burst E (length h) c)]"
  "result (ask_count E c) h = counted E (length h) c"
  "final (ask_count E c) h = h @ [Count c (counted E (length h) c)]"
  "result (output_of E c) h = filled E (length h - 1) c" "final (output_of E c) h = h"
  "result (replies_to E c) h = replies E (length h - 1) c" "final (replies_to E c) h = h"
  "result (act c) h = ()" "final (act c) h = h @ [Did c]"
  "result (emit es) h = ()" "final (emit es) h = h @ es"
  by (simp_all add: result_def final_def say_def ask_status_def ask_pointer_def ask_burst_def
      ask_count_def output_of_def replies_to_def act_def emit_def)

lemma appends_io [simp, appends_intros]:
  "appends (say f as)" "appends (ask_status E c)" "appends (ask_pointer E c)"
  "appends (ask_burst E c)" "appends (ask_count E c)" "appends (output_of E c)" "appends (replies_to E c)" "appends (act c)" "appends (emit es)"
  by (simp_all add: appends_def)

section \<open>The calls under their C names\<close>

abbreviation "rte_eal_init E \<equiv> ask_status E (Eal Eal_init)"
abbreviation "rte_eal_cleanup \<equiv> act (Eal Eal_cleanup)"
abbreviation "rte_eal_mp_wait_lcore \<equiv> act (Eal Mp_wait_lcore)"
abbreviation "rte_eal_remote_launch f lcore \<equiv> act (Eal (Remote_launch f lcore))"
abbreviation "install_signal s \<equiv> act (Eal (Install_signal s))"
abbreviation "sleep_us n \<equiv> act (Eal (Sleep_us n))"
abbreviation "rte_pause \<equiv> act (Eal Pause)"
abbreviation "rte_get_timer_cycles E \<equiv> ask_count E (Eal Timer_cycles)"
abbreviation "rte_get_timer_hz E \<equiv> ask_count E (Eal Timer_hz)"

abbreviation "rte_pktmbuf_pool_create E name n cache \<equiv> ask_pointer E (Mem (Pool_create name n cache))"
abbreviation "rte_mempool_avail_count E mp \<equiv> ask_count E (Mem (Pool_avail mp))"
abbreviation "rte_pktmbuf_alloc E mp \<equiv> ask_pointer E (Mem (Mbuf_alloc mp))"
abbreviation "rte_pktmbuf_append E m n \<equiv> ask_pointer E (Mem (Mbuf_append m n))"
abbreviation "rte_pktmbuf_prepend E m n \<equiv> ask_pointer E (Mem (Mbuf_prepend m n))"
abbreviation "rte_pktmbuf_trim E m n \<equiv> ask_status E (Mem (Mbuf_trim m n))"
abbreviation "rte_pktmbuf_adj E m n \<equiv> ask_pointer E (Mem (Mbuf_adj m n))"
abbreviation "rte_pktmbuf_free m \<equiv> act (Mem (Mbuf_free m))"
abbreviation "rte_prefetch0 m \<equiv> act (Mem (Prefetch m))"

abbreviation "rte_eth_dev_is_valid_port E p \<equiv> ask_status E (Eth (Is_valid_port p))"
abbreviation "rte_eth_dev_count_avail E \<equiv> ask_count E (Eth Count_avail)"
abbreviation "rte_eth_dev_configure E p nrx ntx \<equiv> ask_status E (Eth (Dev_configure p nrx ntx))"
abbreviation "rte_eth_rx_queue_setup E p q n s mp \<equiv> ask_status E (Eth (Rx_queue_setup p q n s mp))"
abbreviation "rte_eth_tx_queue_setup E p q n s \<equiv> ask_status E (Eth (Tx_queue_setup p q n s))"
abbreviation "rte_eth_dev_start E p \<equiv> ask_status E (Eth (Dev_start p))"
abbreviation "rte_eth_promiscuous_enable E p \<equiv> ask_status E (Eth (Promiscuous_enable p))"
abbreviation "rte_eth_macaddr_get E p \<equiv> ask_status E (Eth (Macaddr_get p))"
abbreviation "rte_eth_dev_info_get E p \<equiv> ask_status E (Eth (Dev_info_get p))"
abbreviation "rte_eth_dev_stop p \<equiv> act (Eth (Dev_stop p))"
abbreviation "rte_eth_dev_close p \<equiv> act (Eth (Dev_close p))"
abbreviation "rte_eth_rx_burst E p q n \<equiv> ask_burst E (Eth (Rx_burst p q n))"
abbreviation "rte_eth_tx_burst E p q ms \<equiv> ask_count E (Eth (Tx_burst p q ms))"

abbreviation "rte_ring_create E name n \<equiv> ask_pointer E (Ring (Ring_create name n))"
abbreviation "rte_ring_lookup E name \<equiv> ask_pointer E (Ring (Ring_lookup name))"
abbreviation "rte_ring_enqueue_burst E r ms \<equiv> ask_count E (Ring (Ring_enqueue_burst r ms))"
abbreviation "rte_ring_dequeue_burst E r n \<equiv> ask_burst E (Ring (Ring_dequeue_burst r n))"

abbreviation "rte_event_enqueue E d p q m \<equiv> ask_status E (Evd (Evd_enqueue d p q m))"
abbreviation "rte_event_release E d p m \<equiv> ask_status E (Evd (Evd_release d p m))"
abbreviation "rte_event_dequeue E d p n \<equiv> ask_burst E (Evd (Evd_dequeue d p n))"

abbreviation "rte_node_enqueue edge ms \<equiv> act (Graph (Node_enqueue edge ms))"
abbreviation "rte_node_enqueue_x1 edge m \<equiv> act (Graph (Node_enqueue_x1 edge m))"

abbreviation "rte_reorder_create E name n \<equiv> ask_pointer E (Reorder (Reorder_create name n))"
abbreviation "rte_reorder_insert E b m \<equiv> ask_status E (Reorder (Reorder_insert b m))"
abbreviation "rte_reorder_drain E b n \<equiv> ask_burst E (Reorder (Reorder_drain b n))"
abbreviation "rte_mp_action_register E name \<equiv> ask_status E (Mp (Mp_register name))"
abbreviation "rte_mp_reply E name param \<equiv> ask_status E (Mp (Mp_reply name param))"
abbreviation "rte_mp_request_sync E name param \<equiv> ask_status E (Mp (Mp_request_sync name param))"
abbreviation "rte_lcore_id E \<equiv> ask_count E (Eal Lcore_id)"

text \<open>\<open>rte_exit(EXIT_FAILURE, \<dots>)\<close> prints its message and ends the process with status 1.\<close>

definition rte_exit :: "string \<Rightarrow> parg list \<Rightarrow> int io" where
  "rte_exit msg as = do { say msg as; act (Eal (Exit 1)); ret 1 }"

lemma run_rte_exit [simp]:
  "result (rte_exit msg as) h = 1"
  "final (rte_exit msg as) h = h @ [Printf msg as, Did (Eal (Exit 1))]"
  by (simp_all add: rte_exit_def)

lemma appends_rte_exit [simp, appends_intros]: "appends (rte_exit msg as)"
  unfolding rte_exit_def by (intro appends_intros)

text \<open>\<open>rte_panic\<close> prints its message and aborts; what follows it is not reached.\<close>

definition rte_panic :: "string \<Rightarrow> parg list \<Rightarrow> int io" where
  "rte_panic msg as = do { say msg as; act (Eal Abort); ret (-1) }"

lemma run_rte_panic [simp]:
  "result (rte_panic msg as) h = -1" "final (rte_panic msg as) h = h @ [Printf msg as, Did (Eal Abort)]"
  by (simp_all add: rte_panic_def)

lemma appends_rte_panic [simp, appends_intros]: "appends (rte_panic msg as)"
  unfolding rte_panic_def by (intro appends_intros)

section \<open>Documented constants\<close>

text \<open>
  Values the DPDK reference and the protocol standards fix: the EtherType and IP protocol
  numbers, the lengths of the packet headers and the graph library's burst size.
\<close>

definition RTE_ETHER_TYPE_IPV4 :: u16 where "RTE_ETHER_TYPE_IPV4 = 0x0800"
definition RTE_ETHER_TYPE_ARP :: u16 where "RTE_ETHER_TYPE_ARP = 0x0806"
definition RTE_ETHER_TYPE_IPV6 :: u16 where "RTE_ETHER_TYPE_IPV6 = 0x86DD"
definition IPPROTO_TCP :: u8 where "IPPROTO_TCP = 6"
definition IPPROTO_UDP :: u8 where "IPPROTO_UDP = 17"
definition ETHER_HDR_LEN :: nat where "ETHER_HDR_LEN = 14"
definition IPV4_HDR_LEN :: nat where "IPV4_HDR_LEN = 20"
definition IPV6_HDR_LEN :: nat where "IPV6_HDR_LEN = 40"
definition TCP_HDR_LEN :: nat where "TCP_HDR_LEN = 20"
definition UDP_HDR_LEN :: nat where "UDP_HDR_LEN = 8"
definition GRAPH_BURST_SIZE :: nat where "GRAPH_BURST_SIZE = 256"
definition GRAPH_ID_INVALID :: nat where "GRAPH_ID_INVALID = 65535"
definition SIGINT :: int where "SIGINT = 2"
definition SIGTERM :: int where "SIGTERM = 15"

lemmas api_constants =
  RTE_ETHER_TYPE_IPV4_def RTE_ETHER_TYPE_ARP_def RTE_ETHER_TYPE_IPV6_def IPPROTO_TCP_def
  IPPROTO_UDP_def ETHER_HDR_LEN_def IPV4_HDR_LEN_def IPV6_HDR_LEN_def TCP_HDR_LEN_def
  UDP_HDR_LEN_def GRAPH_BURST_SIZE_def GRAPH_ID_INVALID_def SIGINT_def SIGTERM_def

section \<open>What the documentation promises\<close>

text \<open>A burst call hands out at most the number of packets it was asked for.\<close>

definition bursts_bounded :: "env \<Rightarrow> bool" where
  "bursts_bounded E \<longleftrightarrow> (\<forall>t p q n r. length (burst E t (Eth (Rx_burst p q n))) \<le> n \<and>
     length (burst E t (Ring (Ring_dequeue_burst r n))) \<le> n \<and>
     (\<forall>d ep. length (burst E t (Evd (Evd_dequeue d ep n))) \<le> n))"

text \<open>A transmit or enqueue call takes at most the packets it was given.\<close>

definition takes_bounded :: "env \<Rightarrow> bool" where
  "takes_bounded E \<longleftrightarrow> (\<forall>t p q r ms. counted E t (Eth (Tx_burst p q ms)) \<le> length ms \<and>
     counted E t (Ring (Ring_enqueue_burst r ms)) \<le> length ms)"

lemma bursts_boundedD:
  "bursts_bounded E \<Longrightarrow> length (burst E t (Eth (Rx_burst p q n))) \<le> n"
  "bursts_bounded E \<Longrightarrow> length (burst E t (Ring (Ring_dequeue_burst r n))) \<le> n"
  "bursts_bounded E \<Longrightarrow> length (burst E t (Evd (Evd_dequeue d ep n))) \<le> n"
  by (simp_all add: bursts_bounded_def)

lemma takes_boundedD:
  "takes_bounded E \<Longrightarrow> counted E t (Eth (Tx_burst p q ms)) \<le> length ms"
  "takes_bounded E \<Longrightarrow> counted E t (Ring (Ring_enqueue_burst r ms)) \<le> length ms"
  by (simp_all add: takes_bounded_def)

text \<open>
  A well-behaved environment for the examples: every call succeeds, every port is valid, pointers
  are not NULL, nothing is received and everything offered for transmission is taken.
\<close>

definition good_env :: env where
  "good_env = \<lparr>status = (\<lambda>_ c. case c of Eth (Is_valid_port p) \<Rightarrow> 1 | _ \<Rightarrow> 0),
     pointer = (\<lambda>_ _. 1), burst = (\<lambda>_ _. []),
     counted = (\<lambda>_ c. case c of Eth (Tx_burst p q ms) \<Rightarrow> length ms
                  | Ring (Ring_enqueue_burst r ms) \<Rightarrow> length ms | _ \<Rightarrow> 0),
     filled = (\<lambda>_ _. []), size_of = (\<lambda>_. 0), replies = (\<lambda>_ _. [])\<rparr>"

lemma good_env_sel [simp]:
  "pointer good_env t c = 1" "burst good_env t c = []"
  "counted good_env t (Eth (Tx_burst p q ms)) = length ms"
  "counted good_env t (Ring (Ring_enqueue_burst r ms)) = length ms"
  "status good_env t (Eal ec) = 0" "status good_env t (Mem mc) = 0" "status good_env t (Evd vc) = 0"
  "status good_env t (Acl ac) = 0" "status good_env t (Mtr tc) = 0"
  "status good_env t (Reorder oc) = 0" "status good_env t (Mp pc) = 0" "replies good_env t c = []"
  "status good_env t (Eth (Is_valid_port p)) = 1" "status good_env t (Eth (Dev_configure p nrx ntx)) = 0"
  "status good_env t (Eth (Rx_queue_setup p q n s mp)) = 0" "status good_env t (Eth (Tx_queue_setup p q n s)) = 0"
  "status good_env t (Eth (Dev_start p)) = 0"
  by (simp_all add: good_env_def)

lemma good_env_bounded: "bursts_bounded good_env" "takes_bounded good_env"
  by (simp_all add: bursts_bounded_def takes_bounded_def good_env_def)

section \<open>Reading a trace\<close>

text \<open>The mbufs handed back to their pool, in order.\<close>

fun freed :: "event list \<Rightarrow> mbuf list" where
  "freed [] = []"
| "freed (e # es) = (case e of Did (Mem (Mbuf_free m)) \<Rightarrow> m # freed es | _ \<Rightarrow> freed es)"

text \<open>The arguments of the transmit calls, with the number of packets each took.\<close>

fun transmits :: "event list \<Rightarrow> (mbuf list \<times> nat) list" where
  "transmits [] = []"
| "transmits (e # es) =
     (case e of Count (Eth (Tx_burst p q ms)) n \<Rightarrow> (ms, n) # transmits es | _ \<Rightarrow> transmits es)"

text \<open>The packets the port took over for transmission.\<close>

definition transmitted :: "event list \<Rightarrow> mbuf list" where
  "transmitted es = concat (map (\<lambda>(ms, n). take n ms) (transmits es))"

text \<open>The packets received from ports.\<close>

definition rcvd :: "event list \<Rightarrow> mbuf list" where
  "rcvd es = concat (map (\<lambda>e. case e of
     Burst c ms \<Rightarrow> (case c of Eth ec \<Rightarrow> ms | _ \<Rightarrow> []) | _ \<Rightarrow> []) es)"

lemma rcvd_simps [simp]:
  "rcvd [] = []" "rcvd (xs @ ys) = rcvd xs @ rcvd ys"
  "rcvd (Burst (Eth ec) ms # es) = ms @ rcvd es" "rcvd (Burst (Ring rc) ms # es) = rcvd es"
  "rcvd (Burst (Evd vc) ms # es) = rcvd es"
  "rcvd (Count c k # es) = rcvd es" "rcvd (Did c # es) = rcvd es" "rcvd (Printf f as # es) = rcvd es"
  "rcvd (Status c r # es) = rcvd es" "rcvd (Access m # es) = rcvd es" "rcvd (Overread m # es) = rcvd es"
  "rcvd (map (\<lambda>m. Did (Mem (Mbuf_free m))) ms) = []"
  by (simp_all add: rcvd_def comp_def)

lemma freed_append [simp]: "freed (xs @ ys) = freed xs @ freed ys"
  by (induction xs) (auto split: event.splits call.splits mem_call.splits)

lemma transmits_append [simp]: "transmits (xs @ ys) = transmits xs @ transmits ys"
  by (induction xs) (auto split: event.splits call.splits eth_call.splits)

lemma transmitted_append [simp]: "transmitted (xs @ ys) = transmitted xs @ transmitted ys"
  by (simp add: transmitted_def)

lemma freed_map_free [simp]: "freed (map (\<lambda>m. Did (Mem (Mbuf_free m))) ms) = ms"
  by (induction ms) simp_all

lemma transmits_map_free [simp]: "transmits (map (\<lambda>m. Did (Mem (Mbuf_free m))) ms) = []"
  by (induction ms) simp_all

text \<open>The loop that frees an array of mbufs, which many of the programs contain.\<close>

lemma final_free_loop [simp]:
  "final (for_each (\<lambda>m. rte_pktmbuf_free m) ms) h = h @ map (\<lambda>m. Did (Mem (Mbuf_free m))) ms"
  by (induction ms arbitrary: h) simp_all

end
