(* ===== verification/Packet_Data.thy ===== *)
theory Packet_Data
  imports Dpdk_Api
begin

text \<open>
  Packet bytes.  The data area of an mbuf is the list of its \<open>data_len\<close> bytes; a read of a header
  field through a casted pointer reads bytes of that list, and a read past its end is \<open>None\<close>.

  A multi-byte field read without conversion has the byte order of the host.  The conversion
  functions \<open>rte_be_to_cpu_16\<close> and so on belong to DPDK and are a parameter \<open>byteorder\<close>; their
  documented behaviour is the predicate \<open>byteorder_ok\<close>.
\<close>

section \<open>Byte order\<close>

datatype endian = Little | Big

definition ld16 :: "endian \<Rightarrow> u8 \<Rightarrow> u8 \<Rightarrow> u16" where
  "ld16 e b0 b1 = (case e of Big \<Rightarrow> be_word16 b0 b1 | Little \<Rightarrow> be_word16 b1 b0)"

definition ld32 :: "endian \<Rightarrow> u8 \<Rightarrow> u8 \<Rightarrow> u8 \<Rightarrow> u8 \<Rightarrow> u32" where
  "ld32 e b0 b1 b2 b3 =
     (case e of Big \<Rightarrow> be_word32 b0 b1 b2 b3 | Little \<Rightarrow> be_word32 b3 b2 b1 b0)"

record byteorder =
  be_to_cpu_16 :: "u16 \<Rightarrow> u16"
  be_to_cpu_32 :: "u32 \<Rightarrow> u32"
  cpu_to_be_16 :: "u16 \<Rightarrow> u16"
  cpu_to_be_32 :: "u32 \<Rightarrow> u32"

text \<open>
  A value in network order converts to what its bytes denote in network order, and
  \<open>rte_cpu_to_be_16\<close> and \<open>rte_cpu_to_be_32\<close> are the inverses of \<open>rte_be_to_cpu_16\<close> and \<open>rte_be_to_cpu_32\<close>.
\<close>

definition byteorder_ok :: "endian \<Rightarrow> byteorder \<Rightarrow> bool" where
  "byteorder_ok e B \<longleftrightarrow>
     (\<forall>b0 b1. be_to_cpu_16 B (ld16 e b0 b1) = be_word16 b0 b1) \<and>
     (\<forall>b0 b1 b2 b3. be_to_cpu_32 B (ld32 e b0 b1 b2 b3) = be_word32 b0 b1 b2 b3) \<and>
     (\<forall>x. be_to_cpu_16 B (cpu_to_be_16 B x) = x \<and> cpu_to_be_16 B (be_to_cpu_16 B x) = x) \<and>
     (\<forall>x. be_to_cpu_32 B (cpu_to_be_32 B x) = x \<and> cpu_to_be_32 B (be_to_cpu_32 B x) = x)"

lemma byteorder_okD [simp]:
  assumes "byteorder_ok e B"
  shows "be_to_cpu_16 B (ld16 e b0 b1) = be_word16 b0 b1"
    and "be_to_cpu_32 B (ld32 e b0 b1 b2 b3) = be_word32 b0 b1 b2 b3"
    and "be_to_cpu_16 B (cpu_to_be_16 B x) = x"
    and "cpu_to_be_16 B (be_to_cpu_16 B x) = x"
    and "be_to_cpu_32 B (cpu_to_be_32 B y) = y"
    and "cpu_to_be_32 B (be_to_cpu_32 B y) = y"
  using assms by (simp_all add: byteorder_ok_def)

text \<open>A field equals a converted constant exactly when its bytes denote the constant.\<close>

lemma raw_eq_cpu_to_be [simp]:
  assumes "byteorder_ok e B"
  shows "ld16 e b0 b1 = cpu_to_be_16 B x \<longleftrightarrow> be_word16 b0 b1 = x"
  by (metis assms byteorder_okD(1,3,4))

text \<open>The byte order of x86, for the examples: a little-endian host that swaps.\<close>

definition swap16 :: "u16 \<Rightarrow> u16" where
  "swap16 x = of_nat (256 * (unat x mod 256) + unat x div 256)"

definition swap32 :: "u32 \<Rightarrow> u32" where
  "swap32 x = of_nat (2 ^ 24 * (unat x mod 256) + 2 ^ 16 * (unat x div 2 ^ 8 mod 256)
      + 256 * (unat x div 2 ^ 16 mod 256) + unat x div 2 ^ 24 mod 256)"

definition x86_order :: byteorder where
  "x86_order = \<lparr>be_to_cpu_16 = swap16, be_to_cpu_32 = swap32, cpu_to_be_16 = swap16, cpu_to_be_32 = swap32\<rparr>"

lemma swap16_be_word16: "swap16 (be_word16 a b) = be_word16 b a"
  unfolding swap16_def unat_be_word16 by (simp add: be_word16_def)

lemma swap32_be_word32: "swap32 (be_word32 a b c d) = be_word32 d c b a"
  unfolding swap32_def unat_be_word32
    base256_digits [OF unat_byte_less [of b] unat_byte_less [of c] unat_byte_less [of d] unat_byte_less [of a]]
  by (simp only: be_word32_def)

lemma word16_bytes: "\<exists>a b. (x :: u16) = be_word16 a b"
proof -
  have "unat x < 65536" using unsigned_less [of x] by simp
  then have "unat x div 256 < 256" by (simp add: less_mult_imp_div_less)
  then have "unat (be_word16 (of_nat (unat x div 256)) (of_nat (unat x mod 256))) = unat x"
    by (simp only: unat_be_word16 unat_of_nat) simp
  then show ?thesis by (metis word_unat_eq_iff)
qed

lemma word32_bytes: "\<exists>a b c d. (x :: u32) = be_word32 a b c d"
proof -
  let ?n = "unat x"
  let ?a = "?n div 16777216" and ?b = "?n div 65536 mod 256" and ?c = "?n div 256 mod 256" and ?d = "?n mod 256"
  have n: "?n < 4294967296" using unsigned_less [of x] by simp
  have "unat (be_word32 (of_nat ?a) (of_nat ?b) (of_nat ?c) (of_nat ?d))
      = 16777216 * (?a mod 256) + 65536 * ?b + 256 * ?c + ?d"
    by (simp only: unat_be_word32 unat_of_nat) simp
  also have "\<dots> = ?n"
  proof -
    let ?m = "?n div 256"
    let ?k = "?m div 256"
    have k: "?k = ?n div 65536" and a: "?k div 256 = ?a"
      by (simp_all only: div_mult2_eq [symmetric]) simp_all
    have "?a < 256" using n by (simp add: less_mult_imp_div_less)
    then have "?a mod 256 = ?a" by simp
    moreover have "256 * ?m + ?n mod 256 = ?n" "256 * ?k + ?m mod 256 = ?m"
      by (simp_all only: mult_div_mod_eq)
    moreover have "256 * ?a + ?k mod 256 = ?k"
      using mult_div_mod_eq [of 256 ?k] by (simp only: a)
    moreover have "16777216 * a + 65536 * r + 256 * q + p = n"
      if "256 * m + p = n" "256 * k + q = m" "256 * a + r = k" for a k m n p q r :: nat
      using that by simp
    ultimately show ?thesis unfolding k by metis
  qed
  finally show ?thesis by (metis word_unat_eq_iff)
qed

lemma x86_order_ok: "byteorder_ok Little x86_order"
proof -
  have "swap32 (swap32 x) = x" for x
  proof -
    obtain a b c d where "x = be_word32 a b c d" using word32_bytes by blast
    then show ?thesis by (simp add: swap32_be_word32)
  qed
  moreover
  have "swap16 (swap16 x) = x" for x
  proof -
    obtain a b where "x = be_word16 a b" using word16_bytes by blast
    then show ?thesis by (simp add: swap16_be_word16)
  qed
  ultimately show ?thesis
    by (simp add: byteorder_ok_def x86_order_def ld16_def ld32_def swap16_be_word16 swap32_be_word32)
qed

text \<open>A field is written in the byte order of the host too.\<close>

definition st16 :: "endian \<Rightarrow> u16 \<Rightarrow> u8 list" where
  "st16 e v =
     (let hi = of_nat (unat v div 256); lo = of_nat (unat v mod 256)
      in case e of Big \<Rightarrow> [hi, lo] | Little \<Rightarrow> [lo, hi])"

lemma word16_raw: "\<exists>a b. (x :: u16) = ld16 e a b"
  using word16_bytes [of x] by (cases e) (auto simp: ld16_def)

lemma st16_be_word16:
  "st16 Big (be_word16 a b) = [a, b]" "st16 Little (be_word16 a b) = [b, a]"
proof -
  have "(256 * unat a + unat b) div 256 = unat a" "(256 * unat a + unat b) mod 256 = unat b"
    by simp_all
  then show "st16 Big (be_word16 a b) = [a, b]" "st16 Little (be_word16 a b) = [b, a]"
    by (simp_all only: st16_def unat_be_word16 Let_def endian.case) simp_all
qed

lemma st16_ld16: "st16 e (ld16 e a b) = [a, b]"
  by (cases e) (simp_all add: ld16_def st16_be_word16)

text \<open>A converted constant is stored as its bytes in network order.\<close>

lemma st16_cpu_to_be [simp]:
  assumes "byteorder_ok e B"
  shows "st16 e (cpu_to_be_16 B (be_word16 a b)) = [a, b]"
proof -
  obtain x y where xy: "cpu_to_be_16 B (be_word16 a b) = ld16 e x y" using word16_raw by blast
  then have "be_word16 x y = be_word16 a b"
    using raw_eq_cpu_to_be [OF assms, of x y "be_word16 a b"] by simp
  then show ?thesis by (simp add: xy st16_ld16)
qed

definition st32 :: "endian \<Rightarrow> u32 \<Rightarrow> u8 list" where
  "st32 e v =
     (let bs = map (\<lambda>k. of_nat (unat (octet k v))) [3, 2, 1, 0]
      in case e of Big \<Rightarrow> bs | Little \<Rightarrow> rev bs)"

lemma st32_ld32: "st32 e (ld32 e a b c d) = [a, b, c, d]"
  by (cases e; simp only: st32_def ld32_def endian.case Let_def list.map octets_be_word32 rev.simps
      append.simps; simp)

lemma word32_raw: "\<exists>a b c d. (x :: u32) = ld32 e a b c d"
  using word32_bytes [of x] by (cases e) (auto simp: ld32_def)

lemma st32_cpu_to_be [simp]:
  assumes "byteorder_ok e B"
  shows "st32 e (cpu_to_be_32 B (be_word32 a b c d)) = [a, b, c, d]"
proof -
  obtain a' b' c' d' where xy: "cpu_to_be_32 B (be_word32 a b c d) = ld32 e a' b' c' d'"
    using word32_raw by blast
  then have "be_word32 a' b' c' d' = be_word32 a b c d"
    by (metis assms byteorder_okD(2,5))
  then show ?thesis by (simp add: xy st32_ld32)
qed

section \<open>Packets\<close>

record packet =
  data :: "u8 list"            \<comment> \<open>the \<open>data_len\<close> bytes at \<open>rte_pktmbuf_mtod\<close>\<close>
  port :: nat
  pkt_len :: nat
  data_off :: nat
  packet_type :: nat
  buf_len :: nat
  nb_segs :: nat
  ol_flags :: nat
  l2_type :: nat               \<comment> \<open>set by the driver\<close>
  l3_type :: nat
  l4_type :: nat
  inner_l2_type :: nat
  inner_l3_type :: nat
  inner_l4_type :: nat

section \<open>Reads\<close>

definition get8 :: "u8 list \<Rightarrow> nat \<Rightarrow> u8 option" where
  "get8 d i = (if i < length d then Some (d ! i) else None)"

definition get16 :: "endian \<Rightarrow> u8 list \<Rightarrow> nat \<Rightarrow> u16 option" where
  "get16 e d i = (if i + 1 < length d then Some (ld16 e (d ! i) (d ! (i + 1))) else None)"

definition get32 :: "endian \<Rightarrow> u8 list \<Rightarrow> nat \<Rightarrow> u32 option" where
  "get32 e d i =
     (if i + 3 < length d then Some (ld32 e (d ! i) (d ! (i + 1)) (d ! (i + 2)) (d ! (i + 3))) else None)"

definition get_bytes :: "u8 list \<Rightarrow> nat \<Rightarrow> nat \<Rightarrow> u8 list option" where
  "get_bytes d i n = (if i + n \<le> length d then Some (take n (drop i d)) else None)"

lemmas get_defs = get8_def get16_def get32_def get_bytes_def

lemma get_Some [simp]:
  "i < length d \<Longrightarrow> get8 d i = Some (d ! i)"
  "i + 1 < length d \<Longrightarrow> get16 e d i = Some (ld16 e (d ! i) (d ! (i + 1)))"
  "i + 3 < length d \<Longrightarrow>
     get32 e d i = Some (ld32 e (d ! i) (d ! (i + 1)) (d ! (i + 2)) (d ! (i + 3)))"
  "i + n \<le> length d \<Longrightarrow> get_bytes d i n = Some (take n (drop i d))"
  by (simp_all add: get_defs)

text \<open>The arguments that print an address in dotted notation, from a 32-bit value.\<close>

definition dotted :: "u32 \<Rightarrow> parg list" where
  "dotted x = [PU (unat (octet 3 x)), PU (unat (octet 2 x)), PU (unat (octet 1 x)), PU (unat (octet 0 x))]"

lemma dotted_be_word32:
  "dotted (be_word32 a b c d) = [PU (unat a), PU (unat b), PU (unat c), PU (unat d)]"
  by (simp only: dotted_def octets_be_word32)

definition mac_args :: "u8 list \<Rightarrow> parg list" where
  "mac_args bs = map (\<lambda>b. PU (unat b)) bs"

text \<open>An unconverted address prints its bytes in the order of the host.\<close>

definition host_octets :: "endian \<Rightarrow> u8 list \<Rightarrow> nat \<Rightarrow> parg list" where
  "host_octets e d i =
     (let a = [PU (unat (d ! i)), PU (unat (d ! (i + 1))), PU (unat (d ! (i + 2))), PU (unat (d ! (i + 3)))]
      in case e of Big \<Rightarrow> a | Little \<Rightarrow> rev a)"

lemma dotted_ld32:
  "dotted (ld32 e (d ! i) (d ! (i + 1)) (d ! (i + 2)) (d ! (i + 3))) = host_octets e d i"
  by (cases e) (simp_all add: ld32_def dotted_be_word32 host_octets_def Let_def)

text \<open>The EtherTypes, byte by byte.\<close>

lemma ether_type_bytes:
  "be_word16 a b = RTE_ETHER_TYPE_IPV4 \<longleftrightarrow> a = 0x08 \<and> b = 0x00"
  "be_word16 a b = RTE_ETHER_TYPE_IPV6 \<longleftrightarrow> a = 0x86 \<and> b = 0xDD"
  "be_word16 a b = RTE_ETHER_TYPE_ARP \<longleftrightarrow> a = 0x08 \<and> b = 0x06"
proof -
  have eqs: "RTE_ETHER_TYPE_IPV4 = be_word16 0x08 0x00" "RTE_ETHER_TYPE_IPV6 = be_word16 0x86 0xDD"
    "RTE_ETHER_TYPE_ARP = be_word16 0x08 0x06"
    by (simp_all add: api_constants be_word16_def)
  show "be_word16 a b = RTE_ETHER_TYPE_IPV4 \<longleftrightarrow> a = 0x08 \<and> b = 0x00"
    unfolding eqs by (rule be_word16_eq_iff)
  show "be_word16 a b = RTE_ETHER_TYPE_IPV6 \<longleftrightarrow> a = 0x86 \<and> b = 0xDD"
    unfolding eqs by (rule be_word16_eq_iff)
  show "be_word16 a b = RTE_ETHER_TYPE_ARP \<longleftrightarrow> a = 0x08 \<and> b = 0x06"
    unfolding eqs by (rule be_word16_eq_iff)
qed

text \<open>
  A function that prints from a packet gives what it prints, or \<open>None\<close> when it reads past the
  end of the data; on the trace it is an access of the packet.
\<close>

definition reading :: "mbuf \<Rightarrow> event list option \<Rightarrow> event list" where
  "reading m r = Access m # (case r of None \<Rightarrow> [Overread m] | Some es \<Rightarrow> es)"

end
