(* ===== verification/Trace_Logic.thy ===== *)
theory Trace_Logic
  imports Dpdk_Api
begin

text \<open>
  Usage rules of an API as monitors of the trace, and a small logic for functions that keep them.
  A monitor says which events are allowed in a state and how an event changes the state.  The
  Ethernet device protocol and the ownership of packet buffers are monitors.
\<close>

section \<open>Monitors\<close>

record 's monitor =
  allows :: "'s \<Rightarrow> event \<Rightarrow> bool"
  moves :: "'s \<Rightarrow> event \<Rightarrow> 's"

fun mon_after :: "'s monitor \<Rightarrow> 's \<Rightarrow> event list \<Rightarrow> 's" where
  "mon_after M s [] = s"
| "mon_after M s (e # es) = mon_after M (moves M s e) es"

fun mon_safe :: "'s monitor \<Rightarrow> 's \<Rightarrow> event list \<Rightarrow> bool" where
  "mon_safe M s [] = True"
| "mon_safe M s (e # es) = (allows M s e \<and> mon_safe M (moves M s e) es)"

lemma mon_after_append [simp]: "mon_after M s (xs @ ys) = mon_after M (mon_after M s xs) ys"
  by (induction xs arbitrary: s) auto

lemma mon_safe_append [simp]:
  "mon_safe M s (xs @ ys) \<longleftrightarrow> mon_safe M s xs \<and> mon_safe M (mon_after M s xs) ys"
  by (induction xs arbitrary: s) auto

section \<open>Programs that follow a monitor\<close>

text \<open>
  \<open>follows M s m Q\<close>: started with the monitor in state \<open>s\<close>, \<open>m\<close> does allowed things only and ends
  with a result and a monitor state that satisfy \<open>Q\<close>.  The rules follow the structure of the
  program, so that a proof about a function is one pass over it.
\<close>

named_theorems follows_intros \<open>rules of the protocol logic\<close>

definition follows :: "'s monitor \<Rightarrow> 's \<Rightarrow> 'a io \<Rightarrow> ('a \<Rightarrow> 's \<Rightarrow> bool) \<Rightarrow> bool" where
  "follows M s m Q \<longleftrightarrow> (\<forall>h. mon_safe M s (emitted m h) \<and> Q (result m h) (mon_after M s (emitted m h)))
     \<and> appends m"

lemma follows_safe: "follows M s m Q \<Longrightarrow> mon_safe M s (emitted m h)"
  by (simp add: follows_def)

lemma follows_post: "follows M s m Q \<Longrightarrow> Q (result m h) (mon_after M s (emitted m h))"
  by (simp add: follows_def)

lemma follows_appends: "follows M s m Q \<Longrightarrow> appends m"
  by (simp add: follows_def)

lemma follows_weaken: "follows M s m P \<Longrightarrow> (\<And>r s'. P r s' \<Longrightarrow> Q r s') \<Longrightarrow> follows M s m Q"
  by (auto simp: follows_def)

lemma follows_bind_rule:
  assumes "follows M s m P" and "\<And>r s'. P r s' \<Longrightarrow> follows M s' (f r) Q" and "\<And>r. appends (f r)"
  shows "follows M s (m \<bind> f) Q"
proof -
  have m: "appends m" using assms(1) by (rule follows_appends)
  have "mon_safe M s (emitted (m \<bind> f) h) \<and> Q (result (m \<bind> f) h) (mon_after M s (emitted (m \<bind> f) h))"
    for h
  proof -
    let ?s = "mon_after M s (emitted m h)"
    let ?h = "h @ emitted m h"
    have "follows M ?s (f (result m h)) Q"
      using assms(2) follows_post [OF assms(1)] by blast
    then have "mon_safe M ?s (emitted (f (result m h)) ?h)"
      and "Q (result (f (result m h)) ?h) (mon_after M ?s (emitted (f (result m h)) ?h))"
      by (simp_all add: follows_def)
    then show ?thesis
      using follows_safe [OF assms(1)] by (simp add: emitted_bind [OF m assms(3)] final_emitted [OF m])
  qed
  then show ?thesis
    using m assms(3) by (simp add: follows_def appends_bind)
qed

lemma follows_ret [follows_intros]: "Q x s \<Longrightarrow> follows M s (ret x) Q"
  by (simp add: follows_def emitted_def)

lemma follows_if [follows_intros]:
  "(b \<Longrightarrow> follows M s m Q) \<Longrightarrow> (\<not> b \<Longrightarrow> follows M s m' Q) \<Longrightarrow> follows M s (if b then m else m') Q"
  by simp

lemma follows_case_option [follows_intros]:
  "(r = None \<Longrightarrow> follows M s m Q) \<Longrightarrow> (\<And>x. r = Some x \<Longrightarrow> follows M s (f x) Q)
   \<Longrightarrow> follows M s (case r of None \<Rightarrow> m | Some x \<Rightarrow> f x) Q"
  by (cases r) auto

text \<open>One call, then the rest of the function.\<close>

lemma follows_status [follows_intros]:
  assumes "\<And>r. allows M s (Status c r)"
    and "\<And>r. follows M (moves M s (Status c r)) (f r) Q" and "\<And>r. appends (f r)"
  shows "follows M s (ask_status E c \<bind> f) Q"
  by (rule follows_bind_rule [where P = "\<lambda>r s'. s' = moves M s (Status c r)"])
    (use assms in \<open>auto simp: follows_def emitted_def\<close>)

lemma follows_pointer [follows_intros]:
  assumes "\<And>r. allows M s (Pointer c r)"
    and "\<And>r. follows M (moves M s (Pointer c r)) (f r) Q" and "\<And>r. appends (f r)"
  shows "follows M s (ask_pointer E c \<bind> f) Q"
  by (rule follows_bind_rule [where P = "\<lambda>r s'. s' = moves M s (Pointer c r)"])
    (use assms in \<open>auto simp: follows_def emitted_def\<close>)

lemma follows_count [follows_intros]:
  assumes "\<And>t. allows M s (Count c (counted E t c))"
    and "\<And>t. follows M (moves M s (Count c (counted E t c))) (f (counted E t c)) Q"
    and "\<And>r. appends (f r)"
  shows "follows M s (ask_count E c \<bind> f) Q"
  by (rule follows_bind_rule
      [where P = "\<lambda>r s'. \<exists>t. r = counted E t c \<and> s' = moves M s (Count c (counted E t c))"])
    (use assms in \<open>auto simp: follows_def emitted_def\<close>)

lemma follows_burst [follows_intros]:
  assumes "\<And>t. allows M s (Burst c (burst E t c))"
    and "\<And>t. follows M (moves M s (Burst c (burst E t c))) (f (burst E t c)) Q"
    and "\<And>r. appends (f r)"
  shows "follows M s (ask_burst E c \<bind> f) Q"
  by (rule follows_bind_rule
      [where P = "\<lambda>r s'. \<exists>t. r = burst E t c \<and> s' = moves M s (Burst c (burst E t c))"])
    (use assms in \<open>auto simp: follows_def emitted_def\<close>)

lemma follows_output [follows_intros]:
  assumes "\<And>r. follows M s (f r) Q" and "\<And>r. appends (f r)"
  shows "follows M s (output_of E c \<bind> f) Q"
  by (rule follows_bind_rule [where P = "\<lambda>r s'. s' = s"])
    (use assms in \<open>auto simp: follows_def emitted_def\<close>)

lemma follows_say [follows_intros]:
  assumes "allows M s (Printf msg as)"
    and "follows M (moves M s (Printf msg as)) (f ()) Q" and "appends (f ())"
  shows "follows M s (say msg as \<bind> f) Q"
  by (rule follows_bind_rule [where P = "\<lambda>r s'. s' = moves M s (Printf msg as)"])
    (use assms in \<open>auto simp: follows_def emitted_def\<close>)

lemma follows_act [follows_intros]:
  assumes "allows M s (Did c)" and "follows M (moves M s (Did c)) (f ()) Q" and "appends (f ())"
  shows "follows M s (act c \<bind> f) Q"
  by (rule follows_bind_rule [where P = "\<lambda>r s'. s' = moves M s (Did c)"])
    (use assms in \<open>auto simp: follows_def emitted_def\<close>)

lemma follows_emit [follows_intros]:
  assumes "mon_safe M s es" and "follows M (mon_after M s es) (f ()) Q" and "appends (f ())"
  shows "follows M s (emit es \<bind> f) Q"
  by (rule follows_bind_rule [where P = "\<lambda>r s'. s' = mon_after M s es"])
    (use assms in \<open>auto simp: follows_def emitted_def\<close>)

text \<open>The same at the end of a function.\<close>

lemma follows_last [follows_intros]:
  "allows M s (Printf msg as) \<Longrightarrow> Q () (moves M s (Printf msg as)) \<Longrightarrow> follows M s (say msg as) Q"
  "allows M s (Did c) \<Longrightarrow> Q () (moves M s (Did c)) \<Longrightarrow> follows M s (act c) Q"
  "mon_safe M s es \<Longrightarrow> Q () (mon_after M s es) \<Longrightarrow> follows M s (emit es) Q"
  by (simp_all add: follows_def emitted_def)

lemma follows_rte_exit [follows_intros]:
  assumes "mon_safe M s [Printf msg as, Did (Eal (Exit 1))]"
    and "Q 1 (mon_after M s [Printf msg as, Did (Eal (Exit 1))])"
  shows "follows M s (rte_exit msg as) Q"
  using assms by (simp add: follows_def emitted_def)

lemma follows_rte_exit_bind [follows_intros]:
  assumes "mon_safe M s [Printf msg as, Did (Eal (Exit 1))]"
    and "follows M (mon_after M s [Printf msg as, Did (Eal (Exit 1))]) (f 1) Q" and "\<And>r. appends (f r)"
  shows "follows M s (rte_exit msg as \<bind> f) Q"
  by (rule follows_bind_rule
      [where P = "\<lambda>r s'. r = 1 \<and> s' = mon_after M s [Printf msg as, Did (Eal (Exit 1))]"])
    (use assms in \<open>auto simp: follows_def emitted_def\<close>)

text \<open>The service loop, with an invariant between the loop variables and the monitor.\<close>

lemma follows_rounds:
  assumes "\<And>v s. I v s \<Longrightarrow> follows M s (body v) (\<lambda>r s'. case r of Inl x \<Rightarrow> P x s' | Inr v' \<Rightarrow> I v' s')"
    and "\<And>v. appends (body v)" and "I v s"
  shows "follows M s (rounds n body v) (\<lambda>r s'. case r of Inl x \<Rightarrow> P x s' | Inr v' \<Rightarrow> I v' s')"
  using assms(3)
proof (induction n arbitrary: v s)
  case 0
  then show ?case by (simp add: follows_ret)
next
  case (Suc n)
  let ?Q = "\<lambda>r s'. case r of Inl x \<Rightarrow> P x s' | Inr v' \<Rightarrow> I v' s'"
  have "follows M s (body v \<bind> (\<lambda>r. case r of Inl x \<Rightarrow> ret (Inl x) | Inr v' \<Rightarrow> rounds n body v')) ?Q"
  proof (rule follows_bind_rule [OF assms(1) [OF Suc.prems]])
    show "follows M s' (case r of Inl x \<Rightarrow> ret (Inl x) | Inr v' \<Rightarrow> rounds n body v') ?Q"
      if "?Q r s'" for r s'
      using that Suc.IH by (cases r) (simp_all add: follows_ret)
  qed (intro appends_intros assms(2))
  then show ?case by simp
qed

text \<open>A loop over an array, with an invariant on the elements still to come.\<close>

lemma follows_for_each:
  assumes "\<And>x xs s. I (x # xs) s \<Longrightarrow> follows M s (f x) (\<lambda>_ s'. I xs s')" and "\<And>x. appends (f x)"
    and "I xs s"
  shows "follows M s (for_each f xs) (\<lambda>_ s'. I [] s')"
  using assms(3)
proof (induction xs arbitrary: s)
  case Nil
  then show ?case by (simp add: follows_ret)
next
  case (Cons x xs)
  have "follows M s (f x \<bind> (\<lambda>_. for_each f xs)) (\<lambda>_ s'. I [] s')"
    by (rule follows_bind_rule [OF assms(1) [OF Cons.prems]]) (auto intro: Cons.IH appends_intros assms(2))
  then show ?case by simp
qed

lemma follows_for_each_bind:
  assumes "\<And>x xs s. I (x # xs) s \<Longrightarrow> follows M s (f x) (\<lambda>_ s'. I xs s')" and "\<And>x. appends (f x)"
    and "I xs s" and "\<And>s'. I [] s' \<Longrightarrow> follows M s' (k ()) Q" and "\<And>r. appends (k r)"
  shows "follows M s (for_each f xs \<bind> k) Q"
  by (rule follows_bind_rule [OF follows_for_each [where I = I, OF assms(1-3)]]) (simp_all add: assms(4,5))

end
