(* ===== verification/Mbuf_Ownership.thy ===== *)
theory Mbuf_Ownership
  imports Trace_Logic Packet_Data
begin

text \<open>
  The ownership discipline of packet buffers.  A process owns the mbufs it received, dequeued or
  allocated until it hands them on (to a port, a ring, the next graph node, the event device) or
  frees them.  Using a buffer it does not own is a use after free or a double free; a buffer still
  owned when the code forgets it is a leak.

  The locale \<open>burst_stage\<close> is the contract of one iteration of a packet loop: it starts and ends
  with no buffer owned and never touches a buffer it does not own.
\<close>

section \<open>The monitor\<close>

definition own_allowed :: "mbuf set \<Rightarrow> event \<Rightarrow> bool" where
  "own_allowed S e = (case e of
     Did (Mem c) \<Rightarrow> (case c of
         Mbuf_free m \<Rightarrow> m = NULL \<or> m \<in> S
       | Prefetch m \<Rightarrow> m \<in> S
       | Store m i bs \<Rightarrow> m \<in> S
       | _ \<Rightarrow> True)
   | Did (Graph c) \<Rightarrow> (case c of
         Node_enqueue edge ms \<Rightarrow> set ms \<subseteq> S \<and> distinct ms
       | Node_enqueue_x1 edge m \<Rightarrow> m \<in> S
       | _ \<Rightarrow> True)
   | Count (Eth c) n \<Rightarrow> (case c of Tx_burst p q ms \<Rightarrow> set ms \<subseteq> S \<and> distinct ms | _ \<Rightarrow> True)
   | Count (Ring c) n \<Rightarrow>
       (case c of Ring_enqueue_burst r ms \<Rightarrow> set ms \<subseteq> S \<and> distinct ms | _ \<Rightarrow> True)
   | Status (Evd c) r \<Rightarrow> (case c of
         Evd_enqueue d p q m \<Rightarrow> m \<in> S
       | Evd_release d p m \<Rightarrow> m \<in> S
       | _ \<Rightarrow> True)
   | Pointer (Mem c) r \<Rightarrow> (case c of
         Mbuf_append m n \<Rightarrow> m \<in> S
       | Mbuf_prepend m n \<Rightarrow> m \<in> S
       | Mbuf_adj m n \<Rightarrow> m \<in> S
       | _ \<Rightarrow> True)
   | Status (Mem c) r \<Rightarrow> (case c of Mbuf_trim m n \<Rightarrow> m \<in> S | _ \<Rightarrow> True)
   | Access m \<Rightarrow> m \<in> S
   | Undefined \<Rightarrow> False
   | _ \<Rightarrow> True)"

definition own_next :: "mbuf set \<Rightarrow> event \<Rightarrow> mbuf set" where
  "own_next S e = (case e of
     Burst c ms \<Rightarrow> S \<union> set ms
   | Pointer (Mem c) m \<Rightarrow>
       (case c of Mbuf_alloc mp \<Rightarrow> if m = NULL then S else insert m S | _ \<Rightarrow> S)
   | Did (Mem c) \<Rightarrow> (case c of Mbuf_free m \<Rightarrow> S - {m} | _ \<Rightarrow> S)
   | Did (Graph c) \<Rightarrow> (case c of
         Node_enqueue edge ms \<Rightarrow> S - set ms
       | Node_enqueue_x1 edge m \<Rightarrow> S - {m}
       | _ \<Rightarrow> S)
   | Count (Eth c) n \<Rightarrow> (case c of Tx_burst p q ms \<Rightarrow> S - set (take n ms) | _ \<Rightarrow> S)
   | Count (Ring c) n \<Rightarrow> (case c of Ring_enqueue_burst r ms \<Rightarrow> S - set (take n ms) | _ \<Rightarrow> S)
   | Status (Evd c) r \<Rightarrow>
       (case c of Evd_enqueue d p q m \<Rightarrow> if r = 1 then S - {m} else S | _ \<Rightarrow> S)
   | _ \<Rightarrow> S)"

lemma own_simps [simp]:
  "own_allowed S (Printf f as)" "own_next S (Printf f as) = S"
  "own_allowed S (Access m) = (m \<in> S)" "own_next S (Access m) = S"
  "\<not> own_allowed S Undefined" "own_next S Undefined = S"
  "own_allowed S (Overread m)" "own_next S (Overread m) = S"
  "own_allowed S (Pointer (Mem (Mbuf_alloc mp)) m)" "own_allowed S (Pointer (Mem (Pool_create nm n k)) m)"
  "own_allowed S (Pointer (Ring rc) m)" "own_allowed S (Pointer (Acl ac) m)"
  "own_allowed S (Pointer (Mem (Mbuf_append b n)) m) = (b \<in> S)"
  "own_next S (Pointer (Mem (Mbuf_append b n)) m) = S"
  "own_allowed S (Pointer (Mem (Mbuf_prepend b n)) m) = (b \<in> S)"
  "own_next S (Pointer (Mem (Mbuf_prepend b n)) m) = S"
  "own_allowed S (Pointer (Mem (Mbuf_adj b n)) m) = (b \<in> S)"
  "own_next S (Pointer (Mem (Mbuf_adj b n)) m) = S"
  "own_allowed S (Status (Mem (Mbuf_trim b n)) i) = (b \<in> S)"
  "own_next S (Status (Mem (Mbuf_trim b n)) i) = S"
  "own_next S (Pointer (Mem (Mbuf_alloc mp)) m) = (if m = NULL then S else insert m S)"
  "own_next S (Pointer (Mem (Pool_create nm n k)) m) = S"
  "own_next S (Pointer (Ring rc) m) = S" "own_next S (Pointer (Acl ac) m) = S"
  "own_allowed S (Burst c ms)" "own_next S (Burst c ms) = S \<union> set ms"
  "own_allowed S (Did (Mem (Mbuf_free m))) = (m = NULL \<or> m \<in> S)"
  "own_next S (Did (Mem (Mbuf_free m))) = S - {m}"
  "own_allowed S (Did (Mem (Prefetch m))) = (m \<in> S)" "own_next S (Did (Mem (Prefetch m))) = S"
  "own_allowed S (Did (Mem (Store m off bs))) = (m \<in> S)" "own_next S (Did (Mem (Store m off bs))) = S"
  "own_allowed S (Did (Graph (Node_enqueue e ms))) = (set ms \<subseteq> S \<and> distinct ms)"
  "own_next S (Did (Graph (Node_enqueue e ms))) = S - set ms"
  "own_allowed S (Did (Graph (Node_enqueue_x1 e m))) = (m \<in> S)"
  "own_next S (Did (Graph (Node_enqueue_x1 e m))) = S - {m}"
  "own_allowed S (Did (Eal ec))" "own_next S (Did (Eal ec)) = S"
  "own_allowed S (Did (Eth tc))" "own_next S (Did (Eth tc)) = S"
  "own_allowed S (Count (Eth (Tx_burst p q ms)) n) = (set ms \<subseteq> S \<and> distinct ms)"
  "own_next S (Count (Eth (Tx_burst p q ms)) n) = S - set (take n ms)"
  "own_allowed S (Count (Ring (Ring_enqueue_burst r ms)) n) = (set ms \<subseteq> S \<and> distinct ms)"
  "own_next S (Count (Ring (Ring_enqueue_burst r ms)) n) = S - set (take n ms)"
  "own_allowed S (Count (Eal ec) n)" "own_next S (Count (Eal ec) n) = S"
  "own_allowed S (Status (Evd (Evd_enqueue d pt q m)) i) = (m \<in> S)"
  "own_next S (Status (Evd (Evd_enqueue d pt q m)) i) = (if i = 1 then S - {m} else S)"
  "own_allowed S (Status (Evd (Evd_release d pt m)) i) = (m \<in> S)"
  "own_next S (Status (Evd (Evd_release d pt m)) i) = S"
  "own_allowed S (Status (Eal ec) i)" "own_next S (Status (Eal ec) i) = S"
  "own_allowed S (Status (Acl ac) i)" "own_next S (Status (Acl ac) i) = S"
  "own_allowed S (Status (Mtr mc) i)" "own_next S (Status (Mtr mc) i) = S"
  "own_allowed S (Pointer (Mtr mc) m)" "own_next S (Pointer (Mtr mc) m) = S"
  "own_allowed S (Status (Eth tc) i)" "own_next S (Status (Eth tc) i) = S"
  by (simp_all add: own_allowed_def own_next_def)

definition own_monitor :: "mbuf set monitor" where
  "own_monitor = \<lparr>allows = own_allowed, moves = own_next\<rparr>"

abbreviation own_after :: "mbuf set \<Rightarrow> event list \<Rightarrow> mbuf set" where
  "own_after \<equiv> mon_after own_monitor"

abbreviation own_safe :: "mbuf set \<Rightarrow> event list \<Rightarrow> bool" where
  "own_safe \<equiv> mon_safe own_monitor"

lemma own_monitor_simps [simp]: "allows own_monitor = own_allowed" "moves own_monitor = own_next"
  by (simp_all add: own_monitor_def)

text \<open>The packets of one burst are different buffers, as the documentation of the drivers has it.\<close>

definition bursts_distinct :: "env \<Rightarrow> bool" where
  "bursts_distinct E \<longleftrightarrow> (\<forall>t c. distinct (burst E t c))"

lemma bursts_distinctD [simp]: "bursts_distinct E \<Longrightarrow> distinct (burst E t c)"
  by (simp add: bursts_distinct_def)

lemma good_env_distinct [simp]: "bursts_distinct good_env"
  by (simp add: bursts_distinct_def good_env_def)

text \<open>A well-behaved environment with traffic, for the examples: two new packets whenever they fit.\<close>

definition busy_env :: env where
  "busy_env = good_env\<lparr>burst := \<lambda>t c. case c of
       Eth (Rx_burst p q n) \<Rightarrow> take n [2 * t + 1, 2 * t + 2]
     | Ring (Ring_dequeue_burst r n) \<Rightarrow> take n [2 * t + 1, 2 * t + 2]
     | Evd (Evd_dequeue d p n) \<Rightarrow> take n [2 * t + 1, 2 * t + 2]
     | _ \<Rightarrow> []\<rparr>"

lemma busy_env_sel [simp]:
  "burst busy_env t (Eth (Rx_burst p q n)) = take n [2 * t + 1, 2 * t + 2]"
  "burst busy_env t (Ring (Ring_dequeue_burst r n)) = take n [2 * t + 1, 2 * t + 2]"
  "burst busy_env t (Evd (Evd_dequeue d ep n)) = take n [2 * t + 1, 2 * t + 2]"
  "counted busy_env t (Eth (Tx_burst p q ms)) = length ms"
  "counted busy_env t (Ring (Ring_enqueue_burst r ms)) = length ms"
  by (simp_all add: busy_env_def good_env_def)

lemma busy_env_other [simp]:
  "status busy_env t c = status good_env t c" "pointer busy_env t c = 1"
  by (simp_all add: busy_env_def)

lemma busy_env_ok: "bursts_distinct busy_env" "bursts_bounded busy_env" "takes_bounded busy_env"
proof -
  have "distinct (take n [2 * t + 1, 2 * t + 2 :: nat])" for n t
    by (rule distinct_take) simp
  then show "bursts_distinct busy_env"
    by (simp add: bursts_distinct_def busy_env_def split: call.split eth_call.split ring_call.split evd_call.split)
  show "bursts_bounded busy_env" by (simp add: bursts_bounded_def busy_env_def)
  show "takes_bounded busy_env" by (simp add: takes_bounded_def busy_env_def good_env_def)
qed

text \<open>Printing does not touch buffers.\<close>

fun is_print :: "event \<Rightarrow> bool" where
  "is_print (Printf f as) = True"
| "is_print _ = False"

lemma is_print_iff: "is_print e \<longleftrightarrow> (\<exists>f as. e = Printf f as)"
  by (cases e) auto

lemma mon_prints:
  assumes "list_all is_print es" and "\<And>f as. allows M s (Printf f as) \<and> moves M s (Printf f as) = s"
  shows "mon_safe M s es \<and> mon_after M s es = s"
  using assms(1)
proof (induction es)
  case Nil
  show ?case by simp
next
  case (Cons e es)
  then obtain f as where "e = Printf f as" by (auto simp: is_print_iff)
  with Cons assms(2) show ?case by simp
qed

lemma own_prints_both: "list_all is_print es \<Longrightarrow> own_safe S es \<and> own_after S es = S"
  by (rule mon_prints) simp_all

lemma own_prints [simp]:
  "list_all is_print es \<Longrightarrow> own_safe S es"
  "list_all is_print es \<Longrightarrow> own_after S es = S"
  using own_prints_both by blast+

lemma own_reading:
  assumes "m \<in> S" and "\<And>es. r = Some es \<Longrightarrow> list_all is_print es"
  shows "own_safe S (reading m r)" and "own_after S (reading m r) = S"
  using assms by (cases r; simp add: reading_def)+

section \<open>The free loop\<close>

lemma own_free_loop:
  assumes "set ms \<subseteq> S" and "distinct ms"
  shows "own_safe S (map (\<lambda>m. Did (Mem (Mbuf_free m))) ms)"
    and "own_after S (map (\<lambda>m. Did (Mem (Mbuf_free m))) ms) = S - set ms"
proof -
  have "own_safe S (map (\<lambda>m. Did (Mem (Mbuf_free m))) ms) \<and>
        own_after S (map (\<lambda>m. Did (Mem (Mbuf_free m))) ms) = S - set ms"
    using assms
  proof (induction ms arbitrary: S)
    case Nil
    then show ?case by simp
  next
    case (Cons m ms)
    then have "set ms \<subseteq> S - {m}" and "distinct ms" by auto
    from Cons.IH [OF this] Cons.prems show ?case by (simp add: Diff_insert2 [symmetric])
  qed
  then show "own_safe S (map (\<lambda>m. Did (Mem (Mbuf_free m))) ms)"
    and "own_after S (map (\<lambda>m. Did (Mem (Mbuf_free m))) ms) = S - set ms" by simp_all
qed

text \<open>Freeing what a transmit or enqueue call has not taken of a burst.\<close>

lemma set_minus_take: "distinct p \<Longrightarrow> set p - set (take k p) = set (drop k p)"
  using set_take_disj_set_drop_if_distinct [of p k k]
  by (metis Diff_cancel Diff_triv Un_Diff Un_empty_left append_take_drop_id inf_commute order_refl set_append)

lemma own_free_rest [simp]:
  assumes "distinct p"
  shows "own_safe (set p - set (take k p)) (map (\<lambda>m. Did (Mem (Mbuf_free m))) (drop k p))"
    and "own_after (set p - set (take k p)) (map (\<lambda>m. Did (Mem (Mbuf_free m))) (drop k p)) = {}"
  using own_free_loop [of "drop k p" "set (drop k p)"] assms by (simp_all add: set_minus_take)

lemma follows_free_loop:
  assumes "set ms \<subseteq> S" and "distinct ms" and "\<And>r. follows own_monitor (S - set ms) (f r) Q"
    and "\<And>r. appends (f r)"
  shows "follows own_monitor S (for_each (\<lambda>m. rte_pktmbuf_free m) ms \<bind> f) Q"
proof (rule follows_bind_rule)
  show "follows own_monitor S (for_each (\<lambda>m. rte_pktmbuf_free m) ms) (\<lambda>_ S'. S' = S - set ms)"
    using own_free_loop [OF assms(1,2)]
    by (auto simp: follows_def emitted_def intro: appends_intros)
qed (use assms in auto)

lemma follows_free_loop_last:
  assumes "set ms \<subseteq> S" and "distinct ms" and "Q () (S - set ms)"
  shows "follows own_monitor S (for_each (\<lambda>m. rte_pktmbuf_free m) ms) Q"
  using assms own_free_loop [OF assms(1,2)]
  by (auto simp: follows_def emitted_def intro: appends_intros)

text \<open>A loop whose body uses its buffer and gives it up at the end.\<close>

lemma own_consume_loop:
  assumes "set ms \<subseteq> S" and "distinct ms"
    and "\<And>m S. m \<in> S \<Longrightarrow> own_safe S (g m) \<and> own_after S (g m) = S - {m}"
  shows "own_safe S (concat (map g ms)) \<and> own_after S (concat (map g ms)) = S - set ms"
  using assms(1,2)
proof (induction ms arbitrary: S)
  case Nil
  then show ?case by simp
next
  case (Cons m ms)
  then have "set ms \<subseteq> S - {m}" and "distinct ms" by auto
  from Cons.IH [OF this] Cons.prems assms(3) [of m S] show ?case
    by (simp add: Diff_insert2 [symmetric])
qed

lemma follows_consume_loop:
  assumes "set ms \<subseteq> S" and "distinct ms" and "\<And>m h. final (f m) h = h @ g m"
    and "\<And>m S. m \<in> S \<Longrightarrow> own_safe S (g m) \<and> own_after S (g m) = S - {m}"
    and "follows own_monitor (S - set ms) (k ()) Q" and "appends (k ())"
  shows "follows own_monitor S (for_each f ms \<bind> k) Q"
proof (rule follows_bind_rule [where P = "\<lambda>_ S'. S' = S - set ms"])
  have "appends (f m)" for m
    by (simp add: appends_def assms(3))
  then show "follows own_monitor S (for_each f ms) (\<lambda>_ S'. S' = S - set ms)"
    using own_consume_loop [OF assms(1,2,4)]
    by (simp add: follows_def emitted_def final_for_each_append [OF assms(3)] appends_for_each)
qed (use assms in auto)

section \<open>The contract of a packet loop\<close>

locale burst_stage =
  fixes body :: "env \<Rightarrow> 'v \<Rightarrow> ('r + 'v) io"
  assumes body_appends: "appends (body E v)"
    and body_owns: "bursts_distinct E \<Longrightarrow> bursts_bounded E \<Longrightarrow> follows own_monitor {} (body E v) (\<lambda>_ S. S = {})"
begin

text \<open>Any number of iterations is safe and ends with nothing owned.\<close>

lemma service_loop:
  assumes "bursts_distinct E" and "bursts_bounded E"
  shows "follows own_monitor {} (rounds n (body E) v) (\<lambda>_ S. S = {})"
proof -
  have "follows own_monitor {} (rounds n (body E) v)
     (\<lambda>r S. case r of Inl x \<Rightarrow> S = {} | Inr v' \<Rightarrow> S = {})"
  proof (rule follows_rounds [where I = "\<lambda>_ S. S = {}"])
    fix v :: 'v and S :: "mbuf set"
    assume "S = {}"
    with body_owns [OF assms] show "follows own_monitor S (body E v)
        (\<lambda>r S. case r of Inl x \<Rightarrow> S = {} | Inr v' \<Rightarrow> S = {})"
      by (auto intro: follows_weaken split: sum.split)
  qed (simp_all add: body_appends)
  then show ?thesis
    by (rule follows_weaken) (auto split: sum.splits)
qed

lemma service_loop_safe:
  assumes "bursts_distinct E" and "bursts_bounded E"
  shows "own_safe {} (emitted (rounds n (body E) v) h)"
    and "own_after {} (emitted (rounds n (body E) v) h) = {}"
  using service_loop [OF assms] by (simp_all add: follows_def)

end

end
