(* ===== verification/Eth_Protocol.thy ===== *)
theory Eth_Protocol
  imports Trace_Logic
begin

text \<open>
  The calling protocol of the Ethernet device API as an abstract specification: a port is
  configured, then every one of its queues is set up, then it is started, and packets are received
  and sent only on a started port.  The state of a port is computed from the trace, and a trace is
  safe when each of its calls is allowed in the state the earlier calls left.

  The locale \<open>port_initialiser\<close> is the contract between a function that brings one port up and
  the program that calls it for every port; its lemmas are about the calling loop.
\<close>

section \<open>The port state machine\<close>

record port_state =
  ps_conf :: "(nat \<times> nat) option"   \<comment> \<open>numbers of receive and transmit queues\<close>
  ps_rx :: "nat list"                \<comment> \<open>receive queues set up\<close>
  ps_tx :: "nat list"
  ps_started :: bool

type_synonym eth_state = "u16 \<Rightarrow> port_state"

definition port_down :: port_state where
  "port_down = \<lparr>ps_conf = None, ps_rx = [], ps_tx = [], ps_started = False\<rparr>"

definition eth_down :: eth_state where
  "eth_down = (\<lambda>_. port_down)"

fun eth_next :: "eth_state \<Rightarrow> event \<Rightarrow> eth_state" where
  "eth_next s (Status (Eth (Dev_configure p nrx ntx)) r) =
     (if r < 0 then s
      else s(p := \<lparr>ps_conf = Some (nrx, ntx), ps_rx = [], ps_tx = [], ps_started = False\<rparr>))"
| "eth_next s (Status (Eth (Rx_queue_setup p q n numa mp)) r) =
     (if r < 0 then s else s(p := (s p)\<lparr>ps_rx := q # ps_rx (s p)\<rparr>))"
| "eth_next s (Status (Eth (Tx_queue_setup p q n numa)) r) =
     (if r < 0 then s else s(p := (s p)\<lparr>ps_tx := q # ps_tx (s p)\<rparr>))"
| "eth_next s (Status (Eth (Dev_start p)) r) =
     (if r < 0 then s else s(p := (s p)\<lparr>ps_started := True\<rparr>))"
| "eth_next s (Did (Eth (Dev_stop p))) = s(p := (s p)\<lparr>ps_started := False\<rparr>)"
| "eth_next s (Did (Eth (Dev_close p))) = s(p := port_down)"
| "eth_next s _ = s"

definition queues_ready :: "port_state \<Rightarrow> bool" where
  "queues_ready ps = (case ps_conf ps of None \<Rightarrow> False
     | Some (nrx, ntx) \<Rightarrow> list_all (\<lambda>q. q \<in> set (ps_rx ps)) [0..<nrx]
         \<and> list_all (\<lambda>q. q \<in> set (ps_tx ps)) [0..<ntx])"

fun eth_allowed :: "eth_state \<Rightarrow> event \<Rightarrow> bool" where
  "eth_allowed s (Status (Eth (Rx_queue_setup p q n numa mp)) r) =
     (case ps_conf (s p) of None \<Rightarrow> False | Some (nrx, ntx) \<Rightarrow> q < nrx \<and> \<not> ps_started (s p))"
| "eth_allowed s (Status (Eth (Tx_queue_setup p q n numa)) r) =
     (case ps_conf (s p) of None \<Rightarrow> False | Some (nrx, ntx) \<Rightarrow> q < ntx \<and> \<not> ps_started (s p))"
| "eth_allowed s (Status (Eth (Dev_start p)) r) = queues_ready (s p)"
| "eth_allowed s (Burst (Eth (Rx_burst p q n)) ms) = ps_started (s p)"
| "eth_allowed s (Count (Eth (Tx_burst p q ms)) n) = ps_started (s p)"
| "eth_allowed s _ = True"

definition eth_monitor :: "eth_state monitor" where
  "eth_monitor = \<lparr>allows = eth_allowed, moves = eth_next\<rparr>"

abbreviation eth_after :: "eth_state \<Rightarrow> event list \<Rightarrow> eth_state" where
  "eth_after \<equiv> mon_after eth_monitor"

abbreviation eth_safe :: "eth_state \<Rightarrow> event list \<Rightarrow> bool" where
  "eth_safe \<equiv> mon_safe eth_monitor"

lemma eth_monitor_simps [simp]: "allows eth_monitor = eth_allowed" "moves eth_monitor = eth_next"
  by (simp_all add: eth_monitor_def)

text \<open>A configured port whose queues are set up stays ready until it is configured again.\<close>

lemma queues_ready_intro [simp]:
  "queues_ready \<lparr>ps_conf = Some (nrx, ntx), ps_rx = rx, ps_tx = tx, ps_started = b\<rparr> \<longleftrightarrow>
     (\<forall>q < nrx. q \<in> set rx) \<and> (\<forall>q < ntx. q \<in> set tx)"
  by (auto simp: queues_ready_def list_all_iff)

section \<open>The calling loop\<close>

text \<open>
  \<open>RTE_ETH_FOREACH_DEV(port_id) if (port_init(port_id, pool) != 0) \<dots>\<close>: the ports, in the order the
  library enumerates them, are an argument.  \<open>fail\<close> is what the program does with a port that does
  not come up; its result is the program's exit status.
\<close>

definition foreach_port ::
    "(env \<Rightarrow> u16 \<Rightarrow> ptr \<Rightarrow> int io) \<Rightarrow> (u16 \<Rightarrow> int io) \<Rightarrow> env \<Rightarrow> u16 list \<Rightarrow> ptr \<Rightarrow> int option io" where
  "foreach_port init fail E ports mp =
     for_return (\<lambda>p. do {
         r \<leftarrow> init E p mp;
         if r \<noteq> 0 then do { x \<leftarrow> fail p; ret (Some x) } else ret None
       }) ports"

text \<open>What a failure handler may do: nothing on the devices; its result is the exit status \<open>x\<close>.\<close>

definition quiet :: "'a \<Rightarrow> 'a io \<Rightarrow> bool" where
  "quiet x m \<longleftrightarrow> (\<forall>s. follows eth_monitor s m (\<lambda>r s'. r = x \<and> s' = s))"

lemma quiet_appends: "quiet x m \<Longrightarrow> appends m"
  by (auto simp: quiet_def dest: follows_appends)

lemma quiet_rte_exit [simp]: "quiet 1 (rte_exit msg as)"
  by (simp add: quiet_def follows_rte_exit)

lemma quiet_say_ret [simp]: "quiet x (say msg as \<bind> (\<lambda>_. ret x))"
  by (simp add: quiet_def follows_say follows_ret)

text \<open>What an initialiser of one port achieves, whatever state the ports are in.\<close>

definition brings_up :: "u16 \<Rightarrow> eth_state \<Rightarrow> int \<Rightarrow> eth_state \<Rightarrow> bool" where
  "brings_up p s r s' \<longleftrightarrow> (r = 0 \<longrightarrow> ps_started (s' p)) \<and> (\<forall>q. q \<noteq> p \<longrightarrow> s' q = s q)"

locale port_initialiser =
  fixes init :: "env \<Rightarrow> u16 \<Rightarrow> ptr \<Rightarrow> int io"
  assumes init_follows: "follows eth_monitor s (init E p mp) (brings_up p s)"
begin

lemma init_appends: "appends (init E p mp)"
  using init_follows by (rule follows_appends)

text \<open>
  Over the whole loop: if no port failed, all of its ports are started, and so is every port that
  was started before; otherwise the result is the exit status of the failure handler.
\<close>

lemma foreach_follows:
  assumes fail: "\<And>p. quiet x (fail p)"
  shows "follows eth_monitor s (foreach_port init fail E ports mp)
           (\<lambda>r s'. (r = None \<or> r = Some x) \<and>
              (r = None \<longrightarrow> (\<forall>q. q \<in> set ports \<or> ps_started (s q) \<longrightarrow> ps_started (s' q))))"
proof (induction ports arbitrary: s)
  case Nil
  show ?case by (simp add: foreach_port_def follows_ret)
next
  case (Cons p ps)
  let ?body = "\<lambda>p. init E p mp \<bind> (\<lambda>r. if r \<noteq> 0 then fail p \<bind> (\<lambda>x. ret (Some x)) else ret None)"
  let ?P = "\<lambda>r s'. (r = None \<or> r = Some x) \<and>
     (r = None \<longrightarrow> ps_started (s' p) \<and> (\<forall>q. ps_started (s q) \<longrightarrow> ps_started (s' q)))"
  let ?Q = "\<lambda>r s'. (r = None \<or> r = Some x) \<and>
     (r = None \<longrightarrow> (\<forall>q. q \<in> set (p # ps) \<or> ps_started (s q) \<longrightarrow> ps_started (s' q)))"
  have ap: "appends (fail p)" for p
    using fail by (rule quiet_appends)
  have body: "follows eth_monitor s (?body p) ?P"
  proof (rule follows_bind_rule [OF init_follows])
    fix r and s' :: eth_state
    assume up: "brings_up p s r s'"
    have "follows eth_monitor s' (fail p) (\<lambda>r s''. r = x \<and> s'' = s')"
      using fail by (simp add: quiet_def)
    then have "follows eth_monitor s' (fail p \<bind> (\<lambda>x. ret (Some x))) ?P"
      by (rule follows_bind_rule) (auto intro: follows_ret)
    moreover have "follows eth_monitor s' (ret None) ?P" if "\<not> r \<noteq> 0"
      using up that by (intro follows_ret) (metis brings_up_def)
    ultimately show "follows eth_monitor s' (if r \<noteq> 0 then fail p \<bind> (\<lambda>x. ret (Some x)) else ret None) ?P"
      by (intro follows_if) auto
  qed (intro appends_intros ap)
  have "follows eth_monitor s (?body p \<bind> (\<lambda>r. case r of None \<Rightarrow> for_return ?body ps | Some v \<Rightarrow> ret (Some v))) ?Q"
  proof (rule follows_bind_rule [OF body])
    fix r :: "int option" and s' :: eth_state
    assume r: "?P r s'"
    show "follows eth_monitor s' (case r of None \<Rightarrow> for_return ?body ps | Some v \<Rightarrow> ret (Some v)) ?Q"
    proof (rule follows_case_option)
      assume "r = None"
      with r have started: "ps_started (s' p)" "\<And>q. ps_started (s q) \<Longrightarrow> ps_started (s' q)" by auto
      show "follows eth_monitor s' (for_return ?body ps) ?Q"
        by (rule follows_weaken [OF Cons.IH [unfolded foreach_port_def]]) (use started in auto)
    qed (use r in \<open>simp add: follows_ret\<close>)
  qed (intro appends_intros init_appends ap)
  then show ?case by (simp add: foreach_port_def)
qed

lemma foreach_bind:
  assumes "\<And>p. quiet x (fail p)"
    and "\<And>r s'. r = None \<or> r = Some x \<Longrightarrow>
          r = None \<longrightarrow> (\<forall>q. q \<in> set ports \<longrightarrow> ps_started (s' q)) \<Longrightarrow> follows eth_monitor s' (f r) Q"
    and "\<And>r. appends (f r)"
  shows "follows eth_monitor s (foreach_port init fail E ports mp \<bind> f) Q"
  by (rule follows_bind_rule [OF foreach_follows [OF assms(1)]]) (use assms(2,3) in auto)

lemma foreach_appends: "(\<And>p. quiet x (fail p)) \<Longrightarrow> appends (foreach_port init fail E ports mp)"
  by (rule follows_appends [OF foreach_follows])

end

end
