(* ===== verification/Port_Setup.thy ===== *)
theory Port_Setup
  imports Eth_Protocol
begin

text \<open>
  Bringing an Ethernet port up.  Seven programs of the repository contain a function of this
  kind; each is translated on its own, with the order of its calls, its error tests and its
  progress messages (a trailing newline of a message is left out).

  Each that takes the port as an argument is an instance of \<open>port_initialiser\<close>, so that the loop over
  all ports follows the device protocol.
\<close>

section \<open>Queue loops\<close>

definition setup_rx_queues :: "env \<Rightarrow> u16 \<Rightarrow> nat \<Rightarrow> nat \<Rightarrow> numa \<Rightarrow> ptr \<Rightarrow> int option io" where
  "setup_rx_queues E p n desc numa mp =
     for_return (\<lambda>q. do {
         retval \<leftarrow> rte_eth_rx_queue_setup E p q desc numa mp;
         if retval < 0 then ret (Some retval) else ret None
       }) [0..<n]"

definition setup_tx_queues :: "env \<Rightarrow> u16 \<Rightarrow> nat \<Rightarrow> nat \<Rightarrow> numa \<Rightarrow> int option io" where
  "setup_tx_queues E p n desc numa =
     for_return (\<lambda>q. do {
         retval \<leftarrow> rte_eth_tx_queue_setup E p q desc numa;
         if retval < 0 then ret (Some retval) else ret None
       }) [0..<n]"

section \<open>The initialisers\<close>

text \<open>\<open>port_init/notes.c\<close>\<close>

definition notes_port_init :: "env \<Rightarrow> u16 \<Rightarrow> ptr \<Rightarrow> int io" where
  "notes_port_init E p mp = do {
     valid \<leftarrow> rte_eth_dev_is_valid_port E p;
     if valid = 0 then ret (-1) else do {
     retval \<leftarrow> rte_eth_dev_configure E p 1 1;
     if retval < 0 then ret retval else do {
     rx \<leftarrow> setup_rx_queues E p 1 1024 (Port_socket p) mp;
     case rx of Some r \<Rightarrow> ret r | None \<Rightarrow> do {
     tx \<leftarrow> setup_tx_queues E p 1 1024 (Port_socket p);
     case tx of Some r \<Rightarrow> ret r | None \<Rightarrow> do {
     retval \<leftarrow> rte_eth_dev_start E p;
     if retval < 0 then ret retval else do {
     _ \<leftarrow> rte_eth_promiscuous_enable E p;
     ret 0 }}}}}}"

text \<open>\<open>port_init/port_init.c\<close>\<close>

definition port_init :: "env \<Rightarrow> u16 \<Rightarrow> ptr \<Rightarrow> int io" where
  "port_init E p mp = do {
     valid \<leftarrow> rte_eth_dev_is_valid_port E p;
     if valid = 0 then ret (-1) else do {
     say ''Port has been validated......'' [];
     retval \<leftarrow> rte_eth_dev_configure E p 1 1;
     say ''Configured the NIC with the features......'' [];
     if retval < 0 then ret retval else do {
     rx \<leftarrow> setup_rx_queues E p 1 1024 (Port_socket p) mp;
     case rx of Some r \<Rightarrow> ret r | None \<Rightarrow> do {
     tx \<leftarrow> setup_tx_queues E p 1 1024 (Port_socket p);
     case tx of Some r \<Rightarrow> ret r | None \<Rightarrow> do {
     say ''Setup the tx and rx queue for packet processing'' [];
     retval \<leftarrow> rte_eth_dev_start E p;
     if retval \<noteq> 0 then ret retval else do {
     say ''Now the NIC has been started to receivces the packet'' [];
     retval \<leftarrow> rte_eth_macaddr_get E p;
     if retval \<noteq> 0 then ret retval else do {
     addr \<leftarrow> output_of E (Eth (Macaddr_get p));
     say ''Port %u MAC: %02x %02x %02x %02x %02x %02x'' (PU (unat p) # map PU addr);
     _ \<leftarrow> rte_eth_promiscuous_enable E p;
     ret 0 }}}}}}}"

text \<open>\<open>port_init2/port.c\<close>\<close>

definition port2_init :: "env \<Rightarrow> u16 \<Rightarrow> ptr \<Rightarrow> int io" where
  "port2_init E p mp = do {
     valid \<leftarrow> rte_eth_dev_is_valid_port E p;
     if valid = 0 then ret (-1) else do {
     r \<leftarrow> rte_eth_dev_configure E p 1 1;
     if r < 0 then ret r else do {
     r \<leftarrow> rte_eth_rx_queue_setup E p 0 1024 (Port_socket p) mp;
     if r < 0 then ret r else do {
     r \<leftarrow> rte_eth_tx_queue_setup E p 0 1024 (Port_socket p);
     if r < 0 then ret r else do {
     r \<leftarrow> rte_eth_dev_start E p;
     if r < 0 then ret r else do {
     _ \<leftarrow> rte_eth_promiscuous_enable E p;
     _ \<leftarrow> rte_eth_macaddr_get E p;
     addr \<leftarrow> output_of E (Eth (Macaddr_get p));
     say ''Port %u MAC: %02x:%02x:%02x:%02x:%02x:%02x'' (PU (unat p) # map PU addr);
     ret 0 }}}}}}"

text \<open>\<open>prefetch/main.c\<close>\<close>

definition prefetch_port_init :: "env \<Rightarrow> u16 \<Rightarrow> ptr \<Rightarrow> int io" where
  "prefetch_port_init E p mp = do {
     valid \<leftarrow> rte_eth_dev_is_valid_port E p;
     if valid = 0 then ret (-1) else do {
     retval \<leftarrow> rte_eth_dev_configure E p 1 1;
     if retval < 0 then ret retval else do {
     retval \<leftarrow> rte_eth_rx_queue_setup E p 0 1024 (Port_socket p) mp;
     if retval < 0 then ret retval else do {
     retval \<leftarrow> rte_eth_tx_queue_setup E p 0 1024 (Port_socket p);
     if retval < 0 then ret retval else do {
     retval \<leftarrow> rte_eth_dev_start E p;
     if retval < 0 then ret retval else do {
     _ \<leftarrow> rte_eth_promiscuous_enable E p;
     ret 0 }}}}}}"

text \<open>\<open>ACL_DPDK_2/main.c\<close>: every failure is reported as -1, the port number is not validated.\<close>

definition fw_port_init :: "env \<Rightarrow> u16 \<Rightarrow> ptr \<Rightarrow> int io" where
  "fw_port_init E p mp = do {
     r \<leftarrow> rte_eth_dev_configure E p 1 1;
     if r \<noteq> 0 then ret (-1) else do {
     r \<leftarrow> rte_eth_rx_queue_setup E p 0 1024 (Port_socket p) mp;
     if r < 0 then ret (-1) else do {
     r \<leftarrow> rte_eth_tx_queue_setup E p 0 1024 (Port_socket p);
     if r < 0 then ret (-1) else do {
     r \<leftarrow> rte_eth_dev_start E p;
     if r < 0 then ret (-1) else do {
     _ \<leftarrow> rte_eth_promiscuous_enable E p;
     ret 0 }}}}}"

text \<open>
  \<open>packet_parsing/port_init.c\<close>: the device description is read for port 0, whatever the port, and
  the result of the start is tested after the message that announces it.
\<close>

definition initialize_port :: "env \<Rightarrow> u16 \<Rightarrow> ptr \<Rightarrow> int io" where
  "initialize_port E p mp = do {
     valid \<leftarrow> rte_eth_dev_is_valid_port E p;
     if valid = 0 then ret (-1) else do {
     r \<leftarrow> rte_eth_dev_configure E p 1 1;
     if r < 0 then ret r else do {
     say ''Configuration for the port has been done...'' [];
     rx \<leftarrow> setup_rx_queues E p 1 1024 (Port_socket p) mp;
     case rx of Some r \<Rightarrow> ret r | None \<Rightarrow> do {
     tx \<leftarrow> setup_tx_queues E p 1 1024 (Port_socket p);
     case tx of Some r \<Rightarrow> ret r | None \<Rightarrow> do {
     ret_val \<leftarrow> rte_eth_dev_info_get E 0;
     if ret_val < 0 then do { say ''error fetching dev info'' []; ret 1 } else do {
     info \<leftarrow> output_of E (Eth (Dev_info_get 0));
     say ''max rx queues allowed is %d'' (map PU info);
     say ''TX and RX Queue has been set mapped to the port...'' [];
     r \<leftarrow> rte_eth_dev_start E p;
     say ''Port has been started now...'' [];
     if r < 0 then ret r else do {
     _ \<leftarrow> rte_eth_promiscuous_enable E p;
     _ \<leftarrow> rte_eth_macaddr_get E p;
     say ''Port %u has been Initialized and been Started.......'' [PU (unat p)];
     say [] []; say [] [];
     ret 0 }}}}}}}"

text \<open>\<open>eventdev_packet_parsing/port.c\<close>: port 0 with a pool of its own, queues on the caller's socket.\<close>

definition evp_port_init :: "env \<Rightarrow> int io" where
  "evp_port_init E = do {
     mem_pool \<leftarrow> rte_pktmbuf_pool_create E ''MEM_POOL'' 8192 256;
     if mem_pool = NULL then do { say ''Error in Memory Pool Creation'' []; ret 1 } else do {
     say ''Memory Pool is Created'' [];
     r \<leftarrow> rte_eth_dev_configure E 0 1 1;
     if r < 0 then do { say ''Error in Port Configure'' []; ret 1 } else do {
     r \<leftarrow> rte_eth_rx_queue_setup E 0 0 1024 Caller_socket mem_pool;
     if r < 0 then do { say ''Error in RX Queue Setup'' []; ret 1 } else do {
     r \<leftarrow> rte_eth_tx_queue_setup E 0 0 1024 Caller_socket;
     if r < 0 then do { say ''Error in TX Queue Setup'' []; ret 1 } else do {
     r \<leftarrow> rte_eth_dev_start E 0;
     if r < 0 then do { say ''Error in Port Start'' []; ret 1 } else do {
     say ''Ethernet Port has been Started'' [];
     ret 0 }}}}}}"

section \<open>The programs of \<open>port_init/\<close>\<close>

definition port_init_main :: "env \<Rightarrow> u16 list \<Rightarrow> int io" where
  "port_init_main E ports = do {
     r \<leftarrow> rte_eal_init E;
     if r < 0 then do { say ''Something Went Wrong'' []; ret 1 } else do {
     m_pool \<leftarrow> rte_pktmbuf_pool_create E ''MEM_POOL'' 8192 250;
     say ''Size of Mem_Pool:%d'' [PU (size_of E ''rte_mempool'')];
     if m_pool = NULL then do { say ''Something Went Wrong in Mem Pool'' []; ret 1 } else do {
     avail \<leftarrow> rte_mempool_avail_count E m_pool;
     say ''Total mbufs: %u'' [PU avail];
     nb_ports \<leftarrow> rte_eth_dev_count_avail E;
     say ''Number of DPDK ports: %u'' [PU (nb_ports mod 2 ^ 16)];
     say ''Memory Pool Created Successfully'' [];
     r \<leftarrow> foreach_port port_init
            (\<lambda>p. do { say ''Error in Initializing the port %d'' [PU (unat p)]; ret 1 }) E ports m_pool;
     case r of Some x \<Rightarrow> ret x | None \<Rightarrow> do {
     say ''All ports initialized successfully'' [];
     ret 0 }}}}"

definition notes_main :: "env \<Rightarrow> u16 list \<Rightarrow> int io" where
  "notes_main E ports = do {
     r \<leftarrow> rte_eal_init E;
     if r < 0 then rte_exit ''EAL init failed'' [] else do {
     mbuf_pool \<leftarrow> rte_pktmbuf_pool_create E ''MBUF_POOL'' 8192 250;
     if mbuf_pool = NULL then rte_exit ''Cannot create mbuf pool'' [] else do {
     r \<leftarrow> foreach_port notes_port_init
            (\<lambda>p. rte_exit ''Cannot init port %u'' [PU (unat p)]) E ports mbuf_pool;
     case r of Some x \<Rightarrow> ret x | None \<Rightarrow> do {
     say ''All ports initialized successfully'' [];
     ret 0 }}}}"

section \<open>Lemmas\<close>

lemma run_setup_queues [simp]:
  "result (setup_rx_queues E p (Suc 0) d s mp) h =
     (let r = status E (length h) (Eth (Rx_queue_setup p 0 d s mp)) in if r < 0 then Some r else None)"
  "final (setup_rx_queues E p (Suc 0) d s mp) h =
     h @ [Status (Eth (Rx_queue_setup p 0 d s mp)) (status E (length h) (Eth (Rx_queue_setup p 0 d s mp)))]"
  "result (setup_tx_queues E p (Suc 0) d s) h =
     (let r = status E (length h) (Eth (Tx_queue_setup p 0 d s)) in if r < 0 then Some r else None)"
  "final (setup_tx_queues E p (Suc 0) d s) h =
     h @ [Status (Eth (Tx_queue_setup p 0 d s)) (status E (length h) (Eth (Tx_queue_setup p 0 d s)))]"
  by (simp_all add: setup_rx_queues_def setup_tx_queues_def Let_def)

lemma appends_setup_queues [simp, appends_intros]:
  "appends (setup_rx_queues E p n d s mp)" "appends (setup_tx_queues E p n d s)"
  unfolding setup_rx_queues_def setup_tx_queues_def by (intro appends_intros)+

lemmas initialiser_defs =
  notes_port_init_def port_init_def port2_init_def prefetch_port_init_def fw_port_init_def
  initialize_port_def

lemma appends_initialisers [simp, appends_intros]:
  "appends (notes_port_init E p mp)" "appends (port_init E p mp)" "appends (port2_init E p mp)"
  "appends (prefetch_port_init E p mp)" "appends (fw_port_init E p mp)"
  "appends (initialize_port E p mp)"
  unfolding initialiser_defs by (intro appends_intros)+

text \<open>The queue loops in the protocol logic, for the one queue of each kind the programs use.\<close>

lemma follows_rx_queue [follows_intros]:
  assumes "\<And>r. eth_allowed s (Status (Eth (Rx_queue_setup p 0 d numa mp)) r)"
    and "\<And>r. follows eth_monitor (eth_next s (Status (Eth (Rx_queue_setup p 0 d numa mp)) r))
           (f (if r < 0 then Some r else None)) Q"
    and "\<And>r. appends (f r)"
  shows "follows eth_monitor s (setup_rx_queues E p 1 d numa mp \<bind> f) Q"
  by (rule follows_bind_rule [where P = "\<lambda>r s'. \<exists>x. r = (if x < 0 then Some x else None) \<and>
        s' = eth_next s (Status (Eth (Rx_queue_setup p 0 d numa mp)) x)"])
    (use assms in \<open>auto simp: follows_def emitted_def Let_def\<close>)

lemma follows_tx_queue [follows_intros]:
  assumes "\<And>r. eth_allowed s (Status (Eth (Tx_queue_setup p 0 d numa)) r)"
    and "\<And>r. follows eth_monitor (eth_next s (Status (Eth (Tx_queue_setup p 0 d numa)) r))
           (f (if r < 0 then Some r else None)) Q"
    and "\<And>r. appends (f r)"
  shows "follows eth_monitor s (setup_tx_queues E p 1 d numa \<bind> f) Q"
  by (rule follows_bind_rule [where P = "\<lambda>r s'. \<exists>x. r = (if x < 0 then Some x else None) \<and>
        s' = eth_next s (Status (Eth (Tx_queue_setup p 0 d numa)) x)"])
    (use assms in \<open>auto simp: follows_def emitted_def Let_def\<close>)

interpretation portn: port_initialiser notes_port_init
  by (unfold_locales, unfold notes_port_init_def, intro follows_intros appends_intros)
    (simp_all add: brings_up_def split: if_splits)

interpretation port1: port_initialiser port_init
  by (unfold_locales, unfold port_init_def, intro follows_intros appends_intros)
    (simp_all add: brings_up_def split: if_splits)

interpretation port2: port_initialiser port2_init
  by (unfold_locales, unfold port2_init_def, intro follows_intros appends_intros)
    (simp_all add: brings_up_def split: if_splits)

interpretation prefetch: port_initialiser prefetch_port_init
  by (unfold_locales, unfold prefetch_port_init_def, intro follows_intros appends_intros)
    (simp_all add: brings_up_def split: if_splits)

interpretation fw: port_initialiser fw_port_init
  by (unfold_locales, unfold fw_port_init_def, intro follows_intros appends_intros)
    (simp_all add: brings_up_def split: if_splits)

interpretation parsing: port_initialiser initialize_port
  by (unfold_locales, unfold initialize_port_def, intro follows_intros appends_intros)
    (simp_all add: brings_up_def split: if_splits)

lemma evp_port_init_follows:
  "follows eth_monitor s (evp_port_init E) (\<lambda>r s'. (r = 0 \<or> r = 1) \<and> (r = 0 \<longrightarrow> ps_started (s' 0)))"
  by (unfold evp_port_init_def, intro follows_intros appends_intros)
    (simp_all split: if_splits)

text \<open>The whole of \<open>main\<close> around the loop over the ports.\<close>

lemma port_init_main_follows:
  "follows eth_monitor s (port_init_main E ports)
     (\<lambda>r s'. (r = 0 \<or> r = 1) \<and> (r = 0 \<longrightarrow> (\<forall>p. p \<in> set ports \<longrightarrow> ps_started (s' p))))"
  unfolding port_init_main_def
  by (intro follows_intros appends_intros port1.foreach_bind [where x = 1] port1.foreach_appends [where x = 1] quiet_say_ret)
    (auto split: option.splits)

lemma notes_main_follows:
  "follows eth_monitor s (notes_main E ports)
     (\<lambda>r s'. (r = 0 \<or> r = 1) \<and> (r = 0 \<longrightarrow> (\<forall>p. p \<in> set ports \<longrightarrow> ps_started (s' p))))"
  unfolding notes_main_def
  by (intro follows_intros appends_intros portn.foreach_bind [where x = 1] portn.foreach_appends [where x = 1] quiet_rte_exit)
    (auto split: option.splits)

section \<open>Properties\<close>

text \<open>
  C2. Whatever the devices answer, \<open>port_init/port_init.c\<close> makes only calls that the device protocol
  allows (no queue before the configuration, no start before the queues), exits with 0 or 1, and
  exits with 0 only when every port the library enumerated is started.
\<close>

theorem port_init_main_starts_every_port:
  "eth_safe eth_down (emitted (port_init_main E ports) []) \<and>
   result (port_init_main E ports) [] \<in> {0, 1} \<and>
   (result (port_init_main E ports) [] = 0 \<longrightarrow>
      list_all (\<lambda>p. ps_started (eth_after eth_down (emitted (port_init_main E ports) []) p)) ports)"
  using port_init_main_follows [of eth_down E ports]
  by (auto simp: follows_def list_all_iff)

theorem port_init_main_starts_every_port_witness:
  "result (port_init_main good_env [0, 1]) [] = 0 \<and>
   ps_started (eth_after eth_down (emitted (port_init_main good_env [0, 1]) []) 1)"
proof -
  have "result (port_init_main good_env [0, 1]) [] = 0"
    by (simp add: port_init_main_def good_env_def NULL_def foreach_port_def port_init_def Let_def)
  then show ?thesis
    using port_init_main_starts_every_port [of good_env "[0, 1]"] by simp
qed

text \<open>
  C31. Three of the initialisers are one function: that of \<open>prefetch/main.c\<close> equals that of
  \<open>port_init/notes.c\<close>, and that of \<open>port_init2/port.c\<close> has the same result and makes the same calls,
  followed, on success only, by the report of the MAC address.
\<close>

theorem initialisers_agree:
  "prefetch_port_init E p mp = notes_port_init E p mp \<and>
   result (port2_init E p mp) h = result (notes_port_init E p mp) h \<and>
   final (port2_init E p mp) h =
     (let g = final (notes_port_init E p mp) h; c = Eth (Macaddr_get p) in
      if result (notes_port_init E p mp) h = 0
      then g @ [Status c (status E (length g) c),
                Printf ''Port %u MAC: %02x:%02x:%02x:%02x:%02x:%02x''
                  (PU (unat p) # map PU (filled E (length g) c))]
      else g)"
proof (intro conjI)
  show "prefetch_port_init E p mp = notes_port_init E p mp"
    by (rule io_eqI) (simp_all add: prefetch_port_init_def notes_port_init_def Let_def)
qed (simp_all add: port2_init_def notes_port_init_def Let_def)

end
