(* ===== verification/Packet_Parsing.thy ===== *)
theory Packet_Parsing
  imports Packet_Data Mbuf_Ownership Port_Setup
begin

text \<open>
  The program \<open>packet_parsing/\<close>: it receives bursts on port 0, prints the headers of every packet
  (\<open>packet_process.c\<close>, \<open>mbuf_info.c\<close>), and sends the packets back.

  The two printing functions read the packet through casted header pointers.  They are functions
  from the packet to what they print, \<open>None\<close> when a read goes past the \<open>data_len\<close> bytes of the
  packet.
\<close>

section \<open>\<open>mbuf_info.c\<close>\<close>

definition l2_to_str :: "u16 \<Rightarrow> string" where
  "l2_to_str ether_type =
     (if ether_type = 1 then ''Ethernet''
      else if ether_type = 2 then ''VLAN (802.1Q)''
      else if ether_type = 3 then ''QinQ (802.1ad)''
      else if ether_type = 4 then ''ARP''
      else ''Unknown'')"

definition l3_to_str :: "u8 \<Rightarrow> string" where
  "l3_to_str proto =
     (if proto = 1 then ''IPV4''
      else if proto = 2 then ''IPV4-EXTENDED''
      else if proto = 3 then ''IPV6''
      else if proto = 4 then ''IPV6-EXTENDED''
      else ''Other-L3'')"

definition l4_to_str :: "u8 \<Rightarrow> string" where
  "l4_to_str proto =
     (if proto = 1 then ''TCP''
      else if proto = 2 then ''UDP''
      else if proto = 3 then ''SCTP''
      else if proto = 4 then ''ICMP''
      else ''L4/Unknown'')"

text \<open>
  \<open>print_mbuff_info\<close>.  \<open>socket\<close> is \<open>rte_socket_id()\<close>.  The addresses are printed from the fields as
  they are in memory, without conversion.
\<close>

definition print_mbuff_info :: "endian \<Rightarrow> byteorder \<Rightarrow> nat \<Rightarrow> packet \<Rightarrow> event list option" where
  "print_mbuff_info e B socket m =
     (let d = data m in
      if length d < ETHER_HDR_LEN then Some [] else do {
        w \<leftarrow> get16 e d 12;
        let l2_type = be_to_cpu_16 B w;
        let meta = [Printf ''*****MBUF METADATA INFO*****'' [],
                    Printf ''Ports :%u'' [PU (port m)],
                    Printf ''Socket ID :%u'' [PU socket],
                    Printf ''Packet Length :%u'' [PU (pkt_len m)],
                    Printf ''Data Length :%u'' [PU (length d)],
                    Printf ''Data Offset:%u'' [PU (data_off m)],
                    Printf ''L2 type: %s %d'' [PS (l2_to_str l2_type), PU (unat l2_type)]];
        let rest = [Printf ''Raw Packet Type: 0x%x'' [PU (packet_type m)],
                    Printf ''Buffer Length :%u'' [PU (buf_len m)],
                    Printf ''No of Segments :%u'' [PU (nb_segs m)],
                    Printf ''Offload flg : 0x%x'' [PU (ol_flags m)],
                    Printf ''Inner Types'' [],
                    Printf ''Inner L2:%u, Inner L3:%u, Inner L4:%u''
                      [PU (inner_l2_type m), PU (inner_l3_type m), PU (inner_l4_type m)]];
        if l2_type = RTE_ETHER_TYPE_IPV4 then
          (if length d < ETHER_HDR_LEN + IPV4_HDR_LEN then Some meta else do {
             src \<leftarrow> get32 e d (ETHER_HDR_LEN + 12);
             dst \<leftarrow> get32 e d (ETHER_HDR_LEN + 16);
             proto \<leftarrow> get8 d (ETHER_HDR_LEN + 9);
             Some (meta
               @ [Printf ''L3: IPV4'' [],
                  Printf ''  SRC IP: %u.%u.%u.%u'' (dotted src),
                  Printf ''  DST IP: %u.%u.%u.%u'' (dotted dst),
                  (if proto = IPPROTO_TCP then Printf ''L4: TCP'' []
                   else if proto = IPPROTO_UDP then Printf ''L4: UDP'' []
                   else Printf ''L4: Unknown'' [])]
               @ rest)
           })
        else if l2_type = RTE_ETHER_TYPE_IPV6 then Some (meta @ [Printf ''L3: IPV6'' []] @ rest)
        else if l2_type = RTE_ETHER_TYPE_ARP then Some (meta @ [Printf ''L3: ARP'' []] @ rest)
        else Some (meta @ [Printf ''L3: Unknown EtherType (0x%04x)'' [PU (unat l2_type)]] @ rest)
      })"

section \<open>\<open>packet_process.c\<close>\<close>

text \<open>The TCP and UDP parts, which the IPv4 and the IPv6 branch share word for word.\<close>

definition print_tcp :: "endian \<Rightarrow> byteorder \<Rightarrow> u8 list \<Rightarrow> nat \<Rightarrow> event list option" where
  "print_tcp e B d l4 = do {
     src \<leftarrow> get16 e d l4;
     dst \<leftarrow> get16 e d (l4 + 2);
     seq \<leftarrow> get32 e d (l4 + 4);
     Some [Printf ''L4: TCP'' [],
           Printf ''  SRC PORT: %u'' [PU (unat (be_to_cpu_16 B src))],
           Printf ''  DST PORT: %u'' [PU (unat (be_to_cpu_16 B dst))],
           Printf ''  SEQ NO  : %u'' [PU (unat (be_to_cpu_32 B seq))]]
   }"

definition print_udp :: "endian \<Rightarrow> byteorder \<Rightarrow> u8 list \<Rightarrow> nat \<Rightarrow> event list option" where
  "print_udp e B d l4 = do {
     src \<leftarrow> get16 e d l4;
     dst \<leftarrow> get16 e d (l4 + 2);
     Some [Printf ''L4: UDP'' [],
           Printf ''  SRC PORT: %u'' [PU (unat (be_to_cpu_16 B src))],
           Printf ''  DST PORT: %u'' [PU (unat (be_to_cpu_16 B dst))]]
   }"

definition ip_hdr_len :: "u8 \<Rightarrow> nat" where
  "ip_hdr_len version_ihl = unat (version_ihl AND 0x0F) * 4"

text \<open>The IPv4 branch of \<open>print_mbuf_data\<close>, from the length check on.\<close>

definition print_ipv4_data :: "endian \<Rightarrow> byteorder \<Rightarrow> u8 list \<Rightarrow> event list option" where
  "print_ipv4_data e B d =
     (if length d < ETHER_HDR_LEN + IPV4_HDR_LEN then Some [] else do {
        version_ihl \<leftarrow> get8 d ETHER_HDR_LEN;
        src \<leftarrow> get32 e d (ETHER_HDR_LEN + 12);
        dst \<leftarrow> get32 e d (ETHER_HDR_LEN + 16);
        proto \<leftarrow> get8 d (ETHER_HDR_LEN + 9);
        let hl = ip_hdr_len version_ihl;
        let l4 = ETHER_HDR_LEN + hl;
        let ip = [Printf ''L3: IPv4'' [],
                  Printf ''  SRC IP: %u.%u.%u.%u'' (dotted src),
                  Printf ''  DST IP: %u.%u.%u.%u'' (dotted dst)];
        if proto = IPPROTO_TCP then
          (if length d < ETHER_HDR_LEN + hl + TCP_HDR_LEN then Some ip
           else map_option (\<lambda>t. ip @ t) (print_tcp e B d l4))
        else if proto = IPPROTO_UDP then
          (if length d < ETHER_HDR_LEN + hl + UDP_HDR_LEN then Some ip
           else map_option (\<lambda>t. ip @ t) (print_udp e B d l4))
        else Some (ip @ [Printf ''L4: Unknown (proto=%u)'' [PU (unat proto)]])
      })"

text \<open>The IPv6 branch: the length of the layer 4 header is not checked.\<close>

definition print_ipv6_data :: "endian \<Rightarrow> byteorder \<Rightarrow> u8 list \<Rightarrow> event list option" where
  "print_ipv6_data e B d =
     (if length d < ETHER_HDR_LEN + IPV6_HDR_LEN then Some [] else do {
        proto \<leftarrow> get8 d (ETHER_HDR_LEN + 6);
        let l4 = ETHER_HDR_LEN + IPV6_HDR_LEN;
        if proto = IPPROTO_TCP then print_tcp e B d l4
        else if proto = IPPROTO_UDP then print_udp e B d l4
        else Some [Printf ''L4: Unknown (next_header=%u)'' [PU (unat proto)]]
      })"

definition print_mbuf_data :: "endian \<Rightarrow> byteorder \<Rightarrow> u8 list \<Rightarrow> event list option" where
  "print_mbuf_data e B d =
     (if length d < ETHER_HDR_LEN then Some [] else do {
        src \<leftarrow> get_bytes d 6 6;
        dst \<leftarrow> get_bytes d 0 6;
        w \<leftarrow> get16 e d 12;
        let ether_type = be_to_cpu_16 B w;
        let l2 = [Printf ''L2:'' [],
                  Printf ''  SRC MAC: %02x:%02x:%02x:%02x:%02x:%02x'' (mac_args src),
                  Printf ''  DST MAC: %02x:%02x:%02x:%02x:%02x:%02x'' (mac_args dst)];
        l3 \<leftarrow> (if ether_type = RTE_ETHER_TYPE_IPV4 then print_ipv4_data e B d
                else if ether_type = RTE_ETHER_TYPE_IPV6 then print_ipv6_data e B d
                else Some [Printf ''L3: Unknown EtherType (0x%04x)'' [PU (unat ether_type)]]);
        Some (l2 @ l3 @ (if ether_type = RTE_ETHER_TYPE_ARP then [Printf ''L3: ARP'' []] else []))
      })"

text \<open>
  \<open>process_packet\<close>.  \<open>M\<close> gives the contents of the buffers.  The packets are freed after printing,
  then the same array is handed to the transmit call and what the port did not take is freed.
\<close>

definition process_packet ::
    "env \<Rightarrow> endian \<Rightarrow> byteorder \<Rightarrow> nat \<Rightarrow> (mbuf \<Rightarrow> packet) \<Rightarrow> u16 \<Rightarrow> unit io" where
  "process_packet E e B socket M port_id = do {
     rx_pkts \<leftarrow> rte_eth_rx_burst E port_id 0 32;
     let nb_rx = length rx_pkts;
     if nb_rx = 0 then ret () else do {
     say ''Received %u packets'' [PU nb_rx];
     for_each (\<lambda>m. do {
         emit (reading m (print_mbuff_info e B socket (M m)));
         emit (reading m (print_mbuf_data e B (data (M m))));
         rte_pktmbuf_free m
       }) rx_pkts;
     nb_tx \<leftarrow> rte_eth_tx_burst E port_id 0 rx_pkts;
     if nb_tx < nb_rx then do {
       say ''Dropped packet : %u'' [PU (nb_rx - nb_tx)];
       for_each (\<lambda>m. rte_pktmbuf_free m) (drop nb_tx rx_pkts)
     } else ret ()
   }}"

section \<open>\<open>mem_pool.c\<close> and \<open>main.c\<close>\<close>

text \<open>\<open>create_pool\<close>: \<open>Inl\<close> the exit status when the process ends.\<close>

definition create_pool :: "env \<Rightarrow> (int + ptr) io" where
  "create_pool E = do {
     mem_pool \<leftarrow> rte_pktmbuf_pool_create E ''MEM_POOL'' 8192 250;
     if mem_pool = NULL then do { x \<leftarrow> rte_exit ''Memory Pool creation Failed.....'' []; ret (Inl x) }
     else do { say ''Memory Pool Creation is Successfull......'' []; ret (Inr mem_pool) }
   }"

text \<open>
  \<open>main\<close>: the result of \<open>initialize_port\<close> is not used.  \<open>n\<close> iterations of the service loop; the
  result is \<open>None\<close> while the loop runs.
\<close>

definition packet_parsing_main ::
    "env \<Rightarrow> endian \<Rightarrow> byteorder \<Rightarrow> nat \<Rightarrow> (mbuf \<Rightarrow> packet) \<Rightarrow> nat \<Rightarrow> int option io" where
  "packet_parsing_main E e B socket M n = do {
     r \<leftarrow> rte_eal_init E;
     if r < 0 then do { x \<leftarrow> rte_exit ''EAL init failed'' []; ret (Some x) } else do {
     pool \<leftarrow> create_pool E;
     case pool of Inl x \<Rightarrow> ret (Some x) | Inr mbuf_pool \<Rightarrow> do {
     nb_ports \<leftarrow> rte_eth_dev_count_avail E;
     say ''Number of ports are:%d'' [PU nb_ports];
     _ \<leftarrow> initialize_port E 0 mbuf_pool;
     say ''RX-only DPDK app started'' [];
     say [] []; say [] [];
     _ \<leftarrow> rounds n (\<lambda>_. do { process_packet E e B socket M 0; ret (Inr ()) }) () ::
           (event list, unit + unit) state;
     ret None }}}"

section \<open>Lemmas: what is read and printed\<close>

lemma print_tcp_Some:
  "l4 + 8 \<le> length d \<Longrightarrow> print_tcp e B d l4 =
     Some [Printf ''L4: TCP'' [],
           Printf ''  SRC PORT: %u'' [PU (unat (be_to_cpu_16 B (ld16 e (d ! l4) (d ! (l4 + 1)))))],
           Printf ''  DST PORT: %u'' [PU (unat (be_to_cpu_16 B (ld16 e (d ! (l4 + 2)) (d ! (l4 + 3)))))],
           Printf ''  SEQ NO  : %u'' [PU (unat (be_to_cpu_32 B
              (ld32 e (d ! (l4 + 4)) (d ! (l4 + 5)) (d ! (l4 + 6)) (d ! (l4 + 7)))))]]"
  by (simp add: print_tcp_def get_defs eval_nat_numeral)

lemma print_tcp_None: "print_tcp e B d l4 = None \<longleftrightarrow> length d < l4 + 8"
  by (auto simp: print_tcp_def get_defs)

lemma print_udp_Some:
  "l4 + 4 \<le> length d \<Longrightarrow> print_udp e B d l4 =
     Some [Printf ''L4: UDP'' [],
           Printf ''  SRC PORT: %u'' [PU (unat (be_to_cpu_16 B (ld16 e (d ! l4) (d ! (l4 + 1)))))],
           Printf ''  DST PORT: %u'' [PU (unat (be_to_cpu_16 B (ld16 e (d ! (l4 + 2)) (d ! (l4 + 3)))))]]"
  by (simp add: print_udp_def get_defs eval_nat_numeral)

lemma print_udp_None: "print_udp e B d l4 = None \<longleftrightarrow> length d < l4 + 4"
  by (auto simp: print_udp_def get_defs)

lemma print_ipv4_data_total: "print_ipv4_data e B d \<noteq> None"
  by (auto simp del: not_None_eq simp: print_ipv4_data_def Let_def api_constants print_tcp_None print_udp_None get_defs)

lemma print_ipv6_data_None:
  "print_ipv6_data e B d = None \<longleftrightarrow>
     54 \<le> length d \<and> (d ! 20 = IPPROTO_TCP \<and> length d < 62 \<or> d ! 20 = IPPROTO_UDP \<and> length d < 58)"
  by (auto simp: print_ipv6_data_def Let_def api_constants print_tcp_None print_udp_None get_defs)

lemma print_mbuff_info_total: "print_mbuff_info e B socket m \<noteq> None"
  by (auto simp del: not_None_eq simp: print_mbuff_info_def Let_def api_constants get_defs)

text \<open>Everything printed is a print.\<close>

lemma prints_only:
  "print_mbuff_info e B socket m = Some es \<Longrightarrow> list_all is_print es"
  "print_mbuf_data e B d = Some es \<Longrightarrow> list_all is_print es"
proof -
  have tcp: "print_tcp e B d l = Some ts \<Longrightarrow> list_all is_print ts" for l ts
    by (auto simp: print_tcp_def split: Option.bind_splits)
  have udp: "print_udp e B d l = Some ts \<Longrightarrow> list_all is_print ts" for l ts
    by (auto simp: print_udp_def split: Option.bind_splits)
  have v4: "print_ipv4_data e B d = Some ts \<Longrightarrow> list_all is_print ts" for ts
    by (auto simp: print_ipv4_data_def Let_def dest: tcp udp split: Option.bind_splits if_splits)
  have v6: "print_ipv6_data e B d = Some ts \<Longrightarrow> list_all is_print ts" for ts
    by (auto simp: print_ipv6_data_def Let_def dest: tcp udp split: Option.bind_splits if_splits)
  show "print_mbuf_data e B d = Some es \<Longrightarrow> list_all is_print es"
    by (auto simp: print_mbuf_data_def Let_def dest: v4 v6 split: Option.bind_splits if_splits)
  show "print_mbuff_info e B socket m = Some es \<Longrightarrow> list_all is_print es"
    unfolding print_mbuff_info_def Let_def
    by (elim if_SomeE bind_SomeE) auto
qed

lemma print_ignored [simp]:
  "list_all is_print es \<Longrightarrow> freed es = []" "list_all is_print es \<Longrightarrow> transmits es = []"
  by (induction es) (auto simp: is_print_iff)

text \<open>What one packet adds to the trace.\<close>

definition packet_report :: "endian \<Rightarrow> byteorder \<Rightarrow> nat \<Rightarrow> (mbuf \<Rightarrow> packet) \<Rightarrow> mbuf \<Rightarrow> event list" where
  "packet_report e B socket M m =
     reading m (print_mbuff_info e B socket (M m)) @
     reading m (print_mbuf_data e B (data (M m))) @ [Did (Mem (Mbuf_free m))]"

lemma packet_report_ignored [simp]:
  "freed (packet_report e B socket M m) = [m]" "transmits (packet_report e B socket M m) = []"
proof -
  have "freed (reading m r) = [] \<and> transmits (reading m r) = []"
    if "\<And>es. r = Some es \<Longrightarrow> list_all is_print es" for r
    using that by (cases r) (auto simp: reading_def)
  then show "freed (packet_report e B socket M m) = [m]"
    "transmits (packet_report e B socket M m) = []"
    by (simp_all add: packet_report_def prints_only)
qed

lemma freed_reports [simp]:
  "freed (concat (map (packet_report e B socket M) ms)) = ms"
  "transmits (concat (map (packet_report e B socket M) ms)) = []"
  by (induction ms) auto

lemma own_after_report: "own_after S (packet_report e B socket M m) = S - {m}"
proof -
  have "own_after S (reading m r) = S" if "\<And>es. r = Some es \<Longrightarrow> list_all is_print es" for r
    using that by (cases r) (simp_all add: reading_def)
  then show ?thesis by (simp add: packet_report_def prints_only)
qed

lemma own_after_reports:
  "own_after S (concat (map (packet_report e B socket M) ms)) = S - set ms"
  by (induction ms arbitrary: S) (auto simp: own_after_report)

lemma final_reports:
  "final (for_each (\<lambda>m. do {
       emit (reading m (print_mbuff_info e B socket (M m)));
       emit (reading m (print_mbuf_data e B (data (M m))));
       rte_pktmbuf_free m }) ms) h = h @ concat (map (packet_report e B socket M) ms)"
  by (rule final_for_each_append) (simp add: packet_report_def)

lemma final_process_packet:
  assumes "rx = burst E (length h) (Eth (Rx_burst p 0 32))" and "rx \<noteq> []"
    and "reports = concat (map (packet_report e B socket M) rx)"
    and "n = counted E (length h + 2 + length reports) (Eth (Tx_burst p 0 rx))"
  shows "final (process_packet E e B socket M p) h =
     h @ [Burst (Eth (Rx_burst p 0 32)) rx, Printf ''Received %u packets'' [PU (length rx)]]
       @ reports @ [Count (Eth (Tx_burst p 0 rx)) n]
       @ (if n < length rx
          then Printf ''Dropped packet : %u'' [PU (length rx - n)]
            # map (\<lambda>m. Did (Mem (Mbuf_free m))) (drop n rx)
          else [])"
  using assms by (simp add: process_packet_def final_reports Let_def)

section \<open>Properties\<close>

text \<open>
  C13. \<open>print_mbuff_info\<close> never reads past the packet, and \<open>print_mbuf_data\<close> does so for exactly one
  kind of packet: an IPv6 frame whose header is complete but whose TCP (8 bytes are read) or UDP
  (4 bytes) header is not.  Every IPv4 path is in bounds, whatever header length the packet claims.
\<close>

theorem print_mbuf_data_overreads_exactly:
  assumes "byteorder_ok e B"
  shows "print_mbuff_info e B socket m \<noteq> None \<and>
    (print_mbuf_data e B d = None \<longleftrightarrow>
       54 \<le> length d \<and> d ! 12 = 0x86 \<and> d ! 13 = 0xDD \<and>
       (d ! 20 = IPPROTO_TCP \<and> length d < 62 \<or> d ! 20 = IPPROTO_UDP \<and> length d < 58))"
proof
  show "print_mbuff_info e B socket m \<noteq> None" by (rule print_mbuff_info_total)
  show "print_mbuf_data e B d = None \<longleftrightarrow>
       54 \<le> length d \<and> d ! 12 = 0x86 \<and> d ! 13 = 0xDD \<and>
       (d ! 20 = IPPROTO_TCP \<and> length d < 62 \<or> d ! 20 = IPPROTO_UDP \<and> length d < 58)"
  proof (cases "length d < 14")
    case True
    then show ?thesis by (simp add: print_mbuf_data_def ETHER_HDR_LEN_def)
  next
    case False
    then show ?thesis
      using assms print_ipv4_data_total [of e B d] print_ipv6_data_None [of e B d]
      by (auto simp: print_mbuf_data_def ETHER_HDR_LEN_def Let_def ether_type_bytes)
  qed
qed

theorem print_mbuf_data_overreads_exactly_witness:
  "print_mbuf_data Little x86_order
     (replicate 12 0 @ [0x86, 0xDD] @ replicate 6 0 @ [6] @ replicate 33 0) = None"
  using print_mbuf_data_overreads_exactly
      [OF x86_order_ok, where d = "replicate 12 0 @ [0x86, 0xDD] @ replicate 6 0 @ [6] @ replicate 33 0"]
  by (simp add: nth_append IPPROTO_TCP_def)

text \<open>
  C14. For a complete TCP segment over IPv4, with options or without, \<open>print_mbuf_data\<close> prints exactly
  the MAC addresses, the addresses, the ports and the sequence number of the packet.  The IP
  addresses are printed without conversion: on a little-endian host with their bytes reversed.
\<close>

theorem print_mbuf_data_ipv4_tcp:
  assumes "byteorder_ok e B" and "d ! 12 = 0x08" and "d ! 13 = 0x00" and "d ! 23 = IPPROTO_TCP"
    and "34 \<le> length d" and "off = 14 + ip_hdr_len (d ! 14)" and "off + 20 \<le> length d"
  shows "print_mbuf_data e B d = Some
    [Printf ''L2:'' [],
     Printf ''  SRC MAC: %02x:%02x:%02x:%02x:%02x:%02x'' (mac_args (take 6 (drop 6 d))),
     Printf ''  DST MAC: %02x:%02x:%02x:%02x:%02x:%02x'' (mac_args (take 6 d)),
     Printf ''L3: IPv4'' [],
     Printf ''  SRC IP: %u.%u.%u.%u'' (host_octets e d 26),
     Printf ''  DST IP: %u.%u.%u.%u'' (host_octets e d 30),
     Printf ''L4: TCP'' [],
     Printf ''  SRC PORT: %u'' [PU (256 * unat (d ! off) + unat (d ! (off + 1)))],
     Printf ''  DST PORT: %u'' [PU (256 * unat (d ! (off + 2)) + unat (d ! (off + 3)))],
     Printf ''  SEQ NO  : %u'' [PU (2 ^ 24 * unat (d ! (off + 4)) + 2 ^ 16 * unat (d ! (off + 5))
        + 256 * unat (d ! (off + 6)) + unat (d ! (off + 7)))]]"
proof -
  have ports: "print_tcp e B d off = Some
     [Printf ''L4: TCP'' [],
     Printf ''  SRC PORT: %u'' [PU (256 * unat (d ! off) + unat (d ! (off + 1)))],
     Printf ''  DST PORT: %u'' [PU (256 * unat (d ! (off + 2)) + unat (d ! (off + 3)))],
     Printf ''  SEQ NO  : %u'' [PU (2 ^ 24 * unat (d ! (off + 4)) + 2 ^ 16 * unat (d ! (off + 5))
        + 256 * unat (d ! (off + 6)) + unat (d ! (off + 7)))]]"
    using assms(7) by (simp add: print_tcp_Some assms(1))
  have "print_ipv4_data e B d = Some
     ([Printf ''L3: IPv4'' [], Printf ''  SRC IP: %u.%u.%u.%u'' (host_octets e d 26),
       Printf ''  DST IP: %u.%u.%u.%u'' (host_octets e d 30)] @ the (print_tcp e B d off))"
    using assms(4-7) dotted_ld32 [of e d 26] dotted_ld32 [of e d 30]
    by (simp add: print_ipv4_data_def Let_def api_constants ports [unfolded assms(6)])
  moreover have "be_word16 (d ! 12) (d ! 13) = RTE_ETHER_TYPE_IPV4"
    "RTE_ETHER_TYPE_IPV4 \<noteq> RTE_ETHER_TYPE_ARP"
    using assms(2,3) by (simp_all add: ether_type_bytes) (simp add: api_constants)
  ultimately show ?thesis
    using assms(1,5) by (simp add: print_mbuf_data_def Let_def ETHER_HDR_LEN_def ports)
qed

theorem print_mbuf_data_ipv4_tcp_witness:
  "\<exists>es. print_mbuf_data Little x86_order
      ([2, 0, 0, 0, 0, 1, 2, 0, 0, 0, 0, 2, 8, 0, 0x45, 0, 0, 40, 0, 0, 0, 0, 64, 6, 0, 0,
        192, 168, 1, 10, 10, 0, 0, 1, 0, 80, 1, 187, 0, 0, 0, 7, 0, 0, 0, 0, 0, 0, 0, 0, 0, 0, 0, 0]) = Some es \<and>
     es ! 4 = Printf ''  SRC IP: %u.%u.%u.%u'' [PU 10, PU 1, PU 168, PU 192] \<and>
     es ! 7 = Printf ''  SRC PORT: %u'' [PU 80] \<and> es ! 8 = Printf ''  DST PORT: %u'' [PU 443]"
by (rule exI, rule conjI, rule print_mbuf_data_ipv4_tcp [where off = 34, OF x86_order_ok])
      (simp_all add: ip_hdr_len_def IPPROTO_TCP_def host_octets_def)

text \<open>
  C34. \<open>process_packet\<close> frees every packet of the burst and then hands the same packets to the port,
  and frees those the port does not take a second time: whenever a packet is received, the
  ownership discipline is violated.
\<close>

theorem process_packet_transmits_freed_packets:
  assumes "rx = burst E (length h) (Eth (Rx_burst p 0 32))" and "rx \<noteq> []"
  shows "\<exists>n. transmits (emitted (process_packet E e B socket M p) h) = [(rx, n)] \<and>
     freed (emitted (process_packet E e B socket M p) h) = rx @ drop n rx \<and>
     \<not> own_safe {} (emitted (process_packet E e B socket M p) h)"
proof -
  let ?reports = "concat (map (packet_report e B socket M) rx)"
  let ?n = "counted E (length h + 2 + length ?reports) (Eth (Tx_burst p 0 rx))"
  let ?tr = "emitted (process_packet E e B socket M p) h"
  have tr: "?tr = [Burst (Eth (Rx_burst p 0 32)) rx, Printf ''Received %u packets'' [PU (length rx)]]
       @ ?reports @ [Count (Eth (Tx_burst p 0 rx)) ?n]
       @ (if ?n < length rx
          then Printf ''Dropped packet : %u'' [PU (length rx - ?n)]
            # map (\<lambda>m. Did (Mem (Mbuf_free m))) (drop ?n rx)
          else [])"
    using final_process_packet [OF assms refl refl, of e B socket M] by (simp add: emitted_def)
  have "own_after (set rx) ?reports = {}"
    using own_after_reports [of "set rx" e B socket M rx] by simp
  with assms(2) have "\<not> own_safe {} ?tr"
    unfolding tr by simp
  moreover have "transmits ?tr = [(rx, ?n)]" "freed ?tr = rx @ drop ?n rx"
    unfolding tr by simp_all
  ultimately show ?thesis by blast
qed

theorem process_packet_transmits_freed_packets_witness:
  "\<exists>n. transmits (emitted (process_packet (good_env\<lparr>burst := \<lambda>_ _. [1, 2]\<rparr>) Little x86_order 0
        (\<lambda>_. \<lparr>data = [], port = 0, pkt_len = 0, data_off = 128, packet_type = 0, buf_len = 2176,
              nb_segs = 1, ol_flags = 0, l2_type = 0, l3_type = 0, l4_type = 0, inner_l2_type = 0, inner_l3_type = 0, inner_l4_type = 0\<rparr>) 0) [])
     = [([1, 2], n)]"
  using process_packet_transmits_freed_packets
    [where h = "[]" and p = 0 and rx = "[1, 2]" and E = "good_env\<lparr>burst := \<lambda>_ _. [1, 2]\<rparr>"]
  by fastforce

end
