(* ===== verification/Rx_Loops.thy ===== *)
theory Rx_Loops
  imports Packet_Data Mbuf_Ownership Port_Setup
begin

text \<open>
  The single-threaded receive loops: the prefetching loop with its packet counter
  (\<open>prefetch/main.c\<close>), the loop of \<open>port_init2/rx_loop.c\<close> that rewrites the destination address, and
  the vhost backend and its sender (\<open>vhost/\<close>).  Their bodies are instances of \<open>burst_stage\<close>: any
  number of rounds is free of leaks and double frees.
\<close>

section \<open>Reading the trace\<close>

fun accessed :: "event list \<Rightarrow> mbuf list" where
  "accessed [] = []"
| "accessed (e # es) = (case e of Access m \<Rightarrow> m # accessed es | _ \<Rightarrow> accessed es)"

fun prefetched :: "event list \<Rightarrow> mbuf list" where
  "prefetched [] = []"
| "prefetched (e # es) = (case e of Did (Mem (Prefetch m)) \<Rightarrow> m # prefetched es | _ \<Rightarrow> prefetched es)"

lemma accessed_append [simp]: "accessed (xs @ ys) = accessed xs @ accessed ys"
  by (induction xs) (auto split: event.splits)

lemma prefetched_append [simp]: "prefetched (xs @ ys) = prefetched xs @ prefetched ys"
  by (induction xs) (auto split: event.splits call.splits mem_call.splits)

text \<open>Events that are allowed and leave the ownership as it is.\<close>

lemma own_still:
  assumes "\<forall>e\<in>set es. own_allowed S e \<and> own_next S e = S"
  shows "own_safe S es" and "own_after S es = S"
proof -
  have "own_safe S es \<and> own_after S es = S"
    using assms by (induction es) auto
  then show "own_safe S es" and "own_after S es = S" by simp_all
qed

section \<open>\<open>prefetch/main.c\<close>\<close>

text \<open>
  \<open>process_packet\<close> reads the EtherType, the bytes 12 and 13, whatever the length of the packet.
  \<open>D\<close> gives the data of the buffers.
\<close>

definition touch :: "(mbuf \<Rightarrow> u8 list) \<Rightarrow> mbuf \<Rightarrow> event list" where
  "touch D m = Access m # (if length (D m) < 14 then [Overread m] else [])"

definition prefetch_process_packet :: "(mbuf \<Rightarrow> u8 list) \<Rightarrow> mbuf \<Rightarrow> unit io" where
  "prefetch_process_packet D m = emit (touch D m)"

definition PREFETCH_OFFSET :: nat where "PREFETCH_OFFSET = 4"

text \<open>The processing of one burst: the four loops over \<open>bufs\<close>.\<close>

definition prefetch_burst :: "(mbuf \<Rightarrow> u8 list) \<Rightarrow> mbuf list \<Rightarrow> unit io" where
  "prefetch_burst D bufs = do {
     for_each (\<lambda>m. rte_prefetch0 m) (take PREFETCH_OFFSET bufs);
     for_each (\<lambda>i. do {
         rte_prefetch0 (bufs ! (i + PREFETCH_OFFSET));
         prefetch_process_packet D (bufs ! i)
       }) [0..<length bufs - PREFETCH_OFFSET];
     for_each (\<lambda>i. prefetch_process_packet D (bufs ! i))
       [length bufs - PREFETCH_OFFSET..<length bufs];
     for_each (\<lambda>m. rte_pktmbuf_free m) bufs
   }"

record pps =
  total :: u64
  last :: u64
  start :: u64

text \<open>One round of \<open>lcore_main\<close>; the counters wrap around at 64 bits.\<close>

definition lcore_round ::
    "env \<Rightarrow> (mbuf \<Rightarrow> u8 list) \<Rightarrow> u16 \<Rightarrow> u64 \<Rightarrow> pps \<Rightarrow> (unit + pps) io" where
  "lcore_round E D p hz st = do {
     bufs \<leftarrow> rte_eth_rx_burst E p 0 32;
     let nb_rx = length bufs;
     if nb_rx = 0 then ret (Inr st) else do {
     let st = st\<lparr>total := total st + of_nat nb_rx\<rparr>;
     prefetch_burst D bufs;
     now \<leftarrow> rte_get_timer_cycles E;
     if hz < of_nat now - start st then do {
       say ''Packets per second: %lu'' [PU (unat (total st - last st))];
       ret (Inr (st\<lparr>last := total st, start := of_nat now\<rparr>))
     } else ret (Inr st)
   }}"

definition lcore_main :: "env \<Rightarrow> (mbuf \<Rightarrow> u8 list) \<Rightarrow> u16 \<Rightarrow> nat \<Rightarrow> (unit + pps) io" where
  "lcore_main E D p n = do {
     start \<leftarrow> rte_get_timer_cycles E;
     hz \<leftarrow> rte_get_timer_hz E;
     say ''Starting RX loop with prefetch...'' [];
     rounds n (lcore_round E D p (of_nat hz)) \<lparr>total = 0, last = 0, start = of_nat start\<rparr>
   }"

text \<open>\<open>main\<close>: \<open>Some\<close> the exit status, \<open>None\<close> while the loop runs (after \<open>n\<close> rounds).\<close>

definition prefetch_main :: "env \<Rightarrow> (mbuf \<Rightarrow> u8 list) \<Rightarrow> nat \<Rightarrow> int option io" where
  "prefetch_main E D n = do {
     r \<leftarrow> rte_eal_init E;
     if r < 0 then do { x \<leftarrow> rte_exit ''EAL init failed'' []; ret (Some x) } else do {
     count \<leftarrow> rte_eth_dev_count_avail E;
     if count = 0 then do { x \<leftarrow> rte_exit ''No Ethernet ports found'' []; ret (Some x) } else do {
     mbuf_pool \<leftarrow> rte_pktmbuf_pool_create E ''MBUF_POOL'' 8192 250;
     if mbuf_pool = NULL then do { x \<leftarrow> rte_exit ''Cannot create mbuf pool'' []; ret (Some x) } else do {
     r \<leftarrow> prefetch_port_init E 0 mbuf_pool;
     if r \<noteq> 0 then do { x \<leftarrow> rte_exit ''Cannot initialize port'' []; ret (Some x) } else do {
     say ''Port %u initialized'' [PU 0];
     _ \<leftarrow> lcore_main E D 0 n;
     ret None }}}}}"

subsection \<open>Lemmas\<close>

lemma touch_simps [simp]:
  "accessed (touch D m) = [m]" "prefetched (touch D m) = []" "freed (touch D m) = []"
  "rcvd (touch D m) = []"
  by (simp_all add: touch_def)

lemma accessed_concat [simp]: "accessed (concat xss) = concat (map accessed xss)"
  by (induction xss) simp_all

lemma prefetched_concat [simp]: "prefetched (concat xss) = concat (map prefetched xss)"
  by (induction xss) simp_all

lemma freed_concat [simp]: "freed (concat xss) = concat (map freed xss)"
  by (induction xss) simp_all

lemma rcvd_concat [simp]: "rcvd (concat xss) = concat (map rcvd xss)"
  by (induction xss) simp_all

lemma map_prefetch_simps [simp]:
  "prefetched (map (\<lambda>m. Did (Mem (Prefetch m))) ms) = ms"
  "accessed (map (\<lambda>m. Did (Mem (Prefetch m))) ms) = []"
  "freed (map (\<lambda>m. Did (Mem (Prefetch m))) ms) = []"
  "rcvd (map (\<lambda>m. Did (Mem (Prefetch m))) ms) = []"
  by (induction ms) simp_all

lemma map_free_simps [simp]:
  "prefetched (map (\<lambda>m. Did (Mem (Mbuf_free m))) ms) = []"
  "accessed (map (\<lambda>m. Did (Mem (Mbuf_free m))) ms) = []"
  by (induction ms) simp_all

lemma concat_singletons [simp]:
  "concat (map (\<lambda>x. [f x]) xs) = map f xs" "concat (map (\<lambda>x. []) xs) = []"
  by (induction xs) simp_all

lemma map_nth_upt: "b \<le> length xs \<Longrightarrow> map ((!) xs) [a..<b] = drop a (take b xs)"
  by (rule nth_equalityI) (auto simp: nth_append)

lemma map_nth_shift: "n = length xs - k \<Longrightarrow> map (\<lambda>i. xs ! (i + k)) [0..<n] = drop k xs"
  by (rule nth_equalityI) (auto simp: add.commute)

text \<open>The trace of one burst: the loads, the processing, the frees.\<close>

definition loads :: "(mbuf \<Rightarrow> u8 list) \<Rightarrow> mbuf list \<Rightarrow> nat list \<Rightarrow> event list" where
  "loads D bufs is = concat (map (\<lambda>i. Did (Mem (Prefetch (bufs ! (i + 4)))) # touch D (bufs ! i)) is)"

lemma final_prefetch_burst:
  "final (prefetch_burst D bufs) h = h @ map (\<lambda>m. Did (Mem (Prefetch m))) (take 4 bufs)
     @ loads D bufs [0..<length bufs - 4]
     @ concat (map (touch D) (drop (length bufs - 4) bufs))
     @ map (\<lambda>m. Did (Mem (Mbuf_free m))) bufs"
proof -
  have 1: "final (for_each (\<lambda>m. rte_prefetch0 m) ms) g = g @ map (\<lambda>m. Did (Mem (Prefetch m))) ms"
    for ms g
    using final_for_each_append [where f = "\<lambda>m. rte_prefetch0 m" and g = "\<lambda>m. [Did (Mem (Prefetch m))]"]
    by simp
  have 2: "final (for_each (\<lambda>i. rte_prefetch0 (bufs ! (i + 4)) \<bind> (\<lambda>_. prefetch_process_packet D (bufs ! i))) is) g
      = g @ loads D bufs is" for "is" g
    unfolding loads_def
    by (rule final_for_each_append) (simp add: prefetch_process_packet_def)
  have 3: "final (for_each (\<lambda>i. prefetch_process_packet D (bufs ! i)) is) g
      = g @ concat (map (\<lambda>i. touch D (bufs ! i)) is)" for "is" g
    by (rule final_for_each_append) (simp add: prefetch_process_packet_def)
  have "map (\<lambda>i. touch D (bufs ! i)) [length bufs - 4..<length bufs]
      = map (touch D) (map ((!) bufs) [length bufs - 4..<length bufs])" by simp
  also have "\<dots> = map (touch D) (drop (length bufs - 4) bufs)"
    by (simp only: map_nth_upt order_refl take_all)
  finally show ?thesis
    by (simp add: prefetch_burst_def PREFETCH_OFFSET_def 1 2 3)
qed

lemma appends_prefetch_burst [simp, appends_intros]: "appends (prefetch_burst D bufs)"
  unfolding appends_def final_prefetch_burst by auto

lemma loads_simps [simp]:
  "accessed (loads D bufs is) = map ((!) bufs) is"
  "prefetched (loads D bufs is) = map (\<lambda>i. bufs ! (i + 4)) is"
  "freed (loads D bufs is) = []" "rcvd (loads D bufs is) = []"
  "loads D bufs (is @ js) = loads D bufs is @ loads D bufs js"
  by (simp_all add: loads_def comp_def sum_list_0)

lemma prefetch_burst_owns:
  assumes "distinct bufs" and "set bufs \<subseteq> S"
  shows "own_safe S (emitted (prefetch_burst D bufs) h)"
    and "own_after S (emitted (prefetch_burst D bufs) h) = S - set bufs"
proof -
  let ?es = "map (\<lambda>m. Did (Mem (Prefetch m))) (take 4 bufs) @ loads D bufs [0..<length bufs - 4]
     @ concat (map (touch D) (drop (length bufs - 4) bufs))"
  have sub: "m \<in> set (take 4 bufs) \<Longrightarrow> m \<in> S" "m \<in> set (drop (length bufs - 4) bufs) \<Longrightarrow> m \<in> S"
    "i < length bufs - 4 \<Longrightarrow> bufs ! i \<in> S \<and> bufs ! (i + 4) \<in> S" for m i
    using assms(2) by (auto dest: in_set_takeD in_set_dropD)
  have "\<forall>e\<in>set ?es. own_allowed S e \<and> own_next S e = S"
    using sub by (auto simp: loads_def touch_def split: if_splits)
  note still = own_still [OF this]
  have em: "emitted (prefetch_burst D bufs) h = ?es @ map (\<lambda>m. Did (Mem (Mbuf_free m))) bufs"
    by (simp add: emitted_def final_prefetch_burst)
  show "own_safe S (emitted (prefetch_burst D bufs) h)"
    and "own_after S (emitted (prefetch_burst D bufs) h) = S - set bufs"
    unfolding em mon_safe_append [of _ _ ?es] mon_after_append [of _ _ ?es]
    using still own_free_loop [OF assms(2,1)] by simp_all
qed

lemma lcore_round_appends [simp, appends_intros]: "appends (lcore_round E D p hz st)"
  unfolding lcore_round_def by (intro appends_intros)

text \<open>A burst and a clock reading between other calls.\<close>

lemma follows_prefetch_burst:
  assumes "distinct bufs" and "set bufs \<subseteq> S" and "follows own_monitor (S - set bufs) (f ()) Q"
    and "appends (f ())"
  shows "follows own_monitor S (prefetch_burst D bufs \<bind> f) Q"
proof (rule follows_bind_rule [where P = "\<lambda>_ S'. S' = S - set bufs"])
  show "follows own_monitor S (prefetch_burst D bufs) (\<lambda>_ S'. S' = S - set bufs)"
    using prefetch_burst_owns [OF assms(1,2)] by (simp add: follows_def)
qed (use assms in auto)

interpretation lcore: burst_stage "\<lambda>E. lcore_round E D p hz" for D p hz
proof (unfold_locales, rule lcore_round_appends)
  fix E :: env and v :: pps
  assume "bursts_distinct E"
  then show "follows own_monitor {} (lcore_round E D p hz v) (\<lambda>_ S. S = {})"
    unfolding lcore_round_def Let_def
    by (intro follows_intros follows_prefetch_burst appends_intros) auto
qed

subsection \<open>The packet counter\<close>

definition pps_report :: "event \<Rightarrow> u64 list" where
  "pps_report e = (case e of
     Printf f as \<Rightarrow> if f = ''Packets per second: %lu''
       then (case as of [a] \<Rightarrow> (case a of PU x \<Rightarrow> [of_nat x] | _ \<Rightarrow> []) | _ \<Rightarrow> []) else []
   | _ \<Rightarrow> [])"

text \<open>The numbers the loop has printed.\<close>

definition pps_reports :: "event list \<Rightarrow> u64 list" where
  "pps_reports es = concat (map pps_report es)"

lemma pps_reports_append [simp]: "pps_reports (xs @ ys) = pps_reports xs @ pps_reports ys"
  by (simp add: pps_reports_def)

lemma pps_reports_Cons [simp]: "pps_reports [] = []" "pps_reports (e # es) = pps_report e @ pps_reports es"
  by (simp_all add: pps_reports_def)

lemma pps_report_simps [simp]:
  "pps_report (Access m) = []" "pps_report (Overread m) = []" "pps_report (Did c) = []"
  "pps_report (Burst c ms) = []" "pps_report (Count c n) = []" "pps_report (Status c r) = []"
  "pps_report (Pointer c q) = []"
  "pps_report (Printf ''Packets per second: %lu'' [PU x]) = [of_nat x]"
  by (simp_all add: pps_report_def)

lemma prefetch_burst_trace:
  "rcvd (emitted (prefetch_burst D bufs) h) = []"
  "accessed (emitted (prefetch_burst D bufs) h) = bufs"
  "prefetched (emitted (prefetch_burst D bufs) h) = bufs"
  "freed (emitted (prefetch_burst D bufs) h) = bufs"
  "pps_reports (emitted (prefetch_burst D bufs) h) = []"
proof -
  have "map ((!) bufs) [0..<length bufs - 4] @ drop (length bufs - 4) bufs = bufs"
    by (simp add: map_nth_upt)
  moreover have "take 4 bufs @ map (\<lambda>i. bufs ! (i + 4)) [0..<length bufs - 4] = bufs"
    by (simp add: map_nth_shift)
  ultimately show "accessed (emitted (prefetch_burst D bufs) h) = bufs"
    "prefetched (emitted (prefetch_burst D bufs) h) = bufs"
    "freed (emitted (prefetch_burst D bufs) h) = bufs"
    "rcvd (emitted (prefetch_burst D bufs) h) = []"
    by (simp_all add: emitted_def final_prefetch_burst comp_def sum_list_0)
  show "pps_reports (emitted (prefetch_burst D bufs) h) = []"
    by (auto simp: emitted_def final_prefetch_burst pps_reports_def loads_def touch_def)
qed

text \<open>What has been received, reported and counted agree between any two rounds.\<close>

definition counters_agree :: "event list \<Rightarrow> pps \<Rightarrow> bool" where
  "counters_agree es st \<longleftrightarrow> total st = of_nat (length (rcvd es)) \<and> sum_list (pps_reports es) = last st
     \<and> accessed es = rcvd es \<and> freed es = rcvd es"

lemma final_prefetch_burst_emitted:
  "final (prefetch_burst D bufs) h = h @ emitted (prefetch_burst D bufs) h"
  by (rule final_emitted) simp

lemma lcore_round_counters:
  assumes "counters_agree h st"
  shows "\<exists>st'. result (lcore_round E D p hz st) h = Inr st' \<and>
     counters_agree (final (lcore_round E D p hz st) h) st'"
  using assms
  by (simp add: lcore_round_def Let_def counters_agree_def final_prefetch_burst_emitted
      prefetch_burst_trace)

lemma lcore_rounds_counters:
  assumes "counters_agree h st"
  shows "\<exists>st'. result (rounds n (lcore_round E D p hz) st) h = Inr st' \<and>
     counters_agree (final (rounds n (lcore_round E D p hz) st) h) st'"
  using assms
proof (induction n arbitrary: h st)
  case 0
  then show ?case by simp
next
  case (Suc n)
  obtain st' where "result (lcore_round E D p hz st) h = Inr st'"
    and "counters_agree (final (lcore_round E D p hz st) h) st'"
    using lcore_round_counters [OF Suc.prems] by blast
  with Suc.IH show ?case by simp
qed

section \<open>\<open>port_init2/rx_loop.c\<close>\<close>

text \<open>What the loop prints of a packet; neither header is checked against the length.\<close>

definition rx_packet_info :: "endian \<Rightarrow> byteorder \<Rightarrow> packet \<Rightarrow> event list option" where
  "rx_packet_info e B m = do {
     w \<leftarrow> get16 e (data m) 12;
     let ether_type = be_to_cpu_16 B w;
     let l2 = [Printf ''L2 Type:%d'' [PU (l2_type m)],
               Printf ''L3 Type:%d'' [PU (l3_type m)],
               Printf ''L4 Type:%d'' [PU (l4_type m)],
               Printf ''Packet length: %u bytes'' [PU (pkt_len m)],
               Printf ''EtherType: 0x%04x'' [PU (unat ether_type)]];
     if ether_type = RTE_ETHER_TYPE_IPV4 then do {
       a \<leftarrow> get32 e (data m) (ETHER_HDR_LEN + 12);
       let src = be_to_cpu_32 B a;
       Some (l2 @ [Printf ''IPv4 Src IP: %u.%u.%u.%u'' (dotted src)])
     } else Some l2
   }"

definition new_mac :: "u8 list" where
  "new_mac = [0x02, 0x11, 0x22, 0x33, 0x44, 0x55]"

definition rx_loop_round ::
    "env \<Rightarrow> endian \<Rightarrow> byteorder \<Rightarrow> (mbuf \<Rightarrow> packet) \<Rightarrow> u16 \<Rightarrow> unit \<Rightarrow> (unit + unit) io" where
  "rx_loop_round E e B M p _ = do {
     rx_pkts \<leftarrow> rte_eth_rx_burst E p 0 32;
     if rx_pkts = [] then ret (Inr ()) else do {
     for_each (\<lambda>m. do {
         emit (reading m (rx_packet_info e B (M m)));
         act (Mem (Store m 0 new_mac));
         say ''Destination MAC rewritten'' [];
         rte_pktmbuf_free m
       }) rx_pkts;
     ret (Inr ())
   }}"

text \<open>\<open>port_init2/main.c\<close>: \<open>Some\<close> the exit status, \<open>None\<close> while the loop runs.\<close>

definition port2_main ::
    "env \<Rightarrow> endian \<Rightarrow> byteorder \<Rightarrow> (mbuf \<Rightarrow> packet) \<Rightarrow> u16 list \<Rightarrow> nat \<Rightarrow> int option io" where
  "port2_main E e B M ports n = do {
     r \<leftarrow> rte_eal_init E;
     if r < 0 then do { x \<leftarrow> rte_exit ''EAL init failed'' []; ret (Some x) } else do {
     mbuf_pool \<leftarrow> rte_pktmbuf_pool_create E ''MBUF_POOL'' 8192 250;
     if mbuf_pool = NULL then do { x \<leftarrow> rte_exit ''Mbuf pool creation failed'' []; ret (Some x) } else do {
     avail \<leftarrow> rte_mempool_avail_count E mbuf_pool;
     say ''Mempool created (%u mbufs)'' [PU avail];
     r \<leftarrow> foreach_port port2_init
            (\<lambda>p. rte_exit ''Port %u init failed'' [PU (unat p)]) E ports mbuf_pool;
     case r of Some x \<Rightarrow> ret (Some x) | None \<Rightarrow> do {
     say ''RX-oPRINT_NEW_LINEy DPDK app started'' [];
     _ \<leftarrow> rounds n (rx_loop_round E e B M 0) ();
     ret None }}}}"

text \<open>What one packet adds to the trace.\<close>

definition rx_packet_trace :: "endian \<Rightarrow> byteorder \<Rightarrow> (mbuf \<Rightarrow> packet) \<Rightarrow> mbuf \<Rightarrow> event list" where
  "rx_packet_trace e B M m = reading m (rx_packet_info e B (M m)) @
     [Did (Mem (Store m 0 new_mac)), Printf ''Destination MAC rewritten'' [], Did (Mem (Mbuf_free m))]"

lemma rx_packet_info_prints: "rx_packet_info e B pk = Some es \<Longrightarrow> list_all is_print es"
  unfolding rx_packet_info_def Let_def by (elim bind_SomeE if_SomeE) auto

lemma own_rx_packet:
  "m \<in> S \<Longrightarrow> own_safe S (rx_packet_trace e B M m) \<and> own_after S (rx_packet_trace e B M m) = S - {m}"
  using own_reading [of m S "rx_packet_info e B (M m)"]
  by (simp add: rx_packet_trace_def rx_packet_info_prints)

lemma rx_loop_round_appends [simp, appends_intros]: "appends (rx_loop_round E e B M p v)"
  unfolding rx_loop_round_def by (intro appends_intros)

interpretation rx2: burst_stage "\<lambda>E. rx_loop_round E e B M p" for e B M p
proof (unfold_locales, rule rx_loop_round_appends)
  fix E :: env and v :: unit
  assume "bursts_distinct E"
  then show "follows own_monitor {} (rx_loop_round E e B M p v) (\<lambda>_ S. S = {})"
    unfolding rx_loop_round_def
    by (intro follows_intros appends_intros
        follows_consume_loop [where g = "rx_packet_trace e B M"] own_rx_packet)
      (auto simp: rx_packet_trace_def)
qed

section \<open>\<open>vhost/\<close>\<close>

text \<open>\<open>vhost.c\<close>: the setup calls are made without a look at their results.\<close>

definition vhost_round :: "env \<Rightarrow> u16 \<Rightarrow> unit \<Rightarrow> (unit + unit) io" where
  "vhost_round E p _ = do {
     bufs \<leftarrow> rte_eth_rx_burst E p 0 1;
     case bufs of [] \<Rightarrow> ret (Inr ())
     | m # _ \<Rightarrow> do {
         say ''Packet received at backend'' [];
         rte_pktmbuf_free m;
         ret (Inr ()) }}"

definition vhost_main :: "env \<Rightarrow> nat \<Rightarrow> int option io" where
  "vhost_main E n = do {
     r \<leftarrow> rte_eal_init E;
     if r < 0 then do { x \<leftarrow> rte_exit ''EAL init failed'' []; ret (Some x) } else do {
     mbuf_pool \<leftarrow> rte_pktmbuf_pool_create E ''VHOST_POOL'' 1024 0;
     if mbuf_pool = NULL then do { x \<leftarrow> rte_exit ''Cannot create mbuf pool'' []; ret (Some x) } else do {
     _ \<leftarrow> rte_eth_dev_configure E 0 1 1;
     _ \<leftarrow> rte_eth_rx_queue_setup E 0 0 64 (Port_socket 0) mbuf_pool;
     _ \<leftarrow> rte_eth_tx_queue_setup E 0 0 64 (Port_socket 0);
     _ \<leftarrow> rte_eth_dev_start E 0;
     say ''vhost-user backend READY (socket created)'' [];
     _ \<leftarrow> rounds n (vhost_round E 0) ();
     ret None }}}"

text \<open>\<open>tx.c\<close>: one frame is allocated, written and sent; only its sending is checked.\<close>

definition virtio_main :: "env \<Rightarrow> endian \<Rightarrow> byteorder \<Rightarrow> int io" where
  "virtio_main E e B = do {
     r \<leftarrow> rte_eal_init E;
     if r < 0 then rte_exit ''EAL init failed'' [] else do {
     mbuf_pool \<leftarrow> rte_pktmbuf_pool_create E ''VIRTIO_POOL'' 512 0;
     if mbuf_pool = NULL then rte_exit ''Cannot create mbuf pool'' [] else do {
     _ \<leftarrow> rte_eth_dev_configure E 0 0 1;
     _ \<leftarrow> rte_eth_tx_queue_setup E 0 0 64 (Port_socket 0);
     _ \<leftarrow> rte_eth_dev_start E 0;
     mbuf \<leftarrow> rte_pktmbuf_alloc E mbuf_pool;
     _ \<leftarrow> rte_pktmbuf_append E mbuf 14;
     act (Mem (Store mbuf 0 [0xff, 0xff, 0xff, 0xff, 0xff, 0xff]));
     act (Mem (Store mbuf 6 [0x02, 0x00, 0x00, 0x00, 0x00, 0x01]));
     act (Mem (Store mbuf 12 (st16 e (cpu_to_be_16 B RTE_ETHER_TYPE_IPV4))));
     sent \<leftarrow> rte_eth_tx_burst E 0 0 [mbuf];
     if sent = 1 then do { say ''virtio-user: Packet SENT'' []; ret 0 }
     else do { say ''virtio-user: TX failed'' []; rte_pktmbuf_free mbuf; ret 0 }
   }}}"

lemma vhost_round_appends [simp, appends_intros]: "appends (vhost_round E p v)"
  unfolding vhost_round_def by (intro appends_intros)

interpretation vhost: burst_stage "\<lambda>E. vhost_round E p" for p
proof (unfold_locales, rule vhost_round_appends)
  fix E :: env and v :: unit
  assume b: "bursts_bounded E"
  show "follows own_monitor {} (vhost_round E p v) (\<lambda>_ S. S = {})"
    unfolding vhost_round_def
  proof (intro follows_intros appends_intros)
    fix t
    have "length (burst E t (Eth (Rx_burst p 0 1))) \<le> 1"
      using b by (rule bursts_boundedD)
    then show "follows own_monitor (moves own_monitor {} (Burst (Eth (Rx_burst p 0 1)) (burst E t (Eth (Rx_burst p 0 1)))))
        (case burst E t (Eth (Rx_burst p 0 1)) of [] \<Rightarrow> ret (Inr ())
         | m # _ \<Rightarrow> do { say ''Packet received at backend'' []; rte_pktmbuf_free m; ret (Inr ()) })
        (\<lambda>_ S. S = {})"
      by (cases "burst E t (Eth (Rx_burst p 0 1))")
        (auto intro!: follows_intros appends_intros)
  qed simp_all
qed

text \<open>The bytes a program writes into packets, with their offsets.\<close>

definition stored :: "event list \<Rightarrow> (mbuf \<times> nat \<times> u8 list) list" where
  "stored es = concat (map (\<lambda>e. case e of
     Did c \<Rightarrow> (case c of Mem mc \<Rightarrow> (case mc of Store m i bs \<Rightarrow> [(m, i, bs)] | _ \<Rightarrow> []) | _ \<Rightarrow> [])
   | _ \<Rightarrow> []) es)"

section \<open>Properties\<close>

text \<open>
  C21. In one burst of \<open>prefetch/main.c\<close>, when packet \<open>k\<close> is processed exactly the packets before it
  have been processed and exactly the first \<open>k + 5\<close> packets (all, near the end) have been
  prefetched: its own data and those of the next four; nothing has been freed.
\<close>

theorem prefetch_runs_ahead:
  assumes "k < length bufs"
  shows "\<exists>xs ys. emitted (prefetch_burst D bufs) h = xs @ Access (bufs ! k) # ys \<and>
     accessed xs = take k bufs \<and> prefetched xs = take (k + 5) bufs \<and> freed xs = []"
proof (cases "k < length bufs - 4")
  case True
  let ?n = "length bufs - 4"
  let ?xs = "map (\<lambda>m. Did (Mem (Prefetch m))) (take 4 bufs) @ loads D bufs [0..<k]
     @ [Did (Mem (Prefetch (bufs ! (k + 4))))]"
  have "[0..<?n] = [0..<k] @ k # [Suc k..<?n]"
    using True by (metis le0 less_imp_le upt_add_eq_append upt_conv_Cons add_0 le_add_diff_inverse)
  then have "loads D bufs [0..<?n] = loads D bufs [0..<k] @
      Did (Mem (Prefetch (bufs ! (k + 4)))) # touch D (bufs ! k) @ loads D bufs [Suc k..<?n]"
    by (simp add: loads_def)
  then obtain ys where split: "emitted (prefetch_burst D bufs) h = ?xs @ Access (bufs ! k) # ys"
    by (simp add: emitted_def final_prefetch_burst touch_def)
  have "take 4 bufs @ map (\<lambda>i. bufs ! (i + 4)) [0..<Suc k] = take (k + 5) bufs"
  proof (rule nth_equalityI)
    show "length (take 4 bufs @ map (\<lambda>i. bufs ! (i + 4)) [0..<Suc k]) = length (take (k + 5) bufs)"
      using True by simp
  qed (use True in \<open>auto simp: nth_append simp del: upt_Suc\<close>)
  moreover have "map ((!) bufs) [0..<k] = take k bufs"
    using assms by (simp add: map_nth_upt)
  ultimately show ?thesis
    by (intro exI [of _ ys] exI [of "\<lambda>xs. \<exists>ys. P xs ys" ?xs for P] conjI split; simp)
next
  case False
  let ?j = "k - (length bufs - 4)"
  let ?rest = "drop (length bufs - 4) bufs"
  let ?pre = "map (\<lambda>m. Did (Mem (Prefetch m))) (take 4 bufs) @ loads D bufs [0..<length bufs - 4]"
  let ?xs = "?pre @ concat (map (touch D) (take ?j ?rest))"
  have j: "?j < length ?rest" "?rest ! ?j = bufs ! k"
    using False assms by simp_all
  then have "?rest = take ?j ?rest @ bufs ! k # drop (Suc ?j) ?rest"
    by (metis id_take_nth_drop)
  then have "concat (map (touch D) ?rest) = concat (map (touch D) (take ?j ?rest)) @
      touch D (bufs ! k) @ concat (map (touch D) (drop (Suc ?j) ?rest))"
    by (metis concat.simps(2) concat_append list.simps(9) map_append)
  then obtain ys where split: "emitted (prefetch_burst D bufs) h = ?xs @ Access (bufs ! k) # ys"
    by (simp add: emitted_def final_prefetch_burst touch_def)
  have "map ((!) bufs) [0..<length bufs - 4] @ take ?j ?rest = take k bufs"
    using False by (simp add: map_nth_upt take_add [symmetric])
  moreover have "take 4 bufs @ map (\<lambda>i. bufs ! (i + 4)) [0..<length bufs - 4] = take (k + 5) bufs"
    using False by (simp add: map_nth_shift)
  ultimately show ?thesis
    by (intro exI [of _ ys] exI [of "\<lambda>xs. \<exists>ys. P xs ys" ?xs for P] conjI split; simp add: comp_def)
qed

theorem prefetch_runs_ahead_witness:
  "\<exists>xs ys. emitted (prefetch_burst (\<lambda>_. []) [1, 2, 3, 4, 5, 6, 7]) [] = xs @ Access 2 # ys \<and>
     accessed xs = [1] \<and> prefetched xs = [1, 2, 3, 4, 5, 6]"
  using prefetch_runs_ahead [of 1 "[1, 2, 3, 4, 5, 6, 7]" "\<lambda>_. []" "[]"] by auto

text \<open>
  C22. After any number of rounds \<open>lcore_main\<close> is still running.  It has processed exactly the packets it
  received, each once and in the order of their arrival, and freed them in that order; its \<open>total\<close>
  is their number (modulo \<open>2\<^sup>6\<^sup>4\<close>), and the numbers printed every second add up to \<open>last\<close>.
\<close>

theorem lcore_main_accounts:
  "\<exists>st. result (lcore_main E D p n) [] = Inr st \<and>
     accessed (final (lcore_main E D p n) []) = rcvd (final (lcore_main E D p n) []) \<and>
     freed (final (lcore_main E D p n) []) = rcvd (final (lcore_main E D p n) []) \<and>
     total st = of_nat (length (rcvd (final (lcore_main E D p n) []))) \<and>
     sum_list (pps_reports (final (lcore_main E D p n) [])) = last st"
proof -
  let ?s = "counted E 0 (Eal Timer_cycles)"
  let ?hz = "counted E 1 (Eal Timer_hz)"
  let ?h = "[Count (Eal Timer_cycles) ?s, Count (Eal Timer_hz) ?hz,
     Printf ''Starting RX loop with prefetch...'' []]"
  have "counters_agree ?h \<lparr>total = 0, last = 0, start = of_nat ?s\<rparr>"
    by (simp add: counters_agree_def pps_report_def)
  from lcore_rounds_counters [OF this, of n E D p "of_nat ?hz"]
  obtain st where "result (lcore_main E D p n) [] = Inr st" "counters_agree (final (lcore_main E D p n) []) st"
    by (auto simp: lcore_main_def)
  then show ?thesis unfolding counters_agree_def by (intro exI [of _ st]) simp
qed

text \<open>
  C5. The receive loops of \<open>prefetch/main.c\<close>, \<open>port_init2/rx_loop.c\<close> and \<open>vhost/vhost.c\<close> keep the
  ownership discipline: over any number of rounds they use only packets they hold and free each
  of them exactly once, so that after every round no packet is left.
\<close>

theorem receive_loops_keep_ownership:
  assumes "bursts_distinct E" and "bursts_bounded E"
  shows "own_safe {} (emitted (rounds n (lcore_round E D p hz) st) h) \<and>
     own_after {} (emitted (rounds n (lcore_round E D p hz) st) h) = {} \<and>
     own_safe {} (emitted (rounds n (rx_loop_round E e B M p) ()) h) \<and>
     own_after {} (emitted (rounds n (rx_loop_round E e B M p) ()) h) = {} \<and>
     own_safe {} (emitted (rounds n (vhost_round E p) ()) h) \<and>
     own_after {} (emitted (rounds n (vhost_round E p) ()) h) = {}"
  by (simp add: lcore.service_loop_safe [OF assms] rx2.service_loop_safe [OF assms]
      vhost.service_loop_safe [OF assms])

theorem receive_loops_keep_ownership_witness:
  "own_safe {} (emitted (rounds 2 (lcore_round busy_env (\<lambda>_. []) 0 5) \<lparr>total = 0, last = 0, start = 0\<rparr>) []) \<and>
   own_safe {} (emitted (rounds 3 (vhost_round busy_env 0) ()) []) \<and>
   freed (emitted (rounds 3 (vhost_round busy_env 0) ()) []) = [1, 7, 13]"
proof -
  have "freed (emitted (rounds 3 (vhost_round busy_env 0) ()) []) = [1, 7, 13]"
    by (simp add: vhost_round_def busy_env_def emitted_def numeral_3_eq_3)
  then show ?thesis
    using receive_loops_keep_ownership [OF busy_env_ok(1,2), of 3]
      receive_loops_keep_ownership [OF busy_env_ok(1,2), of 2] by blast
qed

text \<open>
  The loop of \<open>port_init2/rx_loop.c\<close> checks no length: it reads past the packet exactly for
  packets shorter than the Ethernet header and for IPv4 packets of less than 30 bytes.
\<close>

theorem rx_packet_info_overreads_exactly:
  assumes "byteorder_ok e B"
  shows "rx_packet_info e B pk = None \<longleftrightarrow>
     length (data pk) < 14 \<or> data pk ! 12 = 0x08 \<and> data pk ! 13 = 0x00 \<and> length (data pk) < 30"
proof (cases "length (data pk) < 14")
  case True
  then show ?thesis by (simp add: rx_packet_info_def get_defs)
next
  case False
  then show ?thesis
    using assms by (auto simp: rx_packet_info_def Let_def ether_type_bytes ETHER_HDR_LEN_def get_defs)
qed

theorem rx_packet_info_overreads_exactly_witness:
  "rx_packet_info Little x86_order \<lparr>data = replicate 12 0 @ [8, 0], port = 0, pkt_len = 14, data_off = 128,
     packet_type = 0, buf_len = 2176, nb_segs = 1, ol_flags = 0, l2_type = 0, l3_type = 0, l4_type = 0,
     inner_l2_type = 0, inner_l3_type = 0, inner_l4_type = 0\<rparr> = None"
  by (subst rx_packet_info_overreads_exactly [OF x86_order_ok]) (simp add: nth_append)

text \<open>
  C35. \<open>vhost/tx.c\<close> builds the broadcast frame with EtherType 0x0800 in network order on a host of
  either byte order, and keeps the ownership discipline, freeing the frame exactly when it was
  not sent, if and only if the allocation, which it does not check, gave a buffer.
\<close>

theorem virtio_frame:
  assumes "byteorder_ok e B" and "0 \<le> status E 0 (Eal Eal_init)"
    and "pool = pointer E 1 (Mem (Pool_create ''VIRTIO_POOL'' 512 0))" and "pool \<noteq> NULL"
    and "m = pointer E 5 (Mem (Mbuf_alloc pool))"
    and "sent = counted E 10 (Eth (Tx_burst 0 0 [m]))" and "sent \<le> 1"
  shows "stored (final (virtio_main E e B) []) =
       [(m, 0, [0xff, 0xff, 0xff, 0xff, 0xff, 0xff]), (m, 6, [2, 0, 0, 0, 0, 1]), (m, 12, [8, 0])] \<and>
     freed (final (virtio_main E e B) []) = (if sent = 1 then [] else [m]) \<and>
     (own_safe {} (final (virtio_main E e B) []) \<longleftrightarrow> m \<noteq> NULL) \<and>
     (m \<noteq> NULL \<longrightarrow> own_after {} (final (virtio_main E e B) []) = {})"
proof -
  have 1: "RTE_ETHER_TYPE_IPV4 = be_word16 8 0" by (simp add: api_constants be_word16_def)
  have bytes: "st16 e (cpu_to_be_16 B RTE_ETHER_TYPE_IPV4) = [8, 0]"
    unfolding 1 by (rule st16_cpu_to_be [OF assms(1)])
  have "final (virtio_main E e B) [] = [Status (Eal Eal_init) (status E 0 (Eal Eal_init)),
     Pointer (Mem (Pool_create ''VIRTIO_POOL'' 512 0)) pool,
     Status (Eth (Dev_configure 0 0 1)) (status E 2 (Eth (Dev_configure 0 0 1))),
     Status (Eth (Tx_queue_setup 0 0 64 (Port_socket 0))) (status E 3 (Eth (Tx_queue_setup 0 0 64 (Port_socket 0)))),
     Status (Eth (Dev_start 0)) (status E 4 (Eth (Dev_start 0))),
     Pointer (Mem (Mbuf_alloc pool)) m,
     Pointer (Mem (Mbuf_append m 14)) (pointer E 6 (Mem (Mbuf_append m 14))),
     Did (Mem (Store m 0 [0xff, 0xff, 0xff, 0xff, 0xff, 0xff])),
     Did (Mem (Store m 6 [2, 0, 0, 0, 0, 1])), Did (Mem (Store m 12 [8, 0])),
     Count (Eth (Tx_burst 0 0 [m])) sent] @
     (if sent = 1 then [Printf ''virtio-user: Packet SENT'' []]
      else [Printf ''virtio-user: TX failed'' [], Did (Mem (Mbuf_free m))])"
    using assms(2-6) by (simp add: virtio_main_def bytes eval_nat_numeral)
  moreover have "sent = 0 \<or> sent = 1" using assms(7) by auto
  ultimately show ?thesis
    by (elim disjE) (simp_all add: stored_def)
qed

theorem virtio_frame_witness:
  "freed (final (virtio_main (good_env\<lparr>counted := \<lambda>_ _. 0\<rparr>) Little x86_order) []) = [1]"
  using virtio_frame [OF x86_order_ok _ refl _ refl refl, of "good_env\<lparr>counted := \<lambda>_ _. 0\<rparr>"]
  by (simp add: good_env_def NULL_def)


end
