(* ===== verification/Ring_Pipeline.thy ===== *)
theory Ring_Pipeline
  imports Packet_Data Mbuf_Ownership Port_Setup "HOL-Library.Sublist" "HOL-Library.Multiset"
begin

text \<open>
  The three-core pipeline of \<open>packet_parseer_ring/\<close>: the receive core moves packets from the port
  to the ring \<open>rx_to_parser\<close>, the parser core prints them and moves them to \<open>parse_to_tx\<close>, the
  transmit core sends them.  Each core counts its packets and stops after 25.

  The cores run concurrently.  They share nothing but the two rings, and a ring operation is one
  call; the model interleaves whole rounds of the three service loops in any order (\<open>pipeline\<close>).
  What the code relies on of a ring is that packets come out in the order they went in
  (\<open>rings_fifo\<close>).
\<close>

section \<open>Reading the trace\<close>

definition deq :: "ptr \<Rightarrow> event list \<Rightarrow> mbuf list" where
  "deq r es = concat (map (\<lambda>e. case e of
     Burst c ms \<Rightarrow> (case c of Ring rc \<Rightarrow>
       (case rc of Ring_dequeue_burst r' n \<Rightarrow> if r' = r then ms else [] | _ \<Rightarrow> []) | _ \<Rightarrow> [])
   | _ \<Rightarrow> []) es)"

definition enq :: "ptr \<Rightarrow> event list \<Rightarrow> mbuf list" where
  "enq r es = concat (map (\<lambda>e. case e of
     Count c k \<Rightarrow> (case c of Ring rc \<Rightarrow>
       (case rc of Ring_enqueue_burst r' ms \<Rightarrow> if r' = r then take k ms else [] | _ \<Rightarrow> []) | _ \<Rightarrow> [])
   | _ \<Rightarrow> []) es)"

definition sent :: "event list \<Rightarrow> mbuf list" where
  "sent es = concat (map (\<lambda>e. case e of
     Count c k \<Rightarrow> (case c of Eth ec \<Rightarrow>
       (case ec of Tx_burst p q ms \<Rightarrow> take k ms | _ \<Rightarrow> []) | _ \<Rightarrow> [])
   | _ \<Rightarrow> []) es)"

lemmas queue_defs = deq_def enq_def sent_def

lemma queue_simps [simp]:
  "deq r [] = []" "enq r [] = []" "sent [] = []"
  "deq r (xs @ ys) = deq r xs @ deq r ys"
  "enq r (xs @ ys) = enq r xs @ enq r ys" "sent (xs @ ys) = sent xs @ sent ys"
  by (simp_all add: queue_defs)

lemma queue_Cons [simp]:
  "deq r (Burst (Ring (Ring_dequeue_burst r' n)) ms # es) = (if r' = r then ms else []) @ deq r es"
  "deq r (Burst (Eth ec) ms # es) = deq r es" "deq r (Count c k # es) = deq r es"
  "deq r (Did c # es) = deq r es" "deq r (Printf f as # es) = deq r es"
  "enq r (Count (Ring (Ring_enqueue_burst r' ms)) k # es) = (if r' = r then take k ms else []) @ enq r es"
  "enq r (Count (Eth ec) k # es) = enq r es" "enq r (Burst c ms # es) = enq r es"
  "enq r (Did c # es) = enq r es" "enq r (Printf f as # es) = enq r es"
  "sent (Count (Eth (Tx_burst p q ms)) k # es) = take k ms @ sent es"
  "sent (Count (Ring rc) k # es) = sent es" "sent (Burst c ms # es) = sent es"
  "sent (Did c # es) = sent es" "sent (Printf f as # es) = sent es"
  by (simp_all add: queue_defs)

lemma queue_free [simp]:
  "deq r (map (\<lambda>m. Did (Mem (Mbuf_free m))) ms) = []"
  "enq r (map (\<lambda>m. Did (Mem (Mbuf_free m))) ms) = []" "sent (map (\<lambda>m. Did (Mem (Mbuf_free m))) ms) = []"
  by (induction ms) simp_all

section \<open>The receive core\<close>

text \<open>
  The rings are arguments: the code has them in two global variables set by \<open>main\<close>.  The loop
  variable is \<open>rx_packet\<close>; \<open>Inl\<close> is the return value of the thread.
\<close>

definition receive_round :: "env \<Rightarrow> ptr \<Rightarrow> nat \<Rightarrow> (int + nat) io" where
  "receive_round E rx_to_parser rx_packet = do {
     packets \<leftarrow> rte_eth_rx_burst E 0 0 32;
     rx_packet \<leftarrow> (if 0 < length packets then do {
         enq \<leftarrow> rte_ring_enqueue_burst E rx_to_parser packets;
         for_each (\<lambda>m. rte_pktmbuf_free m) (drop enq packets);
         say ''Received %u packets | Total %d'' [PU enq, PU (rx_packet + enq)];
         ret (rx_packet + enq)
       } else ret rx_packet);
     if 25 \<le> rx_packet then do { say ''Reached RX limit'' []; ret (Inl 0) }
     else ret (Inr rx_packet)
   }"

definition receive_packet :: "env \<Rightarrow> nat \<Rightarrow> ptr \<Rightarrow> nat \<Rightarrow> (int + nat) io" where
  "receive_packet E lcore rx_to_parser n = do {
     say [] []; say [] [];
     say ''RX lcore: %u'' [PU lcore];
     r \<leftarrow> rounds n (receive_round E rx_to_parser) 0;
     (case r of Inl x \<Rightarrow> do { say [] []; say [] []; ret (Inl x) } | Inr v \<Rightarrow> ret (Inr v))
   }"

section \<open>The parser core\<close>

text \<open>
  \<open>packet_info\<close> for packet number \<open>i\<close>.  \<open>ntop\<close> is the C library's \<open>inet_ntop\<close> on the four bytes of an
  IPv4 address; in the IPv6 branch the two address strings are printed without having been
  written, \<open>junk\<close> is what the arrays happen to hold.  No length is checked.
\<close>

definition packet_info_one ::
    "endian \<Rightarrow> byteorder \<Rightarrow> (u8 list \<Rightarrow> string) \<Rightarrow> string \<times> string \<Rightarrow> nat \<Rightarrow> u8 list \<Rightarrow> event list option" where
  "packet_info_one e B ntop junk i d = do {
     src \<leftarrow> get_bytes d 6 6;
     dst \<leftarrow> get_bytes d 0 6;
     w \<leftarrow> get16 e d 12;
     let ether_type = be_to_cpu_16 B w;
     let l2 = [Printf ''Packet %u'' [PU (i + 1)],
               Printf ''SRC MAC: %02X:%02X:%02X:%02X:%02X:%02X'' (mac_args src),
               Printf ''DST MAC: %02X:%02X:%02X:%02X:%02X:%02X'' (mac_args dst),
               Printf [] [], Printf [] []];
     if ether_type = RTE_ETHER_TYPE_IPV4 then do {
       s \<leftarrow> get_bytes d 26 4;
       t \<leftarrow> get_bytes d 30 4;
       Some (l2 @ [Printf ''Protocol : IPv4'' [], Printf ''SRC IP   : %s'' [PS (ntop s)],
                   Printf ''DST IP   : %s'' [PS (ntop t)], Printf [] [], Printf [] []])
     } else if ether_type = RTE_ETHER_TYPE_IPV6 then
       Some (l2 @ [Printf ''Protocol : IPv6'' [], Printf ''SRC IP   : %s'' [PS (fst junk)],
                   Printf ''DST IP   : %s'' [PS (snd junk)], Printf [] [], Printf [] []])
     else Some (l2 @ [Printf ''Protocol : Unknown (EtherType: 0x%04X)'' [PU (unat ether_type)]])
   }"

text \<open>What the parser needs besides the environment: byte order, \<open>inet_ntop\<close>, stack contents, packets.\<close>

record parser_ctx =
  pc_endian :: endian
  pc_order :: byteorder
  pc_ntop :: "u8 list \<Rightarrow> string"
  pc_junk :: "nat \<Rightarrow> string \<times> string"
  pc_data :: "mbuf \<Rightarrow> u8 list"

definition packet_info :: "parser_ctx \<Rightarrow> mbuf list \<Rightarrow> unit io" where
  "packet_info X packets = do {
     say [] []; say [] [];
     for_each (\<lambda>(i, m). emit (reading m
         (packet_info_one (pc_endian X) (pc_order X) (pc_ntop X) (pc_junk X i) i (pc_data X m))))
       (enumerate 0 packets)
   }"

definition parser_round :: "env \<Rightarrow> parser_ctx \<Rightarrow> ptr \<Rightarrow> ptr \<Rightarrow> nat \<Rightarrow> (int + nat) io" where
  "parser_round E X rx_to_parser parse_to_tx pars_packet = do {
     packets \<leftarrow> rte_ring_dequeue_burst E rx_to_parser 32;
     pars_packet \<leftarrow> (if 0 < length packets then do {
         say ''Parser got %u packets'' [PU (length packets)];
         packet_info X packets;
         nb_tx \<leftarrow> rte_ring_enqueue_burst E parse_to_tx packets;
         ret (pars_packet + length packets)
       } else ret pars_packet);
     if 25 \<le> pars_packet then do { say ''Reached Parser limit'' []; ret (Inl 0) }
     else ret (Inr pars_packet)
   }"

definition packet_parser :: "env \<Rightarrow> parser_ctx \<Rightarrow> nat \<Rightarrow> ptr \<Rightarrow> ptr \<Rightarrow> nat \<Rightarrow> (int + nat) io" where
  "packet_parser E X lcore rx_to_parser parse_to_tx n = do {
     say ''Parser lcore: %u'' [PU lcore];
     rounds n (parser_round E X rx_to_parser parse_to_tx) 0
   }"

section \<open>The transmit core\<close>

definition transmit_round :: "env \<Rightarrow> ptr \<Rightarrow> nat \<Rightarrow> (int + nat) io" where
  "transmit_round E parse_to_tx tx_packet = do {
     packets \<leftarrow> rte_ring_dequeue_burst E parse_to_tx 32;
     if length packets = 0 then ret (Inr tx_packet) else do {
     sent \<leftarrow> rte_eth_tx_burst E 0 0 packets;
     let tx_packet = tx_packet + sent;
     say ''Sent %d Packets to NIC'' [PU tx_packet];
     for_each (\<lambda>m. rte_pktmbuf_free m) (drop sent packets);
     if 25 \<le> tx_packet then do {
       say ''Max Transmit Has been Reached: %d'' [PU tx_packet];
       ret (Inl 0)
     } else ret (Inr tx_packet)
   }}"

definition transmit_packet :: "env \<Rightarrow> nat \<Rightarrow> ptr \<Rightarrow> nat \<Rightarrow> (int + nat) io" where
  "transmit_packet E lcore parse_to_tx n = do {
     say ''TX lcore: %u'' [PU lcore];
     rounds n (transmit_round E parse_to_tx) 0
   }"

section \<open>\<open>main\<close>\<close>

text \<open>
  Line 24 of \<open>main.c\<close> lacks the closing parenthesis and semicolon of its call, so the file does not
  compile as it stands; the model is the program with the two characters added.  The second ring
  is not tested.
\<close>

definition pipeline_main :: "env \<Rightarrow> int io" where
  "pipeline_main E = do {
     say [] []; say [] [];
     r \<leftarrow> rte_eal_init E;
     if r < 0 then do { say ''EAL Initialization Failed'' []; ret 1 } else do {
     say ''Initialization Successfull'' [];
     mem_pool \<leftarrow> rte_pktmbuf_pool_create E ''MY_POOL'' 8192 250;
     if mem_pool = NULL then do { say ''Mem Pool Creation Failed'' []; ret 1 } else do {
     say ''Memory Pool Created Successfully'' [];
     r \<leftarrow> rte_eth_dev_configure E 0 4 4;
     if r < 0 then rte_exit ''Port configure failed'' [] else do {
     _ \<leftarrow> rte_eth_dev_info_get E 0;
     info \<leftarrow> output_of E (Eth (Dev_info_get 0));
     say ''Max RX queues: %u'' (map PU info);
     mbuf_pool \<leftarrow> rte_pktmbuf_pool_create E ''MBUF_POOL'' 8192 256;
     if mbuf_pool = NULL then rte_exit ''MBUF pool create failed'' [] else do {
     rx \<leftarrow> setup_rx_queues E 0 4 1024 (Port_socket 0) mbuf_pool;
     case rx of Some r \<Rightarrow> ret r | None \<Rightarrow> do {
     tx \<leftarrow> setup_tx_queues E 0 4 1024 (Port_socket 0);
     case tx of Some r \<Rightarrow> ret r | None \<Rightarrow> do {
     r \<leftarrow> rte_eth_dev_start E 0;
     if r < 0 then rte_exit ''Port start failed'' [] else do {
     rx_to_parser \<leftarrow> rte_ring_create E ''RX_TO_PARSER'' 1024;
     parse_to_tx \<leftarrow> rte_ring_create E ''PARSE_TO_TX'' 1024;
     if rx_to_parser = NULL then rte_exit ''Ring creation failed'' [] else do {
     say ''Port has Been Initialized & RING_RX Queue is being Created'' [];
     say ''Launching the Threads for RX & Parser'' [];
     say [] []; say [] [];
     rte_eal_remote_launch ''receive_packet'' 1;
     rte_eal_remote_launch ''packet_parser'' 2;
     rte_eal_remote_launch ''transmit_packet'' 3;
     rte_eal_mp_wait_lcore;
     ret 0 }}}}}}}}}"

section \<open>The three cores together\<close>

text \<open>The state of the threads: a counter while the loop runs, the return value afterwards.\<close>

record cores =
  rx_core :: "int + nat"
  parser_core :: "int + nat"
  tx_core :: "int + nat"

definition cores_start :: cores where
  "cores_start = \<lparr>rx_core = Inr 0, parser_core = Inr 0, tx_core = Inr 0\<rparr>"

text \<open>
  \<open>pipeline E X a b st tr\<close>: from the start, any interleaving of rounds of the running threads, with
  the rings \<open>a\<close> and \<open>b\<close>, can reach the state \<open>st\<close> with the trace \<open>tr\<close>.
\<close>

inductive pipeline :: "env \<Rightarrow> parser_ctx \<Rightarrow> ptr \<Rightarrow> ptr \<Rightarrow> cores \<Rightarrow> event list \<Rightarrow> bool"
  for E X a b where
  pipeline_start: "pipeline E X a b cores_start []"
| pipeline_receive:
    "pipeline E X a b st tr \<Longrightarrow> rx_core st = Inr n \<Longrightarrow>
     pipeline E X a b (st\<lparr>rx_core := result (receive_round E a n) tr\<rparr>) (final (receive_round E a n) tr)"
| pipeline_parse:
    "pipeline E X a b st tr \<Longrightarrow> parser_core st = Inr n \<Longrightarrow>
     pipeline E X a b (st\<lparr>parser_core := result (parser_round E X a b n) tr\<rparr>) (final (parser_round E X a b n) tr)"
| pipeline_transmit:
    "pipeline E X a b st tr \<Longrightarrow> tx_core st = Inr n \<Longrightarrow>
     pipeline E X a b (st\<lparr>tx_core := result (transmit_round E b n) tr\<rparr>) (final (transmit_round E b n) tr)"

text \<open>Documented behaviour of a ring: what came out so far is a prefix of what went in.\<close>

definition rings_fifo :: "ptr \<Rightarrow> ptr \<Rightarrow> event list \<Rightarrow> bool" where
  "rings_fifo a b tr \<longleftrightarrow> prefix (deq a tr) (enq a tr) \<and> prefix (deq b tr) (enq b tr)"

section \<open>What one round moves\<close>

lemma packet_info_one_prints:
  "packet_info_one e B ntop junk i d = Some es \<Longrightarrow> list_all is_print es"
  unfolding packet_info_one_def Let_def by (elim bind_SomeE if_SomeE) auto

definition info_trace :: "parser_ctx \<Rightarrow> mbuf list \<Rightarrow> event list" where
  "info_trace X packets = [Printf [] [], Printf [] []] @
     concat (map (\<lambda>(i, m). reading m
       (packet_info_one (pc_endian X) (pc_order X) (pc_ntop X) (pc_junk X i) i (pc_data X m)))
       (enumerate 0 packets))"

lemma final_packet_info: "final (packet_info X packets) h = h @ info_trace X packets"
proof -
  have "final (for_each (\<lambda>(i, m). emit (f i m)) ims) g = g @ concat (map (\<lambda>(i, m). f i m) ims)"
    for f g and ims :: "(nat \<times> mbuf) list"
    by (rule final_for_each_append) (simp split: prod.splits)
  then show ?thesis by (simp add: packet_info_def info_trace_def)
qed

text \<open>Printing packets moves none of them.\<close>

lemma queue_reading:
  assumes "\<And>es. r = Some es \<Longrightarrow> list_all is_print es"
  shows "rcvd (reading m r) = []" "deq q (reading m r) = []" "enq q (reading m r) = []"
    "sent (reading m r) = []" "freed (reading m r) = []"
proof -
  have "rcvd es = [] \<and> deq q es = [] \<and> enq q es = [] \<and> sent es = [] \<and> freed es = []"
    if "list_all is_print es" for es
    using that by (induction es) (auto simp: is_print_iff)
  with assms show "rcvd (reading m r) = []" "deq q (reading m r) = []" "enq q (reading m r) = []"
    "sent (reading m r) = []" "freed (reading m r) = []"
    by (cases r; simp add: reading_def queue_defs)+
qed

lemma queue_info_trace [simp]:
  "rcvd (info_trace X ms) = []" "deq q (info_trace X ms) = []" "enq q (info_trace X ms) = []"
  "sent (info_trace X ms) = []" "freed (info_trace X ms) = []"
proof -
  have "rcvd (concat (map (\<lambda>(i, m). reading m (f i m)) ims)) = [] \<and>
      deq q (concat (map (\<lambda>(i, m). reading m (f i m)) ims)) = [] \<and>
      enq q (concat (map (\<lambda>(i, m). reading m (f i m)) ims)) = [] \<and>
      sent (concat (map (\<lambda>(i, m). reading m (f i m)) ims)) = [] \<and>
      freed (concat (map (\<lambda>(i, m). reading m (f i m)) ims)) = []"
    if "\<And>i m es. f i m = Some es \<Longrightarrow> list_all is_print es" for f and ims :: "(nat \<times> mbuf) list"
    using that by (induction ims) (auto simp: queue_reading)
  from this [where f = "\<lambda>i m. packet_info_one (pc_endian X) (pc_order X) (pc_ntop X) (pc_junk X i) i (pc_data X m)"]
  show "rcvd (info_trace X ms) = []" "deq q (info_trace X ms) = []" "enq q (info_trace X ms) = []"
    "sent (info_trace X ms) = []" "freed (info_trace X ms) = []"
    by (simp_all add: info_trace_def packet_info_one_prints)
qed

lemma appends_stages [simp, appends_intros]:
  "appends (packet_info X ms)" "appends (receive_round E a v)" "appends (parser_round E X a b v)"
  "appends (transmit_round E b v)"
  subgoal by (simp add: appends_def final_packet_info)
  subgoal unfolding receive_round_def by (intro appends_intros)
  subgoal unfolding parser_round_def by (intro appends_intros) (simp add: appends_def final_packet_info)
  subgoal unfolding transmit_round_def by (intro appends_intros)
  done

lemma final_receive_round:
  assumes "p = burst E (length h) (Eth (Rx_burst 0 0 32))"
    and "k = counted E (length h + 1) (Ring (Ring_enqueue_burst a p))"
    and "v' = (if p = [] then v else v + k)"
  shows "final (receive_round E a v) h = h @ [Burst (Eth (Rx_burst 0 0 32)) p] @
     (if p = [] then [] else [Count (Ring (Ring_enqueue_burst a p)) k] @
        map (\<lambda>m. Did (Mem (Mbuf_free m))) (drop k p) @
        [Printf ''Received %u packets | Total %d'' [PU k, PU v']]) @
     (if 25 \<le> v' then [Printf ''Reached RX limit'' []] else [])"
    and "result (receive_round E a v) h = (if 25 \<le> v' then Inl 0 else Inr v')"
  using assms by (simp_all add: receive_round_def)

lemma final_parser_round:
  assumes "p = burst E (length h) (Ring (Ring_dequeue_burst a 32))"
    and "k = counted E (length h + 2 + length (info_trace X p)) (Ring (Ring_enqueue_burst b p))"
    and "v' = v + length p"
  shows "final (parser_round E X a b v) h = h @ [Burst (Ring (Ring_dequeue_burst a 32)) p] @
     (if p = [] then [] else Printf ''Parser got %u packets'' [PU (length p)] #
        info_trace X p @ [Count (Ring (Ring_enqueue_burst b p)) k]) @
     (if 25 \<le> v' then [Printf ''Reached Parser limit'' []] else [])"
    and "result (parser_round E X a b v) h = (if 25 \<le> v' then Inl 0 else Inr v')"
  using assms by (simp_all add: parser_round_def final_packet_info)

lemma final_transmit_round:
  assumes "p = burst E (length h) (Ring (Ring_dequeue_burst b 32))"
    and "k = counted E (length h + 1) (Eth (Tx_burst 0 0 p))"
    and "v' = v + k"
  shows "final (transmit_round E b v) h = h @ [Burst (Ring (Ring_dequeue_burst b 32)) p] @
     (if p = [] then [] else [Count (Eth (Tx_burst 0 0 p)) k,
        Printf ''Sent %d Packets to NIC'' [PU v']] @
        map (\<lambda>m. Did (Mem (Mbuf_free m))) (drop k p) @
        (if 25 \<le> v' then [Printf ''Max Transmit Has been Reached: %d'' [PU v']] else []))"
    and "result (transmit_round E b v) h = (if p \<noteq> [] \<and> 25 \<le> v' then Inl 0
       else Inr (if p = [] then v else v'))"
  using assms by (simp_all add: transmit_round_def Let_def)

lemma own_info_trace:
  assumes "set ms \<subseteq> S"
  shows "own_safe S (info_trace X ms)" and "own_after S (info_trace X ms) = S"
proof -
  let ?f = "\<lambda>(i, m). reading m
       (packet_info_one (pc_endian X) (pc_order X) (pc_ntop X) (pc_junk X i) i (pc_data X m))"
  have "own_safe S (concat (map ?f (enumerate n ms))) \<and> own_after S (concat (map ?f (enumerate n ms))) = S"
    for n
    using assms by (induction ms arbitrary: n) (simp_all add: own_reading packet_info_one_prints)
  from this [of 0]
  show "own_safe S (info_trace X ms)" and "own_after S (info_trace X ms) = S"
    by (simp_all add: info_trace_def)
qed

text \<open>The receive and the transmit core lose nothing.\<close>

interpretation rx_stage: burst_stage "\<lambda>E. receive_round E a" for a
proof unfold_locales
  fix E :: env and v :: nat
  assume "bursts_distinct E"
  then show "follows own_monitor {} (receive_round E a v) (\<lambda>_ S. S = {})"
    by (simp add: follows_def emitted_def final_receive_round [OF refl refl refl])
qed simp

interpretation tx_stage: burst_stage "\<lambda>E. transmit_round E b" for b
proof unfold_locales
  fix E :: env and v :: nat
  assume "bursts_distinct E"
  then show "follows own_monitor {} (transmit_round E b v) (\<lambda>_ S. S = {})"
    by (simp add: follows_def emitted_def final_transmit_round [OF refl refl refl])
qed simp

section \<open>Forwarding\<close>

text \<open>
  The contract of a core: in every round what it puts out is part of what it took in, in the same
  order.  Its counter has reached at least 25 when it stops, and the count is that of the packets
  it is about.
\<close>

locale forwarding_core =
  fixes body :: "env \<Rightarrow> nat \<Rightarrow> (int + nat) io"
    and ins outs counts :: "event list \<Rightarrow> mbuf list"
  assumes ins_append: "ins (xs @ ys) = ins xs @ ins ys"
    and outs_append: "outs (xs @ ys) = outs xs @ outs ys"
    and counts_append: "counts (xs @ ys) = counts xs @ counts ys"
    and ins_start: "ins [] = []" and outs_start: "outs [] = []" and counts_start: "counts [] = []"
    and body_appends: "appends (body E v)"
    and forwards: "subseq (outs (emitted (body E v) h)) (ins (emitted (body E v) h))"
    and stops: "result (body E v) h = Inl x \<Longrightarrow> x = 0"
    and counting: "takes_bounded E \<Longrightarrow> bursts_bounded E \<Longrightarrow> v < 25 \<Longrightarrow>
        let c = v + length (counts (emitted (body E v) h)) in
        c \<le> v + 32 \<and> result (body E v) h = (if 25 \<le> c then Inl 0 else Inr c)"
begin

text \<open>The count of a thread: exact and below 25 while it runs, between 25 and 56 when it has returned.\<close>

definition count_ok :: "int + nat \<Rightarrow> event list \<Rightarrow> bool" where
  "count_ok c h \<longleftrightarrow> (case c of
     Inr v \<Rightarrow> v = length (counts h) \<and> v < 25
   | Inl x \<Rightarrow> x = 0 \<and> 25 \<le> length (counts h) \<and> length (counts h) \<le> 56)"

lemma step_forwards:
  assumes "subseq (outs h) (ins h)"
  shows "subseq (outs (final (body E v) h)) (ins (final (body E v) h))"
  using assms forwards by (simp add: final_emitted [OF body_appends] ins_append outs_append list_emb_append_mono)

lemma step_counts:
  assumes "takes_bounded E" and "bursts_bounded E" and "count_ok (Inr v) h"
  shows "count_ok (result (body E v) h) (final (body E v) h)"
  using counting [OF assms(1,2), of v h] assms(3)
  by (auto simp: count_ok_def Let_def final_emitted [OF body_appends] counts_append)

text \<open>The thread alone, for any number of rounds.\<close>

lemma rounds_forward:
  assumes "subseq (outs h) (ins h)"
  shows "subseq (outs (final (rounds n (body E) v) h)) (ins (final (rounds n (body E) v) h))"
  using rounds_invariant [where I = "\<lambda>h v. subseq (outs h) (ins h)" and Q = "\<lambda>h x. subseq (outs h) (ins h)"
      and h = h and v = v and body = "body E" and n = n] assms step_forwards
  by (auto split: sum.splits)

lemma rounds_count:
  assumes "takes_bounded E" and "bursts_bounded E" and "count_ok (Inr v) h"
  shows "count_ok (result (rounds n (body E) v) h) (final (rounds n (body E) v) h)"
proof -
  have "case result (rounds n (body E) v) h of
      Inl x \<Rightarrow> count_ok (Inl x) (final (rounds n (body E) v) h)
    | Inr v' \<Rightarrow> count_ok (Inr v') (final (rounds n (body E) v) h)"
    by (rule rounds_invariant [where I = "\<lambda>h v. count_ok (Inr v) h" and Q = "\<lambda>h x. count_ok (Inl x) h"])
      (use assms step_counts in \<open>fastforce+\<close>)
  then show ?thesis by (simp split: sum.splits)
qed

text \<open>When every round counts at least one packet, the thread returns within 25 rounds.\<close>

lemma rounds_return:
  assumes "takes_bounded E" and "bursts_bounded E" and "v < 25" and "25 \<le> v + n"
    and "\<And>v h. counts (emitted (body E v) h) \<noteq> []"
  shows "result (rounds n (body E) v) h = Inl 0"
  using assms(3,4)
proof (induction n arbitrary: v h)
  case (Suc n)
  let ?c = "v + length (counts (emitted (body E v) h))"
  have "v < ?c" using assms(5) [of v h] by simp
  moreover have "result (body E v) h = (if 25 \<le> ?c then Inl 0 else Inr ?c)"
    using counting [OF assms(1,2) Suc.prems(1), of h] by (simp add: Let_def)
  moreover have "result (rounds n (body E) ?c) (final (body E v) h) = Inl 0" if "?c < 25"
    using Suc.IH [OF that] Suc.prems(2) \<open>v < ?c\<close> by simp
  ultimately show ?case by simp
qed simp

end

lemma subseq_take [simp]: "subseq (take k p) p"
  using subseq_rev_drop_many [of "take k p" "take k p" "drop k p"]
  by (metis append_take_drop_id prefixI prefix_imp_subseq)

interpretation receiver: forwarding_core "\<lambda>E. receive_round E a" rcvd "enq a" "enq a" for a
proof unfold_locales
  fix E v h
  show "subseq (enq a (emitted (receive_round E a v) h)) (rcvd (emitted (receive_round E a v) h))"
    by (simp add: emitted_def final_receive_round [OF refl refl refl])
  show "result (receive_round E a v) h = Inl x \<Longrightarrow> x = 0" for x
    by (simp add: final_receive_round [OF refl refl refl] split: if_splits)
  assume E: "takes_bounded E" "bursts_bounded E" and v: "v < 25"
  have "counted E t (Ring (Ring_enqueue_burst a p)) \<le> 32 \<and>
      min (length p) (counted E t (Ring (Ring_enqueue_burst a p))) = counted E t (Ring (Ring_enqueue_burst a p))"
    if "p = burst E t' (Eth (Rx_burst 0 0 32))" for p t t'
    using bursts_boundedD(1) [OF E(2), of t' 0 0 32] takes_boundedD(2) [OF E(1), of t a p] that by simp
  with v show "let c = v + length (enq a (emitted (receive_round E a v) h)) in
      c \<le> v + 32 \<and> result (receive_round E a v) h = (if 25 \<le> c then Inl 0 else Inr c)"
    by (simp add: emitted_def final_receive_round [OF refl refl refl] Let_def)
qed simp_all

interpretation parser: forwarding_core "\<lambda>E. parser_round E X a b" "deq a" "enq b" "deq a" for X a b
proof unfold_locales
  fix E v h
  show "subseq (enq b (emitted (parser_round E X a b v) h)) (deq a (emitted (parser_round E X a b v) h))"
    by (simp add: emitted_def final_parser_round [OF refl refl refl])
  show "result (parser_round E X a b v) h = Inl x \<Longrightarrow> x = 0" for x
    by (simp add: final_parser_round [OF refl refl refl] split: if_splits)
  assume E: "takes_bounded E" "bursts_bounded E" and v: "v < 25"
  then show "let c = v + length (deq a (emitted (parser_round E X a b v) h)) in
      c \<le> v + 32 \<and> result (parser_round E X a b v) h = (if 25 \<le> c then Inl 0 else Inr c)"
    using bursts_boundedD(2) [OF E(2), of "length h" a 32]
    by (simp add: emitted_def final_parser_round [OF refl refl refl] Let_def)
qed simp_all

interpretation transmitter: forwarding_core "\<lambda>E. transmit_round E b" "deq b" sent sent for b
proof unfold_locales
  fix E v h
  show "subseq (sent (emitted (transmit_round E b v) h)) (deq b (emitted (transmit_round E b v) h))"
    by (simp add: emitted_def final_transmit_round [OF refl refl refl])
  show "result (transmit_round E b v) h = Inl x \<Longrightarrow> x = 0" for x
    by (simp add: final_transmit_round [OF refl refl refl] split: if_splits)
  assume E: "takes_bounded E" "bursts_bounded E" and v: "v < 25"
  have "counted E t (Eth (Tx_burst 0 0 p)) \<le> 32 \<and>
      min (length p) (counted E t (Eth (Tx_burst 0 0 p))) = counted E t (Eth (Tx_burst 0 0 p))"
    if "p = burst E t' (Ring (Ring_dequeue_burst b 32))" for p t t'
    using bursts_boundedD(2) [OF E(2), of t' b 32] takes_boundedD(1) [OF E(1), of t 0 0 p] that by simp
  with v show "let c = v + length (sent (emitted (transmit_round E b v) h)) in
      c \<le> v + 32 \<and> result (transmit_round E b v) h = (if 25 \<le> c then Inl 0 else Inr c)"
    by (simp add: emitted_def final_transmit_round [OF refl refl refl] Let_def)
qed simp_all

section \<open>Invariants of the pipeline\<close>

lemma receive_flow:
  "\<exists>p k. rcvd (final (receive_round E a v) h) = rcvd h @ p \<and>
     freed (final (receive_round E a v) h) = freed h @ drop k p \<and>
     sent (final (receive_round E a v) h) = sent h \<and>
     (\<forall>r. deq r (final (receive_round E a v) h) = deq r h) \<and>
     (\<forall>r. enq r (final (receive_round E a v) h) = enq r h @ (if r = a then take k p else []))"
  unfolding final_receive_round [OF refl refl refl]
  by (rule exI [of _ "burst E (length h) (Eth (Rx_burst 0 0 32))"], rule exI) auto

lemma parser_flow:
  "\<exists>p k. rcvd (final (parser_round E X a b v) h) = rcvd h \<and>
     freed (final (parser_round E X a b v) h) = freed h \<and>
     sent (final (parser_round E X a b v) h) = sent h \<and>
     (\<forall>r. deq r (final (parser_round E X a b v) h) = deq r h @ (if r = a then p else [])) \<and>
     (\<forall>r. enq r (final (parser_round E X a b v) h) = enq r h @ (if r = b then take k p else []))"
  unfolding final_parser_round [OF refl refl refl]
  by (rule exI [of _ "burst E (length h) (Ring (Ring_dequeue_burst a 32))"], rule exI) auto

lemma transmit_flow:
  "\<exists>p k. rcvd (final (transmit_round E b v) h) = rcvd h \<and>
     freed (final (transmit_round E b v) h) = freed h @ drop k p \<and>
     sent (final (transmit_round E b v) h) = sent h @ take k p \<and>
     (\<forall>r. deq r (final (transmit_round E b v) h) = deq r h @ (if r = b then p else [])) \<and>
     (\<forall>r. enq r (final (transmit_round E b v) h) = enq r h)"
  unfolding final_transmit_round [OF refl refl refl]
  by (rule exI [of _ "burst E (length h) (Ring (Ring_dequeue_burst b 32))"], rule exI) auto

text \<open>Every core forwards in order, and what is not forwarded is freed, except by the parser.\<close>

lemma pipeline_flow:
  assumes "pipeline E X a b st tr" and "a \<noteq> b"
  shows "subseq (enq a tr) (rcvd tr) \<and> subseq (enq b tr) (deq a tr) \<and> subseq (sent tr) (deq b tr) \<and>
     mset (rcvd tr) + mset (deq b tr) = mset (freed tr) + mset (enq a tr) + mset (sent tr)"
  using assms(1)
proof induction
  case pipeline_start
  show ?case by simp
next
  case (pipeline_receive st tr n)
  obtain p k where "rcvd (final (receive_round E a n) tr) = rcvd tr @ p"
    "freed (final (receive_round E a n) tr) = freed tr @ drop k p"
    "sent (final (receive_round E a n) tr) = sent tr"
    "\<And>r. deq r (final (receive_round E a n) tr) = deq r tr"
    "\<And>r. enq r (final (receive_round E a n) tr) = enq r tr @ (if r = a then take k p else [])"
    using receive_flow [of E a n tr] by blast
  moreover have "mset p = mset (take k p) + mset (drop k p)"
    by (metis append_take_drop_id mset_append)
  ultimately show ?case
    using pipeline_receive.IH assms(2) by (simp add: list_emb_append_mono ac_simps)
next
  case (pipeline_parse st tr n)
  obtain p k where "rcvd (final (parser_round E X a b n) tr) = rcvd tr"
    "freed (final (parser_round E X a b n) tr) = freed tr"
    "sent (final (parser_round E X a b n) tr) = sent tr"
    "\<And>r. deq r (final (parser_round E X a b n) tr) = deq r tr @ (if r = a then p else [])"
    "\<And>r. enq r (final (parser_round E X a b n) tr) = enq r tr @ (if r = b then take k p else [])"
    using parser_flow [of E X a b n tr] by blast
  then show ?case
    using pipeline_parse.IH assms(2) by (simp add: list_emb_append_mono)
next
  case (pipeline_transmit st tr n)
  obtain p k where "rcvd (final (transmit_round E b n) tr) = rcvd tr"
    "freed (final (transmit_round E b n) tr) = freed tr @ drop k p"
    "sent (final (transmit_round E b n) tr) = sent tr @ take k p"
    "\<And>r. deq r (final (transmit_round E b n) tr) = deq r tr @ (if r = b then p else [])"
    "\<And>r. enq r (final (transmit_round E b n) tr) = enq r tr"
    using transmit_flow [of E b n tr] by blast
  moreover have "mset p = mset (take k p) + mset (drop k p)"
    by (metis append_take_drop_id mset_append)
  ultimately show ?case
    using pipeline_transmit.IH assms(2) by (simp add: list_emb_append_mono ac_simps)
qed

text \<open>The counters of the three threads.\<close>

lemma count_ok_cong:
  "enq a tr' = enq a tr \<Longrightarrow> receiver.count_ok a c tr' = receiver.count_ok a c tr"
  "deq a tr' = deq a tr \<Longrightarrow> parser.count_ok a c tr' = parser.count_ok a c tr"
  "sent tr' = sent tr \<Longrightarrow> transmitter.count_ok c tr' = transmitter.count_ok c tr"
  by (simp_all add: receiver.count_ok_def parser.count_ok_def transmitter.count_ok_def split: sum.split)

lemma pipeline_count_ok:
  assumes "pipeline E X a b st tr" and "a \<noteq> b" and "takes_bounded E" and "bursts_bounded E"
  shows "receiver.count_ok a (rx_core st) tr \<and> parser.count_ok a (parser_core st) tr \<and>
     transmitter.count_ok (tx_core st) tr"
  using assms(1)
proof induction
  case pipeline_start
  show ?case
    by (simp add: cores_start_def receiver.count_ok_def parser.count_ok_def transmitter.count_ok_def)
next
  case (pipeline_receive st tr n)
  have "deq a (final (receive_round E a n) tr) = deq a tr" "sent (final (receive_round E a n) tr) = sent tr"
    using receive_flow [of E a n tr] by auto
  note same = count_ok_cong(2) [OF this(1)] count_ok_cong(3) [OF this(2)]
  have "receiver.count_ok a (Inr n) tr"
    using pipeline_receive.IH pipeline_receive.hyps by simp
  from receiver.step_counts [OF assms(3,4) this] pipeline_receive.IH show ?case
    by (simp add: same)
next
  case (pipeline_parse st tr n)
  have "enq a (final (parser_round E X a b n) tr) = enq a tr" "sent (final (parser_round E X a b n) tr) = sent tr"
    using parser_flow [of E X a b n tr] assms(2) by auto
  note same = count_ok_cong(1) [OF this(1)] count_ok_cong(3) [OF this(2)]
  have "parser.count_ok a (Inr n) tr"
    using pipeline_parse.IH pipeline_parse.hyps by simp
  from parser.step_counts [OF assms(3,4) this] pipeline_parse.IH show ?case
    by (simp add: same)
next
  case (pipeline_transmit st tr n)
  have "enq a (final (transmit_round E b n) tr) = enq a tr" "deq a (final (transmit_round E b n) tr) = deq a tr"
    using transmit_flow [of E b n tr] assms(2) by auto
  note same = count_ok_cong(1) [OF this(1)] count_ok_cong(2) [OF this(2)]
  have "transmitter.count_ok (Inr n) tr"
    using pipeline_transmit.IH pipeline_transmit.hyps by simp
  from transmitter.step_counts [OF assms(3,4) this] pipeline_transmit.IH show ?case
    by (simp add: same)
qed

lemma subseq_mset: "subseq xs ys \<Longrightarrow> mset xs \<subseteq># mset ys"
  by (induction rule: list_emb.induct) (auto intro: subset_mset.order_trans)

lemma prefix_mset: "prefix xs ys \<Longrightarrow> mset ys = mset xs + mset (drop (length xs) ys)"
  by (auto simp: prefix_def)

text \<open>A run for the examples: two packets go through the three cores.\<close>

definition demo_env :: env where
  "demo_env = good_env\<lparr>burst := \<lambda>t c. [1, 2]\<rparr>"

lemma demo_env_sel [simp]:
  "burst demo_env t c = [1, 2]" "counted demo_env t (Eth (Tx_burst p q ms)) = length ms"
  "counted demo_env t (Ring (Ring_enqueue_burst r ms)) = length ms"
  by (simp_all add: demo_env_def good_env_def)

definition demo_ctx :: parser_ctx where
  "demo_ctx = \<lparr>pc_endian = Little, pc_order = x86_order, pc_ntop = (\<lambda>_. []), pc_junk = (\<lambda>_. ([], [])),
     pc_data = (\<lambda>_. [])\<rparr>"

definition demo_trace :: "event list" where
  "demo_trace = final (transmit_round demo_env 6 0) (final (parser_round demo_env demo_ctx 5 6 0)
     (final (receive_round demo_env 5 0) []))"

lemma demo_queues:
  "rcvd demo_trace = [1, 2]" "enq r demo_trace = (if r = 5 \<or> r = 6 then [1, 2] else [])"
  "deq r demo_trace = (if r = 5 \<or> r = 6 then [1, 2] else [])" "sent demo_trace = [1, 2]"
  "freed demo_trace = []"
  by (simp_all add: demo_trace_def final_transmit_round [OF refl refl refl]
      final_parser_round [OF refl refl refl] final_receive_round [OF refl refl refl])

lemma demo_run:
  "pipeline demo_env demo_ctx 5 6 \<lparr>rx_core = Inr 2, parser_core = Inr 2, tx_core = Inr 2\<rparr> demo_trace"
proof -
  let ?h1 = "final (receive_round demo_env 5 0) []"
  let ?h2 = "final (parser_round demo_env demo_ctx 5 6 0) ?h1"
  have 1: "pipeline demo_env demo_ctx 5 6 \<lparr>rx_core = Inr 2, parser_core = Inr 0, tx_core = Inr 0\<rparr> ?h1"
    using pipeline_receive [OF pipeline_start, of 0 demo_env demo_ctx 5 6]
    by (simp add: cores_start_def final_receive_round(2) [OF refl refl refl] numeral_2_eq_2)
  have 2: "pipeline demo_env demo_ctx 5 6 \<lparr>rx_core = Inr 2, parser_core = Inr 2, tx_core = Inr 0\<rparr> ?h2"
    using pipeline_parse [OF 1, of 0]
    by (simp add: final_parser_round(2) [OF refl refl refl] numeral_2_eq_2)
  show ?thesis
    using pipeline_transmit [OF 2, of 0]
    by (simp add: demo_trace_def final_transmit_round(2) [OF refl refl refl] numeral_2_eq_2)
qed

section \<open>Properties\<close>

text \<open>
  C1. However the three cores interleave and whatever the port delivers and accepts, the packets
  leave in the order in which they came, none twice; and what is freed and what is sent are
  together part of what was received, so that no packet is freed after it was sent or freed twice.
\<close>

theorem pipeline_forwards_in_order:
  assumes "pipeline E X a b st tr" and "a \<noteq> b" and "rings_fifo a b tr"
  shows "subseq (sent tr) (rcvd tr) \<and> mset (freed tr) + mset (sent tr) \<subseteq># mset (rcvd tr)"
proof
  note flow = pipeline_flow [OF assms(1,2)]
  have fifo: "prefix (deq a tr) (enq a tr)" "prefix (deq b tr) (enq b tr)"
    using assms(3) by (simp_all add: rings_fifo_def)
  note order = subseq_order.order_trans
  show "subseq (sent tr) (rcvd tr)"
    using flow fifo by (meson order prefix_imp_subseq)
  have "mset (deq b tr) \<subseteq># mset (enq a tr)"
    using flow fifo by (meson order prefix_imp_subseq subseq_mset)
  then obtain M where "mset (enq a tr) = mset (deq b tr) + M"
    by (metis mset_subset_eq_exists_conv)
  with flow show "mset (freed tr) + mset (sent tr) \<subseteq># mset (rcvd tr)"
    by (simp add: ac_simps)
qed

theorem pipeline_forwards_in_order_witness:
  "subseq (sent demo_trace) (rcvd demo_trace) \<and> length (sent demo_trace) = 2"
  using pipeline_forwards_in_order [OF demo_run] by (simp add: rings_fifo_def demo_queues)

text \<open>
  C12. Where the packets are at any moment: each received packet has been freed, has been sent, is in
  one of the rings, or has been taken by the parser and refused by the second ring.  The last are
  lost: the parser neither frees nor keeps them.
\<close>

theorem pipeline_balance:
  assumes "pipeline E X a b st tr" and "a \<noteq> b" and "rings_fifo a b tr"
  shows "mset (rcvd tr) = mset (freed tr) + mset (sent tr) +
     mset (drop (length (deq a tr)) (enq a tr)) + mset (drop (length (deq b tr)) (enq b tr)) +
     (mset (deq a tr) - mset (enq b tr))"
proof -
  note flow = pipeline_flow [OF assms(1,2)]
  have a: "mset (enq a tr) = mset (deq a tr) + mset (drop (length (deq a tr)) (enq a tr))"
    and b: "mset (enq b tr) = mset (deq b tr) + mset (drop (length (deq b tr)) (enq b tr))"
    using assms(3) by (auto simp: rings_fifo_def intro: prefix_mset)
  have "mset (enq b tr) \<subseteq># mset (deq a tr)"
    using flow by (blast intro: subseq_mset)
  then have lost: "mset (deq a tr) = mset (enq b tr) + (mset (deq a tr) - mset (enq b tr))"
    by simp
  have "mset (rcvd tr) + mset (deq b tr) = mset (freed tr) + mset (sent tr) + mset (enq a tr)"
    using flow by (simp add: ac_simps)
  also have "\<dots> = mset (freed tr) + mset (sent tr) + mset (drop (length (deq a tr)) (enq a tr)) +
      (mset (deq a tr) - mset (enq b tr)) + mset (drop (length (deq b tr)) (enq b tr)) + mset (deq b tr)"
    by (subst a, subst lost, subst b) (simp only: ac_simps)
  finally show ?thesis by (simp add: ac_simps)
qed

theorem pipeline_balance_witness:
  "mset (rcvd demo_trace) = {#1, 2#} \<and> freed demo_trace = [] \<and> sent demo_trace = [1, 2]"
  using pipeline_balance [OF demo_run] by (simp add: rings_fifo_def demo_queues)

text \<open>
  C29. In every interleaving, a core that is still running has moved fewer than 25 packets and its
  counter is exact, and a core that has returned has returned 0 after moving between 25 and 56: the
  receiver counts what the first ring took, the parser what it read, the transmitter what the port
  took.  So the transmit core does not return before 25 packets were really sent.
\<close>

theorem pipeline_counts:
  assumes "pipeline E X a b st tr" and "a \<noteq> b" and "takes_bounded E" and "bursts_bounded E"
  shows "(case rx_core st of Inr v \<Rightarrow> v = length (enq a tr) \<and> v < 25
            | Inl x \<Rightarrow> x = 0 \<and> 25 \<le> length (enq a tr) \<and> length (enq a tr) \<le> 56) \<and>
     (case parser_core st of Inr v \<Rightarrow> v = length (deq a tr) \<and> v < 25
            | Inl x \<Rightarrow> x = 0 \<and> 25 \<le> length (deq a tr) \<and> length (deq a tr) \<le> 56) \<and>
     (case tx_core st of Inr v \<Rightarrow> v = length (sent tr) \<and> v < 25
            | Inl x \<Rightarrow> x = 0 \<and> 25 \<le> length (sent tr) \<and> length (sent tr) \<le> 56)"
  using pipeline_count_ok [OF assms]
  by (simp add: receiver.count_ok_def parser.count_ok_def transmitter.count_ok_def)

theorem pipeline_counts_witness:
  "pipeline busy_env demo_ctx 5 6 (cores_start\<lparr>rx_core := Inr 2\<rparr>) (final (receive_round busy_env 5 0) []) \<and>
   length (enq 5 (final (receive_round busy_env 5 0) [])) = 2"
proof -
  have "pipeline busy_env demo_ctx 5 6 (cores_start\<lparr>rx_core := Inr 2\<rparr>) (final (receive_round busy_env 5 0) [])"
    using pipeline_receive [OF pipeline_start, of 0 busy_env demo_ctx 5 6]
    by (simp add: cores_start_def final_receive_round(2) [OF refl refl refl] numeral_2_eq_2)
  from this pipeline_counts [OF this _ busy_env_ok(3,2)] show ?thesis by simp
qed

text \<open>
  C30. The receive thread returns: if every burst brings a packet and the ring takes at least one,
  25 rounds are enough.
\<close>

theorem receive_packet_returns:
  assumes "takes_bounded E" and "bursts_bounded E"
    and "\<And>t. burst E t (Eth (Rx_burst 0 0 32)) \<noteq> []"
    and "\<And>t ms. ms \<noteq> [] \<Longrightarrow> 0 < counted E t (Ring (Ring_enqueue_burst a ms))"
  shows "result (receive_packet E lcore a 25) h = Inl 0"
proof -
  have "enq a (emitted (receive_round E a v) h) \<noteq> []" for v h
    using assms(3) [of "length h"] assms(4) [of "burst E (length h) (Eth (Rx_burst 0 0 32))" "Suc (length h)"]
    by (simp add: emitted_def final_receive_round [OF refl refl refl])
  then have "result (rounds 25 (receive_round E a) 0) g = Inl 0" for g
    by (intro receiver.rounds_return assms(1,2)) simp_all
  then show ?thesis by (simp add: receive_packet_def)
qed

theorem receive_packet_returns_witness: "result (receive_packet busy_env 1 5 25) [] = Inl 0"
  by (rule receive_packet_returns [OF busy_env_ok(3,2)]) simp_all

text \<open>
  C36. The receive and the transmit thread end every round with nothing in hand, whereas the parser
  thread forgets exactly the packets the second ring did not take.
\<close>

theorem parser_loses_refused_packets:
  assumes "bursts_distinct E" and "bursts_bounded E"
    and "p = burst E (length h) (Ring (Ring_dequeue_burst a 32))"
    and "k = counted E (length h + 2 + length (info_trace X p)) (Ring (Ring_enqueue_burst b p))"
  shows "own_after {} (emitted (parser_round E X a b v) h) = set (drop k p) \<and>
     own_after {} (emitted (rounds n (receive_round E a) w) g) = {} \<and>
     own_after {} (emitted (rounds n (transmit_round E b) w) g) = {}"
proof (intro conjI)
  have "own_after {} (emitted (parser_round E X a b v) h) = (if p = [] then {} else set p - set (take k p))"
    using own_info_trace [of p "set p" X]
    by (simp add: emitted_def final_parser_round [OF assms(3,4) refl])
  also have "\<dots> = set (drop k p)"
    using assms(1,3) by (simp add: set_minus_take)
  finally show "own_after {} (emitted (parser_round E X a b v) h) = set (drop k p)" .
qed (simp_all add: rx_stage.service_loop_safe [OF assms(1,2)] tx_stage.service_loop_safe [OF assms(1,2)])

theorem parser_loses_refused_packets_witness:
  "own_after {} (emitted (parser_round (busy_env\<lparr>counted := \<lambda>_ _. 1\<rparr>) demo_ctx 5 6 0) []) = {2}"
proof -
  let ?E = "busy_env\<lparr>counted := \<lambda>_ _. 1\<rparr>"
  have "bursts_distinct ?E" "bursts_bounded ?E"
    using busy_env_ok by (simp_all add: bursts_distinct_def bursts_bounded_def)
  from parser_loses_refused_packets [where h = "[]" and a = 5 and X = demo_ctx and b = 6 and v = 0,
      OF this refl refl]
  show ?thesis by simp
qed

end
