(* ===== verification/Acl_Firewall.thy ===== *)
theory Acl_Firewall
  imports Packet_Data Mbuf_Ownership Port_Setup
begin

text \<open>
  The two programs on the ACL library: \<open>ACL_DPDK/\<close> classifies one packet it has built itself,
  \<open>ACL_DPDK_2/\<close> is a firewall that sends back what its rules allow and frees the rest.

  The library's classification is not part of the repository.  What the programs rely on is stated
  as \<open>acl_documented\<close>: a classification answers with the \<open>userdata\<close> of the matching rule of the
  highest priority, 0 when there is none, where a field of the input (in network byte order at its
  offset) matches a value under a bit mask, a prefix length or a range.
\<close>

unbundle bit_operations_syntax

section \<open>Documented classification\<close>

definition be_nat :: "u8 list \<Rightarrow> nat" where
  "be_nat bs = foldl (\<lambda>a b. 256 * a + unat b) 0 bs"

definition field_matches :: "field_def \<Rightarrow> nat \<times> nat \<Rightarrow> u8 list \<Rightarrow> bool" where
  "field_matches fd vm d =
     (let x = be_nat (take (fd_size fd) (drop (fd_offset fd) d)); v = fst vm; m = snd vm in
      case fd_type fd of
        FIELD_BITMASK \<Rightarrow> x AND m = v AND m
      | FIELD_MASK \<Rightarrow> x div 2 ^ (8 * fd_size fd - m) = v div 2 ^ (8 * fd_size fd - m)
      | FIELD_RANGE \<Rightarrow> v \<le> x \<and> x \<le> m)"

definition rule_matches :: "field_def list \<Rightarrow> acl_rule \<Rightarrow> u8 list \<Rightarrow> bool" where
  "rule_matches defs r d = list_all2 (\<lambda>fd vm. field_matches fd vm d) defs (rule_fields r)"

definition acl_lookup :: "field_def list \<Rightarrow> acl_rule list \<Rightarrow> u8 list \<Rightarrow> nat" where
  "acl_lookup defs rules d =
     (case filter (\<lambda>r. rule_matches defs r d) rules of
        [] \<Rightarrow> 0
      | r # rs \<Rightarrow> userdata (fold (\<lambda>r best. if priority best < priority r then r else best) rs r))"

text \<open>\<open>D\<close> gives the bytes at the addresses that are classified.\<close>

definition acl_documented :: "env \<Rightarrow> (ptr \<Rightarrow> u8 list) \<Rightarrow> field_def list \<Rightarrow> acl_rule list \<Rightarrow> bool" where
  "acl_documented E D defs rules \<longleftrightarrow>
     (\<forall>t ctx m. filled E t (Acl (Acl_classify ctx m)) = [acl_lookup defs rules (D m)])"

section \<open>The rules of the programs\<close>

definition ACTION_ALLOW :: nat where "ACTION_ALLOW = 1"
definition ACTION_DROP :: nat where "ACTION_DROP = 0"

text \<open>\<open>field_defs\<close>, the same table in both programs: offsets into an IPv4 header followed by TCP.\<close>

definition PROTO :: field_def where
  "PROTO = \<lparr>fd_type = FIELD_BITMASK, fd_size = 1, fd_field_index = 0, fd_input_index = 0, fd_offset = 9\<rparr>"

definition SRC_IP :: field_def where
  "SRC_IP = \<lparr>fd_type = FIELD_MASK, fd_size = 4, fd_field_index = 1, fd_input_index = 1, fd_offset = 12\<rparr>"

definition DST_IP :: field_def where
  "DST_IP = \<lparr>fd_type = FIELD_MASK, fd_size = 4, fd_field_index = 2, fd_input_index = 2, fd_offset = 16\<rparr>"

definition SRC_PORT :: field_def where
  "SRC_PORT = \<lparr>fd_type = FIELD_RANGE, fd_size = 2, fd_field_index = 3, fd_input_index = 3, fd_offset = 20\<rparr>"

definition DST_PORT :: field_def where
  "DST_PORT = \<lparr>fd_type = FIELD_RANGE, fd_size = 2, fd_field_index = 4, fd_input_index = 4, fd_offset = 22\<rparr>"

definition field_defs :: "field_def list" where
  "field_defs = [PROTO, SRC_IP, DST_IP, SRC_PORT, DST_PORT]"

text \<open>The macro \<open>RTE_IPV4\<close> is \<open>be_word32\<close> of its four arguments.\<close>

definition demo_rules :: "acl_rule list" where
  "demo_rules =
     [\<lparr>priority = 1, category_mask = 1, userdata = ACTION_ALLOW,
       rule_fields = [(unat IPPROTO_TCP, 0xFF), (unat (be_word32 192 168 1 0), 24), (0, 0), (0, 65535), (0, 65535)]\<rparr>]"

definition fw_rules :: "acl_rule list" where
  "fw_rules =
     [\<lparr>priority = 10, category_mask = 1, userdata = ACTION_ALLOW,
       rule_fields = [(unat IPPROTO_TCP, 0xFF), (unat (be_word32 192 168 1 0), 24), (0, 0), (0, 65535), (80, 80)]\<rparr>,
      \<lparr>priority = 1, category_mask = 1, userdata = ACTION_DROP,
       rule_fields = [(0, 0), (0, 0), (0, 0), (0, 0), (0, 0)]\<rparr>]"

section \<open>\<open>ACL_DPDK/main.c\<close>\<close>

text \<open>
  The packet \<open>pkt1\<close>: zeros, then four fields are written, in the host's byte order after
  conversion.
\<close>

definition overwrite :: "nat \<Rightarrow> u8 list \<Rightarrow> u8 list \<Rightarrow> u8 list" where
  "overwrite i bs d = take i d @ bs @ drop (i + length bs) d"

definition pkt1 :: "endian \<Rightarrow> byteorder \<Rightarrow> u8 list" where
  "pkt1 e B =
     (let d = replicate (IPV4_HDR_LEN + TCP_HDR_LEN) 0;
          d = overwrite 12 (st32 e (cpu_to_be_32 B (be_word32 192 168 1 10))) d;
          d = overwrite 20 (st16 e (cpu_to_be_16 B 1234)) d;
          d = overwrite 22 (st16 e (cpu_to_be_16 B 80)) d
      in overwrite 9 [IPPROTO_TCP] d)"

text \<open>The first of the results, as the classification left it.\<close>

definition first_result :: "nat list \<Rightarrow> nat" where
  "first_result rs = (case rs of [] \<Rightarrow> 0 | r # _ \<Rightarrow> r)"

text \<open>\<open>pkt\<close> is the address of \<open>pkt1\<close>.\<close>

definition acl_demo_main :: "env \<Rightarrow> ptr \<Rightarrow> int io" where
  "acl_demo_main E pkt = do {
     r \<leftarrow> rte_eal_init E;
     if r < 0 then do { say ''error in rte_eal_init'' []; ret 1 } else do {
     acl_ctx \<leftarrow> ask_pointer E (Acl (Acl_create ''ACL_PARAM'' 10 5));
     if acl_ctx = NULL then do {
       say ''error in creating the acl context'' [];
       rte_eal_cleanup;
       ret 2
     } else do {
     r \<leftarrow> ask_status E (Acl (Acl_add_rules acl_ctx demo_rules));
     if r \<noteq> 0 then do {
       say ''some error while adding rules'' [];
       act (Acl (Acl_free acl_ctx));
       rte_eal_cleanup;
       ret 3
     } else do {
     r \<leftarrow> ask_status E (Acl (Acl_build acl_ctx 1 field_defs));
     if r \<noteq> 0 then do {
       say ''error while building acl'' [];
       act (Acl (Acl_free acl_ctx));
       rte_eal_cleanup;
       ret 4
     } else do {
     say ''ACL built successfully'' [];
     r \<leftarrow> ask_status E (Acl (Acl_classify acl_ctx pkt));
     (if r \<noteq> 0 then say ''incorrect arguments given to the classify function'' []
      else do {
        results \<leftarrow> output_of E (Acl (Acl_classify acl_ctx pkt));
        say ''value of result is %d'' [PU (first_result results)];
        (if first_result results = ACTION_ALLOW then say ''packet was allowed'' []
         else say ''packet was not allowed'' [])
      });
     act (Acl (Acl_free acl_ctx));
     rte_eal_cleanup;
     say ''closing'' [];
     ret 0
   }}}}}"

section \<open>\<open>ACL_DPDK_2/main.c\<close>\<close>

text \<open>\<open>build_acl\<close>: on an error after the creation the context is not freed.\<close>

definition build_acl :: "env \<Rightarrow> ptr io" where
  "build_acl E = do {
     ctx \<leftarrow> ask_pointer E (Acl (Acl_create ''fw_acl'' 32 5));
     if ctx = NULL then ret NULL else do {
     r \<leftarrow> ask_status E (Acl (Acl_add_rules ctx fw_rules));
     if r \<noteq> 0 then ret NULL else do {
     r \<leftarrow> ask_status E (Acl (Acl_build ctx 1 field_defs));
     if r \<noteq> 0 then ret NULL else ret ctx }}}"

text \<open>
  The classification of a burst: the result of \<open>rte_acl_classify\<close> is not tested; the buffers of
  the allowed packets are collected in \<open>tx_bufs\<close>.
\<close>

fun fw_classify :: "env \<Rightarrow> ptr \<Rightarrow> mbuf list \<Rightarrow> mbuf list \<Rightarrow> mbuf list io" where
  "fw_classify E acl [] tx_bufs = ret tx_bufs"
| "fw_classify E acl (m # rx_bufs) tx_bufs = do {
     _ \<leftarrow> ask_status E (Acl (Acl_classify acl m));
     result \<leftarrow> output_of E (Acl (Acl_classify acl m));
     if first_result result = ACTION_ALLOW then fw_classify E acl rx_bufs (tx_bufs @ [m])
     else do {
       say ''Dropping packet'' [];
       say ''--------------------------------'' [];
       rte_pktmbuf_free m;
       fw_classify E acl rx_bufs tx_bufs
     }
   }"

definition fw_round :: "env \<Rightarrow> ptr \<Rightarrow> u16 \<Rightarrow> unit \<Rightarrow> (unit + unit) io" where
  "fw_round E acl p _ = do {
     rx_bufs \<leftarrow> rte_eth_rx_burst E p 0 32;
     if rx_bufs = [] then do { sleep_us 100; ret (Inr ()) } else do {
     say ''Received %d packets'' [PU (length rx_bufs)];
     say ''--------------------------------'' [];
     tx_bufs \<leftarrow> fw_classify E acl rx_bufs [];
     if 0 < length tx_bufs then do {
       say ''Sending %d packets'' [PU (length tx_bufs)];
       say ''--------------------------------'' [];
       _ \<leftarrow> rte_eth_tx_burst E p 0 tx_bufs;
       ret (Inr ())
     } else ret (Inr ())
   }}"

text \<open>\<open>main\<close>: the signal that clears \<open>g_keep_running\<close> arrives after \<open>n\<close> rounds of \<open>firewall_loop\<close>.\<close>

definition fw_main :: "env \<Rightarrow> nat \<Rightarrow> int io" where
  "fw_main E n = do {
     r \<leftarrow> rte_eal_init E;
     if r < 0 then ret (-1) else do {
     mbuf_pool \<leftarrow> rte_pktmbuf_pool_create E ''MBUF_POOL'' 8192 256;
     if mbuf_pool = NULL then ret (-1) else do {
     count \<leftarrow> rte_eth_dev_count_avail E;
     if count < 1 then do {
       say ''Need at least 1 port. Example: --vdev=eth_af_packet0,iface=eth0'' [];
       ret (-1)
     } else do {
     r \<leftarrow> fw_port_init E 0 mbuf_pool;
     if r \<noteq> 0 then ret (-1) else do {
     acl \<leftarrow> build_acl E;
     if acl = NULL then do { say ''ACL build failed'' []; ret (-1) } else do {
     install_signal ''SIGINT'';
     say ''ACL: rx -> allow/drop -> tx allowed on port 0. Ctrl+C to stop.'' [];
     _ \<leftarrow> rounds n (fw_round E acl 0) ();
     say ''Stopping...'' [];
     act (Acl (Acl_free acl));
     rte_eth_dev_stop 0;
     rte_eal_cleanup;
     ret 0 }}}}}}"

section \<open>Lemmas\<close>

lemma take_drop_bytes:
  "i < length d \<Longrightarrow> take 1 (drop i d) = [d ! i]"
  "i + 1 < length d \<Longrightarrow> take 2 (drop i d) = [d ! i, d ! (i + 1)]"
  "i + 3 < length d \<Longrightarrow> take 4 (drop i d) = [d ! i, d ! (i + 1), d ! (i + 2), d ! (i + 3)]"
  by (simp_all add: list_eq_iff_nth_eq nth_Cons' eval_nat_numeral less_Suc_eq)

lemma be_nat_simps:
  "be_nat [a] = unat a" "be_nat [a, b] = 256 * unat a + unat b"
  "be_nat [a, b, c, x] = 256 * (256 * (256 * unat a + unat b) + unat c) + unat x"
  by (simp_all add: be_nat_def)

text \<open>The three kinds of match, on bytes.\<close>

lemma byte_mask: "unat (b :: u8) AND 255 = unat b"
proof -
  have "unat b AND 255 = take_bit 8 (unat b)"
    by (simp add: take_bit_eq_mask mask_eq_exp_minus_1)
  then show ?thesis by (simp add: take_bit_eq_mod)
qed

lemma prefix24:
  "(256 * (256 * (256 * unat a + unat b) + unat c) + unat x) div 256 =
      256 * (256 * unat (a' :: u8) + unat (b' :: u8)) + unat (c' :: u8)
   \<longleftrightarrow> a = a' \<and> b = b' \<and> c = c'"
  for a b c x :: u8
proof -
  have "(256 * k + y) div 256 = k" if "y < 256" for k y :: nat
    using that by simp
  from this [OF unat_byte_less [of x]]
  have "(256 * (256 * (256 * unat a + unat b) + unat c) + unat x) div 256 = 256 * (256 * unat a + unat b) + unat c" .
  then show ?thesis
    using base256_unique [of "256 * unat a + unat b" "unat c" "256 * unat a' + unat b'" "unat c'"]
      base256_unique [of "unat a" "unat b" "unat a'" "unat b'"]
    by (auto simp: word_unat_eq_iff)
qed

lemma be_nat_less:
  "be_nat [a, b] \<le> 65535" "be_nat [a, b, c, x] < 4294967296"
proof -
  have "be_nat [a, b] = unat (be_word16 a b)" "be_nat [a, b, c, x] = unat (be_word32 a b c x)"
    by (simp_all add: be_nat_simps)
  moreover have "unat w < 65536" for w :: u16 using unsigned_less [of w] by simp
  moreover have "unat w < 4294967296" for w :: u32 using unsigned_less [of w] by simp
  ultimately show "be_nat [a, b] \<le> 65535" "be_nat [a, b, c, x] < 4294967296"
    by (simp_all add: less_Suc_eq_le [symmetric] del: unat_be_word16 unat_be_word32)
qed

text \<open>The fields of the packets, for the values in the rules.\<close>

lemma match_proto: "24 \<le> length d \<Longrightarrow> field_matches PROTO (unat (p :: u8), 255) d \<longleftrightarrow> d ! 9 = p"
  by (simp add: field_matches_def PROTO_def take_drop_bytes(1) be_nat_simps byte_mask word_unat_eq_iff
      del: One_nat_def)

lemma match_src:
  assumes "24 \<le> length d"
  shows "field_matches SRC_IP (unat (be_word32 a b c 0), 24) d \<longleftrightarrow> d ! 12 = a \<and> d ! 13 = b \<and> d ! 14 = c"
proof -
  have "unat (be_word32 a b c 0) div 256 = 256 * (256 * unat a + unat b) + unat c"
    by simp
  moreover have "take 4 (drop 12 d) = [d ! 12, d ! 13, d ! 14, d ! 15]"
    using assms take_drop_bytes(3) [of 12 d] by simp
  moreover have "(2 :: nat) ^ (8 * 4 - 24) = 256" by simp
  ultimately show ?thesis
    by (simp only: field_matches_def SRC_IP_def field_def.simps be_nat_simps prefix24 Let_def fst_conv snd_conv
        field_type.case)
qed

lemma match_dst: "24 \<le> length d \<Longrightarrow> field_matches DST_IP (0, 0) d"
  using be_nat_less(2) by (simp add: field_matches_def DST_IP_def take_drop_bytes(3))

lemma match_ports:
  assumes "24 \<le> length d"
  shows "field_matches SRC_PORT (u, v) d \<longleftrightarrow> u \<le> be_nat [d ! 20, d ! 21] \<and> be_nat [d ! 20, d ! 21] \<le> v"
    and "field_matches DST_PORT (u, v) d \<longleftrightarrow> u \<le> be_nat [d ! 22, d ! 23] \<and> be_nat [d ! 22, d ! 23] \<le> v"
  using assms take_drop_bytes(2) [of 20 d] take_drop_bytes(2) [of 22 d]
  by (simp_all add: field_matches_def SRC_PORT_def DST_PORT_def Let_def)

lemma port_80: "80 \<le> be_nat [a, b] \<and> be_nat [a, b] \<le> 80 \<longleftrightarrow> a = 0 \<and> b = 80"
proof -
  have "80 \<le> be_nat [a, b] \<and> be_nat [a, b] \<le> 80 \<longleftrightarrow> 256 * unat a + unat b = 256 * 0 + 80"
    by (auto simp: be_nat_simps)
  also have "\<dots> \<longleftrightarrow> a = 0 \<and> b = 80"
    using base256_unique [of "unat a" "unat b" 0 80] by (auto simp: word_unat_eq_iff)
  finally show ?thesis .
qed

lemmas acl_match = match_proto match_src match_dst match_ports be_nat_less(1) port_80

text \<open>What the rules say, on bytes.\<close>

lemma demo_lookup:
  assumes "24 \<le> length d"
  shows "acl_lookup field_defs demo_rules d =
     (if d ! 9 = IPPROTO_TCP \<and> d ! 12 = 192 \<and> d ! 13 = 168 \<and> d ! 14 = 1 then ACTION_ALLOW else 0)"
  using assms
  by (simp add: acl_lookup_def rule_matches_def demo_rules_def field_defs_def acl_match del: unat_be_word32)

lemma fw_lookup:
  assumes "24 \<le> length d"
  shows "acl_lookup field_defs fw_rules d =
     (if d ! 9 = IPPROTO_TCP \<and> d ! 12 = 192 \<and> d ! 13 = 168 \<and> d ! 14 = 1 \<and> d ! 22 = 0 \<and> d ! 23 = 80
      then ACTION_ALLOW else ACTION_DROP)"
  using assms
  by (simp add: acl_lookup_def rule_matches_def fw_rules_def field_defs_def acl_match
      ACTION_DROP_def del: unat_be_word32)

section \<open>One burst of the firewall\<close>

definition allowed :: "(ptr \<Rightarrow> u8 list) \<Rightarrow> mbuf \<Rightarrow> bool" where
  "allowed D m \<longleftrightarrow> acl_lookup field_defs fw_rules (D m) = ACTION_ALLOW"

lemma acl_documentedD:
  "acl_documented E D defs rules \<Longrightarrow>
     first_result (filled E t (Acl (Acl_classify ctx m))) = acl_lookup defs rules (D m)"
  by (simp add: acl_documented_def first_result_def)

lemma verdict:
  "acl_documented E D field_defs fw_rules \<Longrightarrow>
     (first_result (filled E t (Acl (Acl_classify ctx m))) = ACTION_ALLOW) = allowed D m"
  by (simp add: acl_documentedD allowed_def)

text \<open>What the classification loop does: the allowed packets are kept, in order, the others freed.\<close>

lemma fw_classify_run:
  assumes "acl_documented E D field_defs fw_rules"
  shows "\<exists>es. final (fw_classify E acl ms acc) h = h @ es \<and>
     result (fw_classify E acl ms acc) h = acc @ filter (allowed D) ms \<and>
     freed es = filter (\<lambda>m. \<not> allowed D m) ms \<and> transmits es = [] \<and>
     (\<forall>S. set ms \<subseteq> S \<longrightarrow> distinct ms \<longrightarrow>
        own_safe S es \<and> own_after S es = S - set (filter (\<lambda>m. \<not> allowed D m) ms))"
proof (induction ms arbitrary: acc h)
  case Nil
  show ?case by simp
next
  case (Cons m ms)
  let ?st = "Status (Acl (Acl_classify acl m)) (status E (length h) (Acl (Acl_classify acl m)))"
  show ?case
  proof (cases "allowed D m")
    case True
    obtain es where es: "final (fw_classify E acl ms (acc @ [m])) (h @ [?st]) = (h @ [?st]) @ es"
      "result (fw_classify E acl ms (acc @ [m])) (h @ [?st]) = (acc @ [m]) @ filter (allowed D) ms"
      "freed es = filter (\<lambda>m. \<not> allowed D m) ms" "transmits es = []"
      "\<And>S. set ms \<subseteq> S \<Longrightarrow> distinct ms \<Longrightarrow> own_safe S es \<and>
         own_after S es = S - set (filter (\<lambda>m. \<not> allowed D m) ms)"
      using Cons.IH [of "acc @ [m]" "h @ [?st]"] by blast
    from True es show ?thesis
      by (intro exI [of _ "?st # es"]) (simp add: verdict [OF assms])
  next
    case False
    let ?h = "h @ [?st, Printf ''Dropping packet'' [], Printf ''--------------------------------'' [],
        Did (Mem (Mbuf_free m))]"
    obtain es where es: "final (fw_classify E acl ms acc) ?h = ?h @ es"
      "result (fw_classify E acl ms acc) ?h = acc @ filter (allowed D) ms"
      "freed es = filter (\<lambda>m. \<not> allowed D m) ms" "transmits es = []"
      and own: "\<And>S. set ms \<subseteq> S \<Longrightarrow> distinct ms \<Longrightarrow> own_safe S es \<and>
         own_after S es = S - set (filter (\<lambda>m. \<not> allowed D m) ms)"
      using Cons.IH [of acc ?h] by blast
    have "own_safe (S - {m}) es \<and> own_after (S - {m}) es = S - {m} - set (filter (\<lambda>m. \<not> allowed D m) ms)"
      if "set (m # ms) \<subseteq> S" "distinct (m # ms)" for S
      using that by (intro own) auto
    with False es show ?thesis
      by (intro exI [of _ "[?st, Printf ''Dropping packet'' [], Printf ''--------------------------------'' [],
          Did (Mem (Mbuf_free m))] @ es"])
        (simp add: verdict [OF assms] Diff_insert2 [symmetric])
  qed
qed

lemma fw_round_flow:
  assumes "acl_documented E D field_defs fw_rules"
    and "rx = burst E (length h) (Eth (Rx_burst p 0 32))"
  shows "\<exists>n. transmits (emitted (fw_round E acl p ()) h) =
         (if filter (allowed D) rx = [] then [] else [(filter (allowed D) rx, n)]) \<and>
       freed (emitted (fw_round E acl p ()) h) = filter (\<lambda>m. \<not> allowed D m) rx \<and>
       (distinct rx \<longrightarrow> own_safe {} (emitted (fw_round E acl p ()) h) \<and>
         own_after {} (emitted (fw_round E acl p ()) h) = set (drop n (filter (allowed D) rx)))"
proof (cases "rx = []")
  case True
  with assms(2) show ?thesis by (simp add: fw_round_def emitted_def)
next
  case False
  let ?ok = "filter (allowed D) rx"
  let ?pre = "[Burst (Eth (Rx_burst p 0 32)) rx, Printf ''Received %d packets'' [PU (length rx)],
      Printf ''--------------------------------'' []]"
  obtain es where es: "final (fw_classify E acl rx []) (h @ ?pre) = (h @ ?pre) @ es"
      "result (fw_classify E acl rx []) (h @ ?pre) = ?ok"
      "freed es = filter (\<lambda>m. \<not> allowed D m) rx" "transmits es = []"
    and own: "\<And>S. set rx \<subseteq> S \<Longrightarrow> distinct rx \<Longrightarrow> own_safe S es \<and>
         own_after S es = S - set (filter (\<lambda>m. \<not> allowed D m) rx)"
    using fw_classify_run [OF assms(1), of acl rx "[]" "h @ ?pre"] by auto
  have ok: "set rx - set (filter (\<lambda>m. \<not> allowed D m) rx) = set ?ok" by auto
  define n where "n = counted E (length h + 5 + length es) (Eth (Tx_burst p 0 ?ok))"
  have "final (fw_round E acl p ()) h = h @ ?pre @ es @
     (if ?ok = [] then [] else [Printf ''Sending %d packets'' [PU (length ?ok)],
        Printf ''--------------------------------'' [], Count (Eth (Tx_burst p 0 ?ok)) n])"
    using False assms(2) es(1,2) by (simp add: fw_round_def n_def eval_nat_numeral)
  then have em: "emitted (fw_round E acl p ()) h = ?pre @ es @
     (if ?ok = [] then [] else [Printf ''Sending %d packets'' [PU (length ?ok)],
        Printf ''--------------------------------'' [], Count (Eth (Tx_burst p 0 ?ok)) n])"
    by (simp add: emitted_def)
  have "own_safe (set rx) es \<and> own_after (set rx) es = set ?ok \<and>
      set ?ok - set (take n ?ok) = set (drop n ?ok) \<and> distinct ?ok" if "distinct rx"
    using own [OF order_refl that] ok set_minus_take [of ?ok n] that by (simp del: set_filter)
  then show ?thesis
    using es(3,4) unfolding em by (intro exI [of _ n]) (auto simp del: set_filter)
qed

text \<open>The ACL contexts created and freed.\<close>

definition acl_created :: "event list \<Rightarrow> ptr list" where
  "acl_created es = concat (map (\<lambda>e. case e of
     Pointer c p \<Rightarrow> (case c of Acl ac \<Rightarrow> if p = NULL then [] else [p] | _ \<Rightarrow> []) | _ \<Rightarrow> []) es)"

definition acl_freed :: "event list \<Rightarrow> ptr list" where
  "acl_freed es = concat (map (\<lambda>e. case e of
     Did c \<Rightarrow> (case c of Acl ac \<Rightarrow> (case ac of Acl_free p \<Rightarrow> [p] | _ \<Rightarrow> []) | _ \<Rightarrow> []) | _ \<Rightarrow> []) es)"

lemmas acl_ctx_defs = acl_created_def acl_freed_def

text \<open>The bytes of the sample packet, on either kind of host.\<close>

lemma pkt1_bytes:
  assumes "byteorder_ok e B"
  shows "pkt1 e B = replicate 9 0 @ [IPPROTO_TCP, 0, 0, 192, 168, 1, 10, 0, 0, 0, 0, 0x04, 0xD2, 0, 80]
      @ replicate 16 0"
proof -
  have 1: "(1234 :: u16) = be_word16 0x04 0xD2" and 2: "(80 :: u16) = be_word16 0 80"
    by (simp_all add: be_word16_def)
  show ?thesis
    unfolding pkt1_def 1 2 st16_cpu_to_be [OF assms] st32_cpu_to_be [OF assms]
    by (simp add: overwrite_def IPV4_HDR_LEN_def TCP_HDR_LEN_def Let_def numeral_eq_Suc)
qed

section \<open>Properties\<close>

text \<open>
  C7. One burst of the firewall: the packets its rules allow are offered to the port in the order in
  which they came, in one call, and exactly the others are freed.  The discipline of ownership is
  kept, except that the allowed packets the port does not take are neither freed nor kept.
\<close>

theorem fw_round_filters:
  assumes "acl_documented E D field_defs fw_rules" and "bursts_distinct E"
    and "rx = burst E (length h) (Eth (Rx_burst p 0 32))"
  shows "\<exists>n. transmits (emitted (fw_round E acl p ()) h) =
         (if filter (allowed D) rx = [] then [] else [(filter (allowed D) rx, n)]) \<and>
       freed (emitted (fw_round E acl p ()) h) = filter (\<lambda>m. \<not> allowed D m) rx \<and>
       own_safe {} (emitted (fw_round E acl p ()) h) \<and>
       own_after {} (emitted (fw_round E acl p ()) h) = set (drop n (filter (allowed D) rx))"
  using fw_round_flow [OF assms(1,3)] assms(2,3) by auto

theorem fw_round_filters_witness:
  "freed (emitted (fw_round (busy_env\<lparr>filled := \<lambda>_ _. [0]\<rparr>) 5 0 ()) []) = [1, 2]"
proof -
  let ?E = "busy_env\<lparr>filled := \<lambda>_ _. [0]\<rparr>"
  have drop: "acl_lookup field_defs fw_rules (replicate 24 0) = 0"
    by (subst fw_lookup) (simp_all add: ACTION_DROP_def)
  then have "acl_documented ?E (\<lambda>_. replicate 24 0) field_defs fw_rules"
    by (simp add: acl_documented_def)
  moreover have "bursts_distinct ?E"
    using busy_env_ok by (simp add: bursts_distinct_def)
  ultimately show ?thesis
    using fw_round_filters [where h = "[]" and p = 0 and acl = 5, OF _ _ refl, of ?E "\<lambda>_. replicate 24 0"] drop
    by (simp add: allowed_def ACTION_ALLOW_def)
qed

text \<open>
  C28. What the rules of the firewall mean for an IPv4 header with its TCP header: a packet is allowed
  exactly when it is TCP from 192.168.1.0/24 to port 80, and everything else is dropped.
\<close>

theorem fw_rules_policy:
  assumes "24 \<le> length d"
  shows "(acl_lookup field_defs fw_rules d = ACTION_ALLOW \<longleftrightarrow>
       d ! 9 = IPPROTO_TCP \<and> [d ! 12, d ! 13, d ! 14] = [192, 168, 1] \<and> be_word16 (d ! 22) (d ! 23) = 80) \<and>
     acl_lookup field_defs fw_rules d \<in> {ACTION_ALLOW, ACTION_DROP}"
proof -
  have "(80 :: u16) = be_word16 0 80" by (simp add: be_word16_def)
  then have "be_word16 (d ! 22) (d ! 23) = 80 \<longleftrightarrow> d ! 22 = 0 \<and> d ! 23 = 80"
    by (metis be_word16_eq_iff)
  then show ?thesis
    using assms by (simp add: fw_lookup ACTION_ALLOW_def ACTION_DROP_def)
qed

theorem fw_rules_policy_witness:
  "acl_lookup field_defs fw_rules
     [0x45, 0, 0, 40, 0, 0, 0, 0, 64, 6, 0, 0, 192, 168, 1, 10, 10, 0, 0, 1, 200, 0, 0, 80] = ACTION_ALLOW"
  by (subst fw_rules_policy [THEN conjunct1]) (simp_all add: IPPROTO_TCP_def be_word16_def)

text \<open>
  C37. But the firewall classifies from the start of the frame, not of the IP header, so that the
  fields are read 14 bytes too early.  Every IPv4 frame is dropped, also one whose packet the
  rules allow: nothing is sent, everything is freed.
\<close>

theorem fw_drops_every_ipv4_frame:
  assumes "acl_documented E D field_defs fw_rules"
    and "\<And>m. m \<in> set (burst E (length h) (Eth (Rx_burst p 0 32))) \<Longrightarrow>
           24 \<le> length (D m) \<and> D m ! 12 = 0x08 \<and> D m ! 13 = 0x00"
  shows "transmits (emitted (fw_round E acl p ()) h) = [] \<and>
     freed (emitted (fw_round E acl p ()) h) = burst E (length h) (Eth (Rx_burst p 0 32))"
proof -
  let ?rx = "burst E (length h) (Eth (Rx_burst p 0 32))"
  have "\<not> allowed D m" if "m \<in> set ?rx" for m
    using assms(2) [OF that] by (simp add: allowed_def fw_lookup ACTION_ALLOW_def ACTION_DROP_def)
  then have "filter (allowed D) ?rx = []" "filter (\<lambda>m. \<not> allowed D m) ?rx = ?rx"
    by (simp_all add: filter_empty_conv filter_id_conv)
  then show ?thesis
    using fw_round_flow [OF assms(1) refl, where h = h and p = p and acl = acl] by auto
qed

theorem fw_drops_every_ipv4_frame_witness:
  "\<exists>d. acl_lookup field_defs fw_rules (drop 14 d) = ACTION_ALLOW \<and>
     freed (emitted (fw_round (busy_env\<lparr>filled := \<lambda>_ _. [0]\<rparr>) 5 0 ()) []) = [1, 2]"
proof -
  let ?d = "[2, 0, 0, 0, 0, 1, 2, 0, 0, 0, 0, 2, 8, 0, 0x45, 0, 0, 40, 0, 0, 0, 0, 64, 6, 0, 0,
      192, 168, 1, 10, 10, 0, 0, 1, 200, 0, 0, 80] :: u8 list"
  let ?E = "busy_env\<lparr>filled := \<lambda>_ _. [0]\<rparr>"
  have "acl_lookup field_defs fw_rules ?d = 0" "acl_lookup field_defs fw_rules (drop 14 ?d) = ACTION_ALLOW"
    by (simp_all add: fw_lookup ACTION_DROP_def IPPROTO_TCP_def)
  moreover from this have "acl_documented ?E (\<lambda>_. ?d) field_defs fw_rules"
    by (simp add: acl_documented_def)
  from fw_drops_every_ipv4_frame [OF this, of "[]" 0 5]
  have "freed (emitted (fw_round ?E 5 0 ()) []) = [1, 2]" by simp
  ultimately show ?thesis by blast
qed

text \<open>
  The program of \<open>ACL_DPDK/\<close> frees its ACL context exactly once on every path after the creation,
  whatever the library answers; and when every call succeeds it reports that its packet, TCP from
  192.168.1.10, is allowed, on a host of either byte order.
\<close>

theorem acl_demo_allows_and_frees:
  assumes "byteorder_ok e B" and "acl_documented E (\<lambda>_. pkt1 e B) field_defs demo_rules"
  shows "acl_freed (final (acl_demo_main E pkt) []) = acl_created (final (acl_demo_main E pkt) []) \<and>
     result (acl_demo_main E pkt) [] \<in> {0, 1, 2, 3, 4} \<and>
     (result (acl_demo_main E pkt) [] = 0 \<longrightarrow>
        Printf ''packet was allowed'' [] \<in> set (final (acl_demo_main E pkt) []) \<or>
        Printf ''incorrect arguments given to the classify function'' [] \<in> set (final (acl_demo_main E pkt) []))"
proof -
  have "acl_lookup field_defs demo_rules (pkt1 e B) = ACTION_ALLOW"
    by (simp add: pkt1_bytes [OF assms(1)] demo_lookup nth_append)
  then have v: "first_result (filled E t (Acl (Acl_classify ctx m))) = ACTION_ALLOW" for t ctx m
    using acl_documentedD [OF assms(2)] by simp
  show ?thesis
    by (simp add: acl_demo_main_def acl_ctx_defs v)
qed

theorem acl_demo_allows_and_frees_witness:
  "acl_freed (final (acl_demo_main (good_env\<lparr>filled := \<lambda>_ _. [1]\<rparr>) 9) []) = [1] \<and>
   Printf ''packet was allowed'' [] \<in> set (final (acl_demo_main (good_env\<lparr>filled := \<lambda>_ _. [1]\<rparr>) 9) [])"
proof -
  let ?E = "good_env\<lparr>filled := \<lambda>_ _. [1]\<rparr>"
  have doc: "acl_documented ?E (\<lambda>_. pkt1 Little x86_order) field_defs demo_rules"
    by (simp add: acl_documented_def demo_lookup pkt1_bytes [OF x86_order_ok] nth_append ACTION_ALLOW_def)
  have "result (acl_demo_main ?E 9) [] = 0" "acl_created (final (acl_demo_main ?E 9) []) = [1]"
    "Printf ''incorrect arguments given to the classify function'' [] \<notin> set (final (acl_demo_main ?E 9) [])"
    by (simp_all add: acl_demo_main_def acl_ctx_defs good_env_def NULL_def first_result_def ACTION_ALLOW_def)
  with acl_demo_allows_and_frees [OF x86_order_ok doc, of 9] show ?thesis by simp
qed

end
