(* ===== verification/Eventdev_Parsing.thy ===== *)
theory Eventdev_Parsing
  imports Packet_Data Mbuf_Ownership Port_Setup
begin

text \<open>
  The program \<open>eventdev_packet_parsing/\<close>: one core receives packets and enqueues them as events, one
  dequeues, prints and frees them (\<open>parse.c\<close>), one is meant to drop the IPv6 packets.  The event
  device is outside of the repository; the rule that an event is released on the port it was
  dequeued from is the monitor \<open>evd_monitor\<close>.
\<close>

section \<open>\<open>parse.c\<close>\<close>

text \<open>
  What the parsing needs from outside: the byte order of the host, \<open>inet_ntop\<close> for IPv6 addresses,
  the contents of the unwritten array \<open>src\<close> or \<open>dst\<close>, and the bit field \<open>version\<close> of DPDK's IPv6
  header as a function of the first four bytes of the header.
\<close>

record parse_ctx =
  pe_endian :: endian
  pe_order :: byteorder
  pe_ntop6 :: "u8 list \<Rightarrow> string"
  pe_junk :: string
  pe_version :: "u8 list \<Rightarrow> u8"

definition print_ipv4_address :: "u32 \<Rightarrow> event list" where
  "print_ipv4_address addr = [Printf ''%u.%u.%u.%u'' (dotted addr)]"

definition parse_TCP :: "parse_ctx \<Rightarrow> u8 list \<Rightarrow> nat \<Rightarrow> event list option" where
  "parse_TCP C d off = do {
     src \<leftarrow> get16 (pe_endian C) d off;
     dst \<leftarrow> get16 (pe_endian C) d (off + 2);
     seq \<leftarrow> get32 (pe_endian C) d (off + 4);
     Some [Printf ''the source port is : %u'' [PU (unat (be_to_cpu_16 (pe_order C) src))],
           Printf ''the destination port is : %u'' [PU (unat (be_to_cpu_16 (pe_order C) dst))],
           Printf ''TCP sequence number: %u'' [PU (unat (be_to_cpu_32 (pe_order C) seq))]]
   }"

definition parse_UDP :: "parse_ctx \<Rightarrow> u8 list \<Rightarrow> nat \<Rightarrow> event list option" where
  "parse_UDP C d off = do {
     src \<leftarrow> get16 (pe_endian C) d off;
     dst \<leftarrow> get16 (pe_endian C) d (off + 2);
     Some [Printf ''the source port is %u'' [PU (unat (be_to_cpu_16 (pe_order C) src))],
           Printf ''the destination port is %u'' [PU (unat (be_to_cpu_16 (pe_order C) dst))]]
   }"

definition parse_l4 :: "parse_ctx \<Rightarrow> u8 list \<Rightarrow> u8 \<Rightarrow> nat \<Rightarrow> event list option" where
  "parse_l4 C d proto off =
     (if proto = IPPROTO_TCP then map_option (\<lambda>es. Printf ''TCP'' [] # es) (parse_TCP C d off)
      else if proto = IPPROTO_UDP then map_option (\<lambda>es. Printf ''UDP'' [] # es) (parse_UDP C d off)
      else Some [Printf ''unknown'' []])"

text \<open>\<open>ipv4_parsing\<close> of the header at \<open>offset\<close>.\<close>

definition ipv4_parsing :: "parse_ctx \<Rightarrow> u8 list \<Rightarrow> nat \<Rightarrow> event list option" where
  "ipv4_parsing C d offset = do {
     src \<leftarrow> get32 (pe_endian C) d (offset + 12);
     dst \<leftarrow> get32 (pe_endian C) d (offset + 16);
     version_ihl \<leftarrow> get8 d offset;
     proto \<leftarrow> get8 d (offset + 9);
     let ihl = unat (version_ihl AND 0x0F) * 4;
     l4 \<leftarrow> parse_l4 C d proto (offset + ihl);
     Some ([Printf ''source address : '' []] @ print_ipv4_address (be_to_cpu_32 (pe_order C) src) @
           [Printf ''destination address :'' []] @ print_ipv4_address (be_to_cpu_32 (pe_order C) dst) @
           [Printf ''the next header is for protocol: '' []] @ l4)
   }"

text \<open>
  \<open>ipv6_parsing\<close>: the address is written into an array of 16 characters, and only when it fits with
  its terminator, as \<open>inet_ntop\<close> is documented.  The offset of the next header is computed from
  the version field.
\<close>

definition ntop6_into :: "parse_ctx \<Rightarrow> u8 list \<Rightarrow> string" where
  "ntop6_into C a = (if length (pe_ntop6 C a) < 16 then pe_ntop6 C a else pe_junk C)"

definition ipv6_parsing :: "parse_ctx \<Rightarrow> u8 list \<Rightarrow> nat \<Rightarrow> event list option" where
  "ipv6_parsing C d offset = do {
     src \<leftarrow> get_bytes d (offset + 8) 16;
     dst \<leftarrow> get_bytes d (offset + 24) 16;
     vtc \<leftarrow> get_bytes d offset 4;
     proto \<leftarrow> get8 d (offset + 6);
     let ihl = unat (pe_version C vtc AND 0x0F) * 4;
     l4 \<leftarrow> parse_l4 C d proto (offset + ihl);
     Some ([Printf ''source IP address is : %s'' [PS (ntop6_into C src)],
            Printf ''Destination IP address is : %s'' [PS (ntop6_into C dst)],
            Printf ''the next header is for protocol: '' []] @ l4)
   }"

text \<open>The loop that prints a MAC address with its separators.\<close>

definition print_mac :: "u8 list \<Rightarrow> event list" where
  "print_mac bs = concat (map (\<lambda>i. Printf ''%02x'' [PU (unat (bs ! i))] #
      (if i < 5 then [Printf '':'' []] else [])) [0..<6])"

text \<open>\<open>parsing_logic\<close>: what is printed and the result, 4, 6 or 0.\<close>

definition ip_type_of :: "parse_ctx \<Rightarrow> u16 \<Rightarrow> nat" where
  "ip_type_of C w =
     (if w = cpu_to_be_16 (pe_order C) RTE_ETHER_TYPE_IPV4 then 4
      else if w = cpu_to_be_16 (pe_order C) RTE_ETHER_TYPE_IPV6 then 6 else 0)"

definition parsing_logic :: "parse_ctx \<Rightarrow> u8 list \<Rightarrow> bool \<Rightarrow> (event list \<times> nat) option" where
  "parsing_logic C d type_finder = do {
     w \<leftarrow> get16 (pe_endian C) d 12;
     let ip_type = ip_type_of C w;
     if type_finder then Some ([], ip_type) else do {
     src \<leftarrow> get_bytes d 6 6;
     dst \<leftarrow> get_bytes d 0 6;
     let l2 = [Printf ''Source MAC address:'' []] @ print_mac src @ [Printf [] []] @
              [Printf ''Destination MAC address:'' []] @ print_mac dst @ [Printf [] []] @
              [if ip_type = 4 then Printf ''IP : IPV4'' [] else Printf ''IP: IPV6'' []];
     l3 \<leftarrow> (if ip_type = 4 then ipv4_parsing C d ETHER_HDR_LEN
             else if ip_type = 6 then ipv6_parsing C d ETHER_HDR_LEN
             else Some [Printf ''Unknown EtherType'' []]);
     Some (l2 @ l3, ip_type) }}"

section \<open>The handlers\<close>

text \<open>
  \<open>receive_handler\<close>: an event that is not taken is not tried again, and the success message is
  printed all the same.  The loop variable is \<open>nb_rx\<close>.
\<close>

definition receive_handler_round :: "env \<Rightarrow> nat \<Rightarrow> (int + nat) io" where
  "receive_handler_round E nb_rx = do {
     buf \<leftarrow> rte_eth_rx_burst E 0 0 32;
     if buf = [] then ret (Inr nb_rx) else do {
     for_each (\<lambda>m. do {
         r \<leftarrow> rte_event_enqueue E 0 0 0 m;
         (if r \<le> 0 then rte_pause else ret ());
         say ''Event enqueued'' []
       }) buf;
     ret (Inr (nb_rx + length buf)) }}"

definition transmit_handler_round :: "env \<Rightarrow> parse_ctx \<Rightarrow> (mbuf \<Rightarrow> u8 list) \<Rightarrow> unit \<Rightarrow> (int + unit) io" where
  "transmit_handler_round E C D _ = do {
     out \<leftarrow> rte_event_dequeue E 0 1 1;
     case out of [] \<Rightarrow> ret (Inr ())
     | packet # _ \<Rightarrow> do {
         say ''received mbuf from ipv4 queue'' [];
         emit (reading packet (map_option fst (parsing_logic C (D packet) False)));
         r \<leftarrow> rte_event_release E 0 1 packet;
         (if r < 1 then say ''failed to release ipv4 event'' [] else ret ());
         rte_pktmbuf_free packet;
         ret (Inr ()) }}"

text \<open>\<open>drop_handler\<close> dequeues on port 1 and releases on port 2; the loop variable is \<open>num_drops\<close>.\<close>

definition drop_handler_round :: "env \<Rightarrow> nat \<Rightarrow> (int + nat) io" where
  "drop_handler_round E num_drops = do {
     out \<leftarrow> rte_event_dequeue E 0 1 1;
     case out of [] \<Rightarrow> ret (Inr num_drops)
     | packet # _ \<Rightarrow> do {
         say ''received mbuf from ipv6 queue, now dropping'' [];
         r \<leftarrow> rte_event_release E 0 2 packet;
         (if r < 1 then say ''some problem while trying to enqueue the released event in ipv6 drop'' []
          else ret ());
         rte_pktmbuf_free packet;
         ret (Inr (num_drops + 1)) }}"

section \<open>\<open>main\<close>\<close>

text \<open>Up to the launch of the handlers; \<open>Some r\<close> when the process has ended with \<open>r\<close>.\<close>

definition leave :: "string \<Rightarrow> int option io" where
  "leave msg = do { say msg []; ret (Some 1) }"

definition evp_setup :: "env \<Rightarrow> int option io" where
  "evp_setup E = do {
     r \<leftarrow> rte_eal_init E;
     if r < 0 then leave ''Error in EAL Init'' else do {
     _ \<leftarrow> evp_port_init E;
     r \<leftarrow> ask_status E (Evd (Evd_configure 0 2 3));
     if r < 0 then leave ''Error in Configuring the device'' else do {
     r \<leftarrow> ask_status E (Evd (Evd_queue_setup 0 0));
     if r < 0 then rte_exit ''rx_parse Queue setup failed'' [] \<bind> (\<lambda>x. ret (Some x)) else do {
     r \<leftarrow> ask_status E (Evd (Evd_queue_setup 0 1));
     if r < 0 then rte_exit ''prase_tx Queue setup failed'' [] \<bind> (\<lambda>x. ret (Some x)) else do {
     say ''Event dev queue has been Configured'' [];
     r \<leftarrow> ask_status E (Evd (Evd_port_setup 0 0));
     if r < 0 then leave ''Error in Reecive Port Configure'' else do {
     r \<leftarrow> ask_status E (Evd (Evd_port_setup 0 1));
     if r < 0 then leave ''Error in Parse Port Configure'' else do {
     r \<leftarrow> ask_status E (Evd (Evd_port_setup 0 2));
     if r < 0 then leave ''Error in Transmit Port Configure'' else do {
     say ''Event Port Created'' [];
     r \<leftarrow> ask_status E (Evd (Evd_port_link 0 1 [0]));
     (if r < 0 then say ''ipv4 port linking failed'' [] else ret ());
     r \<leftarrow> ask_status E (Evd (Evd_port_link 0 2 [1]));
     (if r < 0 then say ''ipv6 port linking failed'' [] else ret ());
     say ''Ports linked'' [];
     r \<leftarrow> ask_status E (Evd (Evd_start 0));
     if r < 0 then leave ''Error in Starting the Event Dev'' else do {
     say ''Device Started'' [];
     rte_eal_remote_launch ''receive_handler'' 2;
     rte_eal_remote_launch ''transmit_handler'' 3;
     rte_eal_remote_launch ''drop_handler'' 4;
     ret None }}}}}}}}}"

definition evp_finish :: "int option io" where
  "evp_finish = do {
     act (Evd (Evd_stop 0));
     act (Evd (Evd_close 0));
     say ''Closed Event Dev'' [];
     rte_eal_cleanup;
     say ''cleanup EAL'' [];
     ret (Some 0) }"

text \<open>
  The handlers run on cores 2, 3 and 4, as far as these are worker cores; a launch on another
  core starts no handler, and the code does not look at its result.  A handler is an endless loop, and
  \<open>evp_serve\<close> lets the handlers of the given cores take one round after another, in that order, with
  their counters \<open>nb_rx\<close> and \<open>num_drops\<close>.
\<close>

definition runs_handler :: "nat \<Rightarrow> bool" where
  "runs_handler c \<longleftrightarrow> c = 2 \<or> c = 3 \<or> c = 4"

definition counter_after :: "nat \<Rightarrow> int + nat \<Rightarrow> nat" where
  "counter_after k r = (case r of Inr k' \<Rightarrow> k' | Inl x \<Rightarrow> k)"

fun evp_serve :: "env \<Rightarrow> parse_ctx \<Rightarrow> (mbuf \<Rightarrow> u8 list) \<Rightarrow> nat list \<Rightarrow> nat \<Rightarrow> nat \<Rightarrow> unit io" where
  "evp_serve E C D [] nb_rx num_drops = ret ()"
| "evp_serve E C D (c # cs) nb_rx num_drops =
     (if c = 2 then do {
        r \<leftarrow> receive_handler_round E nb_rx;
        evp_serve E C D cs (counter_after nb_rx r) num_drops }
      else if c = 3 then do {
        r \<leftarrow> transmit_handler_round E C D ();
        evp_serve E C D cs nb_rx num_drops }
      else if c = 4 then do {
        r \<leftarrow> drop_handler_round E num_drops;
        evp_serve E C D cs nb_rx (counter_after num_drops r) }
      else evp_serve E C D cs nb_rx num_drops)"

text \<open>
  The whole program: \<open>main\<close> waits for the worker cores in turn and never gets past one that runs a
  handler, so it stops and closes the device only if none does.  \<open>None\<close>: it still waits while
  the handlers have taken the rounds of \<open>sched\<close>.
\<close>

definition evp_main :: "env \<Rightarrow> parse_ctx \<Rightarrow> (mbuf \<Rightarrow> u8 list) \<Rightarrow> nat list \<Rightarrow> nat list \<Rightarrow> int option io" where
  "evp_main E C D workers sched = do {
     stop \<leftarrow> evp_setup E;
     case stop of Some x \<Rightarrow> ret (Some x) | None \<Rightarrow> do {
     for_each (\<lambda>lcore. act (Eal (Wait_lcore lcore))) (takeWhile (\<lambda>c. \<not> runs_handler c) workers);
     if list_ex runs_handler workers
     then do { evp_serve E C D (filter (\<lambda>c. c \<in> set workers) sched) 0 0; ret None }
     else evp_finish } }"

section \<open>Lemmas about the parsing\<close>

lemma parse_TCP_Some:
  assumes "byteorder_ok (pe_endian C) (pe_order C)" and "off + 8 \<le> length d"
  shows "parse_TCP C d off = Some
     [Printf ''the source port is : %u'' [PU (256 * unat (d ! off) + unat (d ! (off + 1)))],
      Printf ''the destination port is : %u'' [PU (256 * unat (d ! (off + 2)) + unat (d ! (off + 3)))],
      Printf ''TCP sequence number: %u'' [PU (2 ^ 24 * unat (d ! (off + 4)) + 2 ^ 16 * unat (d ! (off + 5))
        + 256 * unat (d ! (off + 6)) + unat (d ! (off + 7)))]]"
proof -
  have "parse_TCP C d off = Some
     [Printf ''the source port is : %u'' [PU (unat (be_to_cpu_16 (pe_order C)
        (ld16 (pe_endian C) (d ! off) (d ! (off + 1)))))],
      Printf ''the destination port is : %u'' [PU (unat (be_to_cpu_16 (pe_order C)
        (ld16 (pe_endian C) (d ! (off + 2)) (d ! (off + 3)))))],
      Printf ''TCP sequence number: %u'' [PU (unat (be_to_cpu_32 (pe_order C)
        (ld32 (pe_endian C) (d ! (off + 4)) (d ! (off + 5)) (d ! (off + 6)) (d ! (off + 7)))))]]"
    using assms(2) by (simp add: parse_TCP_def get_defs eval_nat_numeral)
  then show ?thesis by (simp add: assms(1))
qed

lemma parse_prints:
  "parse_l4 C d proto off = Some es \<Longrightarrow> list_all is_print es"
  "ipv4_parsing C d off = Some es \<Longrightarrow> list_all is_print es"
  "ipv6_parsing C d off = Some es \<Longrightarrow> list_all is_print es"
proof -
  have tcp: "parse_TCP C d off = Some es \<Longrightarrow> list_all is_print es" for off es
    by (auto simp: parse_TCP_def split: Option.bind_splits)
  have udp: "parse_UDP C d off = Some es \<Longrightarrow> list_all is_print es" for off es
    by (auto simp: parse_UDP_def split: Option.bind_splits)
  have l4: "parse_l4 C d proto off = Some es \<Longrightarrow> list_all is_print es" for proto off es
    by (auto simp: parse_l4_def dest: tcp udp split: if_splits)
  then show "parse_l4 C d proto off = Some es \<Longrightarrow> list_all is_print es" .
  show "ipv4_parsing C d off = Some es \<Longrightarrow> list_all is_print es"
    unfolding ipv4_parsing_def Let_def by (elim bind_SomeE) (auto simp: print_ipv4_address_def dest: l4)
  show "ipv6_parsing C d off = Some es \<Longrightarrow> list_all is_print es"
    unfolding ipv6_parsing_def Let_def by (elim bind_SomeE) (auto dest: l4)
qed

lemma print_mac_prints: "list_all is_print (print_mac bs)"
  by (simp add: print_mac_def list_all_iff)

lemma parsing_logic_prints:
  "map_option fst (parsing_logic C d tf) = Some es \<Longrightarrow> list_all is_print es"
proof -
  assume "map_option fst (parsing_logic C d tf) = Some es"
  then obtain n where "parsing_logic C d tf = Some (es, n)" by auto
  then show ?thesis
    unfolding parsing_logic_def Let_def
    by (elim bind_SomeE if_SomeE) (auto simp: print_mac_prints dest: parse_prints)
qed

section \<open>Ownership in the handlers\<close>

lemma transmit_handler_appends [simp, appends_intros]: "appends (transmit_handler_round E C D v)"
  unfolding transmit_handler_round_def by (intro appends_intros)

lemma drop_handler_appends [simp, appends_intros]: "appends (drop_handler_round E v)"
  unfolding drop_handler_round_def by (intro appends_intros)

text \<open>What one packet adds to the trace of the transmit handler.\<close>

definition transmit_trace :: "env \<Rightarrow> parse_ctx \<Rightarrow> (mbuf \<Rightarrow> u8 list) \<Rightarrow> mbuf \<Rightarrow> int \<Rightarrow> event list" where
  "transmit_trace E C D m r = Printf ''received mbuf from ipv4 queue'' [] #
     reading m (map_option fst (parsing_logic C (D m) False)) @
     [Status (Evd (Evd_release 0 1 m)) r] @
     (if r < 1 then [Printf ''failed to release ipv4 event'' []] else []) @ [Did (Mem (Mbuf_free m))]"

lemma final_transmit_handler_round:
  assumes "out = burst E (length h) (Evd (Evd_dequeue 0 1 1))"
  shows "\<exists>r. final (transmit_handler_round E C D v) h = h @ Burst (Evd (Evd_dequeue 0 1 1)) out #
     (case out of [] \<Rightarrow> [] | m # _ \<Rightarrow> transmit_trace E C D m r)"
proof (cases out)
  case Nil
  with assms show ?thesis by (simp add: transmit_handler_round_def)
next
  case (Cons m ms)
  have "burst E (length h) (Evd (Evd_dequeue 0 1 1)) = m # ms"
    using assms Cons by simp
  then show ?thesis
    unfolding Cons transmit_handler_round_def transmit_trace_def
    by (intro exI [of _ "status E (length h + 2 + length (reading m (map_option fst (parsing_logic C (D m) False))))
        (Evd (Evd_release 0 1 m))"]) simp
qed

lemma own_transmit_trace:
  "m \<in> S \<Longrightarrow> own_safe S (transmit_trace E C D m r) \<and> own_after S (transmit_trace E C D m r) = S - {m}"
  using own_reading [of m S "map_option fst (parsing_logic C (D m) False)"] parsing_logic_prints
  by (simp add: transmit_trace_def)

lemma at_most_one: "length xs \<le> 1 \<Longrightarrow> xs = [] \<or> (\<exists>x. xs = [x])"
  by (cases xs) auto

interpretation transmit_stage: burst_stage "\<lambda>E. transmit_handler_round E C D" for C D
proof unfold_locales
  fix E :: env and v :: unit
  assume b: "bursts_bounded E"
  have "own_safe {} (emitted (transmit_handler_round E C D v) h) \<and>
      own_after {} (emitted (transmit_handler_round E C D v) h) = {}" for h
  proof -
    let ?out = "burst E (length h) (Evd (Evd_dequeue 0 1 1))"
    obtain r where "final (transmit_handler_round E C D v) h = h @ Burst (Evd (Evd_dequeue 0 1 1)) ?out #
       (case ?out of [] \<Rightarrow> [] | m # _ \<Rightarrow> transmit_trace E C D m r)"
      using final_transmit_handler_round [OF refl] by blast
    moreover have "?out = [] \<or> (\<exists>m. ?out = [m])"
      using b by (intro at_most_one bursts_boundedD)
    ultimately show ?thesis
      using own_transmit_trace [of _ _ E C D r] by (auto simp: emitted_def)
  qed
  then show "follows own_monitor {} (transmit_handler_round E C D v) (\<lambda>_ S. S = {})"
    by (simp add: follows_def)
qed simp

text \<open>The packets whose event the device did not take.\<close>

definition refused :: "event list \<Rightarrow> mbuf list" where
  "refused es = concat (map (\<lambda>e. case e of
     Status c r \<Rightarrow> (case c of Evd ec \<Rightarrow>
       (case ec of Evd_enqueue d p q m \<Rightarrow> if r = 1 then [] else [m] | _ \<Rightarrow> []) | _ \<Rightarrow> [])
   | _ \<Rightarrow> []) es)"

definition said :: "string \<Rightarrow> event list \<Rightarrow> nat" where
  "said msg es = length (filter (\<lambda>e. e = Printf msg []) es)"

lemma enqueue_loop_run:
  "\<exists>es. final (for_each (\<lambda>m. do {
         r \<leftarrow> rte_event_enqueue E 0 0 0 m;
         (if r \<le> 0 then rte_pause else ret ());
         say ''Event enqueued'' [] }) ms) h = h @ es \<and>
     said ''Event enqueued'' es = length ms \<and> freed es = [] \<and> set (refused es) \<subseteq> set ms \<and>
     (\<forall>S. set ms \<subseteq> S \<longrightarrow> distinct ms \<longrightarrow>
        own_safe S es \<and> own_after S es = S - set ms \<union> set (refused es))"
proof (induction ms arbitrary: h)
  case Nil
  show ?case by (simp add: said_def refused_def)
next
  case (Cons m ms)
  define r where "r = status E (length h) (Evd (Evd_enqueue 0 0 0 m))"
  let ?e = "[Status (Evd (Evd_enqueue 0 0 0 m)) r] @ (if r \<le> 0 then [Did (Eal Pause)] else []) @
      [Printf ''Event enqueued'' []]"
  obtain es where es: "final (for_each (\<lambda>m. do {
         r \<leftarrow> rte_event_enqueue E 0 0 0 m;
         (if r \<le> 0 then rte_pause else ret ());
         say ''Event enqueued'' [] }) ms) (h @ ?e) = (h @ ?e) @ es"
     "said ''Event enqueued'' es = length ms" "freed es = []" "set (refused es) \<subseteq> set ms"
     and own: "\<And>S. set ms \<subseteq> S \<Longrightarrow> distinct ms \<Longrightarrow>
        own_safe S es \<and> own_after S es = S - set ms \<union> set (refused es)"
    using Cons.IH [of "h @ ?e"] by blast
  have refused: "set (refused (?e @ es)) = (if r = 1 then {} else {m}) \<union> set (refused es)"
    by (simp add: refused_def)
  have "own_safe S (?e @ es) \<and> own_after S (?e @ es) = S - set (m # ms) \<union> set (refused (?e @ es))"
    if "set (m # ms) \<subseteq> S" "distinct (m # ms)" for S
  proof -
    let ?S = "if r = 1 then S - {m} else S"
    have "own_safe S ?e \<and> own_after S ?e = ?S" using that by simp
    moreover have "own_safe ?S es \<and> own_after ?S es = ?S - set ms \<union> set (refused es)"
      using that by (intro own) auto
    moreover have "?S - set ms \<union> set (refused es) = S - set (m # ms) \<union> set (refused (?e @ es))"
      unfolding refused using that es(4) by auto
    ultimately show ?thesis by (simp only: mon_safe_append mon_after_append)
  qed
  moreover have "final (for_each (\<lambda>m. do {
         r \<leftarrow> rte_event_enqueue E 0 0 0 m;
         (if r \<le> 0 then rte_pause else ret ());
         say ''Event enqueued'' [] }) (m # ms)) h = h @ (?e @ es)"
    using es(1) by (simp add: r_def split: if_splits)
  moreover have "said ''Event enqueued'' (?e @ es) = length (m # ms)" "freed (?e @ es) = []"
    using es(2,3) by (simp_all add: said_def)
  moreover have "set (refused (?e @ es)) \<subseteq> set (m # ms)"
    unfolding refused using es(4) by auto
  ultimately show ?case by blast
qed

section \<open>The event port rule\<close>

text \<open>
  An event may be released only on the port it was dequeued from and not yet released on.  The
  state is the set of pairs of port and payload.
\<close>

definition evd_allowed :: "(nat \<times> mbuf) set \<Rightarrow> event \<Rightarrow> bool" where
  "evd_allowed S e = (case e of
     Status c r \<Rightarrow> (case c of Evd ec \<Rightarrow>
       (case ec of Evd_release d p m \<Rightarrow> (p, m) \<in> S | _ \<Rightarrow> True) | _ \<Rightarrow> True)
   | _ \<Rightarrow> True)"

definition evd_next :: "(nat \<times> mbuf) set \<Rightarrow> event \<Rightarrow> (nat \<times> mbuf) set" where
  "evd_next S e = (case e of
     Burst c ms \<Rightarrow> (case c of Evd ec \<Rightarrow>
       (case ec of Evd_dequeue d p n \<Rightarrow> S \<union> Pair p ` set ms | _ \<Rightarrow> S) | _ \<Rightarrow> S)
   | Status c r \<Rightarrow> (case c of Evd ec \<Rightarrow>
       (case ec of Evd_release d p m \<Rightarrow> if r < 1 then S else S - {(p, m)} | _ \<Rightarrow> S) | _ \<Rightarrow> S)
   | _ \<Rightarrow> S)"

definition evd_monitor :: "(nat \<times> mbuf) set monitor" where
  "evd_monitor = \<lparr>allows = evd_allowed, moves = evd_next\<rparr>"

lemma evd_monitor_simps [simp]: "allows evd_monitor = evd_allowed" "moves evd_monitor = evd_next"
  by (simp_all add: evd_monitor_def)

lemma evd_simps [simp]:
  "evd_allowed S (Printf f as)" "evd_next S (Printf f as) = S"
  "evd_allowed S (Access m)" "evd_next S (Access m) = S"
  "evd_allowed S (Overread m)" "evd_next S (Overread m) = S"
  "evd_allowed S (Did c)" "evd_next S (Did c) = S"
  "evd_allowed S (Burst c ms)" "evd_next S (Burst (Evd (Evd_dequeue d p n)) ms) = S \<union> Pair p ` set ms"
  "evd_allowed S (Status (Evd (Evd_release d p m)) r) \<longleftrightarrow> (p, m) \<in> S"
  "evd_next S (Status (Evd (Evd_release d p m)) r) = (if r < 1 then S else S - {(p, m)})"
  by (simp_all add: evd_allowed_def evd_next_def)

lemma evd_prints: "list_all is_print es \<Longrightarrow> mon_safe evd_monitor S es \<and> mon_after evd_monitor S es = S"
  by (rule mon_prints) simp_all

lemma evd_reading:
  assumes "\<And>es. r = Some es \<Longrightarrow> list_all is_print es"
  shows "mon_safe evd_monitor S (reading m r)" "mon_after evd_monitor S (reading m r) = S"
  using assms evd_prints by (cases r; simp add: reading_def)+

section \<open>Properties\<close>

text \<open>
  C10. For a complete TCP segment over IPv4, \<open>parsing_logic\<close> returns 4 and prints the addresses of the
  packet in the usual order on a host of either byte order, its ports and its sequence number,
  found behind the options of the header.
\<close>

theorem parsing_logic_ipv4_tcp:
  assumes "byteorder_ok (pe_endian C) (pe_order C)" and "d ! 12 = 0x08" and "d ! 13 = 0x00"
    and "d ! 23 = IPPROTO_TCP" and "34 \<le> length d" and "off = 14 + unat (d ! 14 AND 0x0F) * 4"
    and "off + 8 \<le> length d"
  shows "parsing_logic C d False = Some
    ([Printf ''Source MAC address:'' []] @ print_mac (take 6 (drop 6 d)) @ [Printf [] []] @
     [Printf ''Destination MAC address:'' []] @ print_mac (take 6 d) @
     [Printf [] [], Printf ''IP : IPV4'' [],
      Printf ''source address : '' [],
      Printf ''%u.%u.%u.%u'' (map (\<lambda>i. PU (unat (d ! i))) [26, 27, 28, 29]),
      Printf ''destination address :'' [],
      Printf ''%u.%u.%u.%u'' (map (\<lambda>i. PU (unat (d ! i))) [30, 31, 32, 33]),
      Printf ''the next header is for protocol: '' [], Printf ''TCP'' [],
      Printf ''the source port is : %u'' [PU (256 * unat (d ! off) + unat (d ! (off + 1)))],
      Printf ''the destination port is : %u'' [PU (256 * unat (d ! (off + 2)) + unat (d ! (off + 3)))],
      Printf ''TCP sequence number: %u'' [PU (2 ^ 24 * unat (d ! (off + 4)) + 2 ^ 16 * unat (d ! (off + 5))
        + 256 * unat (d ! (off + 6)) + unat (d ! (off + 7)))]], 4)"
proof -
  have ip: "be_word16 (d ! 12) (d ! 13) = RTE_ETHER_TYPE_IPV4"
    using assms(2,3) by (simp add: ether_type_bytes)
  have l4: "parse_l4 C d (d ! 23) off = map_option (\<lambda>es. Printf ''TCP'' [] # es) (parse_TCP C d off)"
    using assms(4) by (simp add: parse_l4_def)
  show ?thesis
    using assms(1,5)
    by (simp add: parsing_logic_def ip_type_of_def ip ipv4_parsing_def ETHER_HDR_LEN_def Let_def
        l4 [unfolded assms(6)] parse_TCP_Some [OF assms(1,7), unfolded assms(6)]
        print_ipv4_address_def dotted_be_word32 assms(6))
qed

definition demo_parse_ctx :: parse_ctx where
  "demo_parse_ctx = \<lparr>pe_endian = Little, pe_order = x86_order, pe_ntop6 = (\<lambda>_. ''::1''), pe_junk = [],
     pe_version = (\<lambda>h. drop_bit 4 (h ! 0))\<rparr>"

theorem parsing_logic_ipv4_tcp_witness:
  "\<exists>es. parsing_logic demo_parse_ctx
      [2, 0, 0, 0, 0, 1, 2, 0, 0, 0, 0, 2, 8, 0, 0x45, 0, 0, 40, 0, 0, 0, 0, 64, 6, 0, 0,
        192, 168, 1, 10, 10, 0, 0, 1, 0, 80, 1, 187, 0, 0, 0, 7] False = Some (es, 4) \<and>
     Printf ''%u.%u.%u.%u'' [PU 192, PU 168, PU 1, PU 10] \<in> set es"
  by (rule exI, rule conjI, rule parsing_logic_ipv4_tcp [where off = 34])
    (simp_all add: demo_parse_ctx_def x86_order_ok IPPROTO_TCP_def)

text \<open>
  C38. For IPv6, where the version field is 6, the position of the next header is computed from the
  version as if it were a header length: 24 bytes instead of 40.  What is printed as ports and
  sequence number of a TCP segment are the first eight bytes of the destination address.
\<close>

theorem parsing_logic_ipv6_reads_address:
  assumes "byteorder_ok (pe_endian C) (pe_order C)" and "d ! 12 = 0x86" and "d ! 13 = 0xDD"
    and "d ! 20 = IPPROTO_TCP" and "54 \<le> length d" and "pe_version C (take 4 (drop 14 d)) = 6"
    and "dst = take 16 (drop 38 d)"
  shows "\<exists>es. parsing_logic C d False = Some
    (es @ [Printf ''Destination IP address is : %s'' [PS (ntop6_into C dst)],
      Printf ''the next header is for protocol: '' [], Printf ''TCP'' [],
      Printf ''the source port is : %u'' [PU (256 * unat (dst ! 0) + unat (dst ! 1))],
      Printf ''the destination port is : %u'' [PU (256 * unat (dst ! 2) + unat (dst ! 3))],
      Printf ''TCP sequence number: %u'' [PU (2 ^ 24 * unat (dst ! 4) + 2 ^ 16 * unat (dst ! 5)
        + 256 * unat (dst ! 6) + unat (dst ! 7))]], 6)"
proof -
  have ip: "be_word16 (d ! 12) (d ! 13) = RTE_ETHER_TYPE_IPV6" "RTE_ETHER_TYPE_IPV6 \<noteq> RTE_ETHER_TYPE_IPV4"
    using assms(2,3) by (simp_all add: ether_type_bytes) (simp add: api_constants)
  have l4: "parse_l4 C d (d ! 20) 38 = map_option (\<lambda>es. Printf ''TCP'' [] # es) (parse_TCP C d 38)"
    using assms(4) by (simp add: parse_l4_def)
  have dst: "dst ! i = d ! (38 + i)" if "i < 8" for i
    using assms(5) that by (simp add: assms(7))
  have "38 + 8 \<le> length d" using assms(5) by simp
  from parse_TCP_Some [OF assms(1) this] l4 show ?thesis
    using assms(1,5,6)
    by (simp add: parsing_logic_def ip_type_of_def ip ipv6_parsing_def ETHER_HDR_LEN_def Let_def
        assms(7) dst)
qed

theorem parsing_logic_ipv6_reads_address_witness:
  "\<exists>es. parsing_logic demo_parse_ctx
      ([2, 0, 0, 0, 0, 1, 2, 0, 0, 0, 0, 2, 0x86, 0xDD, 0x60, 0, 0, 0, 0, 20, 6, 64] @
       replicate 16 0 @ [0x20, 0x01, 0x0d, 0xb8] @ replicate 12 0 @ [0, 80, 1, 187, 0, 0, 0, 7]) False = Some (es, 6) \<and>
     Printf ''the source port is : %u'' [PU 0x2001] \<in> set es"
proof -
  let ?d = "[2, 0, 0, 0, 0, 1, 2, 0, 0, 0, 0, 2, 0x86, 0xDD, 0x60, 0, 0, 0, 0, 20, 6, 64] @
       replicate 16 0 @ [0x20, 0x01, 0x0d, 0xb8] @ replicate 12 0 @ [0, 80, 1, 187, 0, 0, 0, 7] :: u8 list"
  have "pe_version demo_parse_ctx (take 4 (drop 14 ?d)) = 6"
    by (simp add: demo_parse_ctx_def)
  from parsing_logic_ipv6_reads_address [OF _ _ _ _ _ this refl]
  obtain es where "parsing_logic demo_parse_ctx ?d False = Some (es, 6)"
    "Printf ''the source port is : %u'' [PU 0x2001] \<in> set es"
    by (auto simp: demo_parse_ctx_def x86_order_ok IPPROTO_TCP_def nth_append)
  then show ?thesis by blast
qed

text \<open>
  C39. The receive handler announces every packet of the burst as enqueued, and loses exactly those
  whose event the device refused: they are neither freed nor tried again.
\<close>

theorem receive_handler_loses_refused:
  assumes "bursts_distinct E" and "buf = burst E (length h) (Eth (Rx_burst 0 0 32))"
  shows "result (receive_handler_round E v) h = Inr (v + length buf) \<and>
     said ''Event enqueued'' (emitted (receive_handler_round E v) h) = length buf \<and>
     own_safe {} (emitted (receive_handler_round E v) h) \<and>
     own_after {} (emitted (receive_handler_round E v) h) =
       set (refused (emitted (receive_handler_round E v) h))"
proof (cases "buf = []")
  case True
  with assms(2) show ?thesis
    by (simp add: receive_handler_round_def emitted_def said_def refused_def)
next
  case False
  let ?e = "Burst (Eth (Rx_burst 0 0 32)) buf"
  obtain es where es: "final (for_each (\<lambda>m. do {
         r \<leftarrow> rte_event_enqueue E 0 0 0 m;
         (if r \<le> 0 then rte_pause else ret ());
         say ''Event enqueued'' [] }) buf) (h @ [?e]) = (h @ [?e]) @ es"
     "said ''Event enqueued'' es = length buf"
     and own: "\<And>S. set buf \<subseteq> S \<Longrightarrow> distinct buf \<Longrightarrow>
        own_safe S es \<and> own_after S es = S - set buf \<union> set (refused es)"
    using enqueue_loop_run [of E buf "h @ [?e]"] by blast
  have "emitted (receive_handler_round E v) h = ?e # es"
    using False assms(2) es(1) by (simp add: receive_handler_round_def emitted_def)
  moreover have "result (receive_handler_round E v) h = Inr (v + length buf)"
    using False assms(2) by (simp add: receive_handler_round_def)
  moreover have "own_safe (set buf) es \<and> own_after (set buf) es = set (refused es)"
    using own [OF order_refl] assms by simp
  ultimately show ?thesis
    using es(2) by (simp add: said_def refused_def)
qed

theorem receive_handler_loses_refused_witness:
  "own_after {} (emitted (receive_handler_round busy_env 0) []) = {1, 2}"
proof -
  have "emitted (receive_handler_round busy_env 0) [] =
      [Burst (Eth (Rx_burst 0 0 32)) [1, 2], Status (Evd (Evd_enqueue 0 0 0 1)) 0, Did (Eal Pause),
       Printf ''Event enqueued'' [], Status (Evd (Evd_enqueue 0 0 0 2)) 0, Did (Eal Pause),
       Printf ''Event enqueued'' []]"
    by (simp add: receive_handler_round_def emitted_def)
  then show ?thesis
    using receive_handler_loses_refused [where h = "[]" and v = 0, OF busy_env_ok(1) refl] by (simp add: refused_def)
qed

text \<open>
  C27. The transmit handler keeps both disciplines: over any number of rounds it frees every packet it
  dequeued exactly once and uses it only before, and each event is released on the port it came
  from.
\<close>

theorem transmit_handler_disciplined:
  assumes "bursts_distinct E" and "bursts_bounded E"
  shows "own_safe {} (emitted (rounds n (transmit_handler_round E C D) v) h) \<and>
     own_after {} (emitted (rounds n (transmit_handler_round E C D) v) h) = {} \<and>
     mon_safe evd_monitor S (emitted (transmit_handler_round E C D v) h)"
proof (intro conjI)
  let ?out = "burst E (length h) (Evd (Evd_dequeue 0 1 1))"
  obtain r where "final (transmit_handler_round E C D v) h = h @ Burst (Evd (Evd_dequeue 0 1 1)) ?out #
     (case ?out of [] \<Rightarrow> [] | m # _ \<Rightarrow> transmit_trace E C D m r)"
    using final_transmit_handler_round [OF refl] by blast
  then have "emitted (transmit_handler_round E C D v) h = Burst (Evd (Evd_dequeue 0 1 1)) ?out #
     (case ?out of [] \<Rightarrow> [] | m # _ \<Rightarrow> transmit_trace E C D m r)"
    by (simp add: emitted_def)
  moreover have "mon_safe evd_monitor T (reading m (map_option fst (parsing_logic C (D m) False)))"
    "mon_after evd_monitor T (reading m (map_option fst (parsing_logic C (D m) False))) = T" for T m
    by (rule evd_reading, erule parsing_logic_prints)+
  ultimately show "mon_safe evd_monitor S (emitted (transmit_handler_round E C D v) h)"
    by (simp add: transmit_trace_def split: list.split)
qed (simp_all add: transmit_stage.service_loop_safe [OF assms])

theorem transmit_handler_disciplined_witness:
  "own_safe {} (emitted (rounds 2 (transmit_handler_round busy_env demo_parse_ctx (\<lambda>_. [])) ()) [])"
  using transmit_handler_disciplined [OF busy_env_ok(1,2), where n = 2 and S = "{}"] by blast

text \<open>
  The drop handler, meant for the IPv6 queue on port 2, dequeues on port 1, the port of the
  transmit handler, and releases on port 2: whenever it gets an event the port rule is violated,
  and the packet, of whatever kind, is freed.
\<close>

theorem drop_handler_wrong_port:
  assumes "burst E (length h) (Evd (Evd_dequeue 0 1 1)) = [m]"
  shows "\<not> mon_safe evd_monitor {} (emitted (drop_handler_round E v) h) \<and>
     freed (emitted (drop_handler_round E v) h) = [m]"
  using assms by (simp add: drop_handler_round_def emitted_def)

theorem drop_handler_wrong_port_witness:
  "freed (emitted (drop_handler_round busy_env 0) []) = [1]"
  using drop_handler_wrong_port [where E = busy_env and h = "[]" and m = 1 and v = 0] by simp

end
