(* ===== verification/Graph_Nodes.thy ===== *)
theory Graph_Nodes
  imports Packet_Data Mbuf_Ownership Port_Setup "HOL-Library.Multiset"
begin

text \<open>
  The three programs on the graph library: \<open>graph_dpdk/\<close>, \<open>disable_node/\<close> and \<open>2_source_graph/\<close>.
  Each registers four or five nodes; a node's \<open>process\<close> function gets the objects that were
  enqueued to it and enqueues objects on its outgoing edges.

  The library's scheduler \<open>rte_graph_walk\<close> is not part of the repository.  What it promises is the
  relation \<open>graph_run\<close>: source nodes are called with no objects, any other node with some of the
  objects waiting for it, in the order in which they were enqueued.
\<close>

section \<open>Nodes\<close>

text \<open>The table a program registers: name, whether it is a source, names of the next nodes.\<close>

record node_reg =
  nr_name :: string
  nr_source :: bool
  nr_next :: "string list"

text \<open>\<open>eth->ether_type == rte_cpu_to_be_16(RTE_ETHER_TYPE_IPV4)\<close>, read at the bytes 12 and 13.\<close>

definition is_ipv4 :: "endian \<Rightarrow> byteorder \<Rightarrow> u8 list \<Rightarrow> bool" where
  "is_ipv4 e B d \<longleftrightarrow> get16 e d 12 = Some (cpu_to_be_16 B RTE_ETHER_TYPE_IPV4)"

definition look :: "(mbuf \<Rightarrow> u8 list) \<Rightarrow> mbuf \<Rightarrow> event list" where
  "look D m = Access m # (if length (D m) < 14 then [Overread m] else [])"

section \<open>\<open>graph_dpdk/main.c\<close>\<close>

definition g1_signal_handler :: "int \<Rightarrow> bool \<Rightarrow> bool" where
  "g1_signal_handler sig force_quit = (if sig = SIGINT \<or> sig = SIGTERM then True else force_quit)"

text \<open>
  A receive burst into the array at address \<open>array\<close>: the driver writes the packets there.  A write
  through NULL has no meaning (\<open>None\<close>), and nothing after it is modelled.
\<close>

definition rx_burst_into :: "env \<Rightarrow> ptr \<Rightarrow> nat \<Rightarrow> mbuf list option io" where
  "rx_burst_into E array n = do {
     pkts \<leftarrow> rte_eth_rx_burst E 0 0 n;
     if pkts \<noteq> [] \<and> array = NULL then do { emit [Undefined]; ret None } else ret (Some pkts) }"

text \<open>
  The receive node's array is \<open>pkts = NULL\<close>; what it would enqueue are the contents of its own object
  array \<open>objs\<close>.
\<close>

definition g1_rx_node_process :: "env \<Rightarrow> mbuf list \<Rightarrow> nat option io" where
  "g1_rx_node_process E objs = do {
     pkts \<leftarrow> rx_burst_into E NULL GRAPH_BURST_SIZE;
     case pkts of None \<Rightarrow> ret None | Some got \<Rightarrow>
     let nb_rx = length got in
     if nb_rx \<noteq> 0 then do {
       rte_node_enqueue 0 (take nb_rx objs);
       ret (Some nb_rx)
     } else ret (Some nb_rx)
   }"

definition g1_ipv4_node_process ::
    "endian \<Rightarrow> byteorder \<Rightarrow> (mbuf \<Rightarrow> u8 list) \<Rightarrow> mbuf list \<Rightarrow> nat io" where
  "g1_ipv4_node_process e B D objs = do {
     for_each (\<lambda>pkt. do {
         emit (look D pkt);
         if is_ipv4 e B (D pkt) then rte_node_enqueue_x1 0 pkt else rte_node_enqueue_x1 1 pkt
       }) objs;
     ret (length objs)
   }"

definition g1_tx_node_process :: "env \<Rightarrow> mbuf list \<Rightarrow> nat io" where
  "g1_tx_node_process E objs = do { _ \<leftarrow> rte_eth_tx_burst E 0 0 objs; ret (length objs) }"

definition g1_drop_node_process :: "mbuf list \<Rightarrow> nat io" where
  "g1_drop_node_process objs = do { for_each (\<lambda>m. rte_pktmbuf_free m) objs; ret (length objs) }"

definition g1_nodes :: "node_reg list" where
  "g1_nodes =
     [\<lparr>nr_name = ''rx_node'', nr_source = True, nr_next = [''ipv4_node'']\<rparr>,
      \<lparr>nr_name = ''ipv4_node'', nr_source = False, nr_next = [''tx_node'', ''drop_node'']\<rparr>,
      \<lparr>nr_name = ''tx_node'', nr_source = False, nr_next = []\<rparr>,
      \<lparr>nr_name = ''drop_node'', nr_source = False, nr_next = []\<rparr>]"

text \<open>\<open>main\<close>; the signal that sets \<open>force_quit\<close> arrives after \<open>n\<close> walks of the graph.\<close>

definition graph_port_up :: "env \<Rightarrow> ptr \<Rightarrow> unit io" where
  "graph_port_up E mbuf_pool = do {
     _ \<leftarrow> rte_eth_dev_configure E 0 1 1;
     _ \<leftarrow> rte_eth_rx_queue_setup E 0 0 1024 (Port_socket 0) mbuf_pool;
     _ \<leftarrow> rte_eth_tx_queue_setup E 0 0 1024 (Port_socket 0);
     _ \<leftarrow> rte_eth_dev_start E 0;
     ret ()
   }"

definition graph_loop :: "env \<Rightarrow> string list \<Rightarrow> nat \<Rightarrow> int io" where
  "graph_loop E patterns n = do {
     graph_id \<leftarrow> ask_count E (Graph (Graph_create ''ipv4_graph'' patterns));
     if graph_id = GRAPH_ID_INVALID then rte_exit ''Graph creation failed'' [] else do {
     graph \<leftarrow> ask_pointer E (Graph (Graph_lookup ''ipv4_graph''));
     if graph = NULL then rte_exit ''Graph lookup failed'' [] else do {
     say ''DPDK Graph running (Ctrl+C to quit)'' [];
     for_each (\<lambda>_. act (Graph (Graph_walk graph))) [0..<n];
     act (Graph (Graph_destroy graph_id));
     rte_eth_dev_stop 0;
     rte_eth_dev_close 0;
     say ''Exited cleanly'' [];
     ret 0 }}}"

definition g1_main :: "env \<Rightarrow> nat \<Rightarrow> int io" where
  "g1_main E n = do {
     r \<leftarrow> rte_eal_init E;
     if r < 0 then rte_exit ''EAL init failed'' [] else do {
     install_signal ''SIGINT''; install_signal ''SIGTERM'';
     mbuf_pool \<leftarrow> rte_pktmbuf_pool_create E ''MBUF_POOL'' 8192 256;
     if mbuf_pool = NULL then rte_exit ''Mbuf pool creation failed'' [] else do {
     graph_port_up E mbuf_pool;
     graph_loop E [''rx_node''] n }}}"

section \<open>\<open>disable_node/main.c\<close>\<close>

definition g2_signal_handler :: "int \<Rightarrow> bool \<Rightarrow> event list \<times> bool" where
  "g2_signal_handler sig force_quit =
     (if sig = SIGINT \<or> sig = SIGTERM
      then ([Printf ''Forcefully Signal Has Been Raised: %d'' [PD sig]], True) else ([], force_quit))"

definition g2_rx_node_process :: "env \<Rightarrow> nat io" where
  "g2_rx_node_process E = do {
     pkt \<leftarrow> rte_eth_rx_burst E 0 0 32;
     let nb_rx = length pkt;
     if nb_rx \<noteq> 0 then do {
       say ''Inside the RX_NODE Process Node Got %d Packets '' [PU nb_rx];
       rte_node_enqueue 0 pkt;
       ret nb_rx
     } else ret nb_rx
   }"

text \<open>
  The IPv4 node sorts the packets into two arrays of \<open>RTE_GRAPH_BURST_SIZE\<close> entries; \<open>None\<close> when an
  entry past the end of an array is written.
\<close>

fun split_packets ::
    "endian \<Rightarrow> byteorder \<Rightarrow> (mbuf \<Rightarrow> u8 list) \<Rightarrow> mbuf list \<Rightarrow> mbuf list \<Rightarrow> mbuf list \<Rightarrow>
     (mbuf list \<times> mbuf list) option" where
  "split_packets e B D [] tx_pkts drop_pkts = Some (tx_pkts, drop_pkts)"
| "split_packets e B D (pkt # obj) tx_pkts drop_pkts =
     (if is_ipv4 e B (D pkt) then
        (if length tx_pkts < GRAPH_BURST_SIZE then split_packets e B D obj (tx_pkts @ [pkt]) drop_pkts else None)
      else
        (if length drop_pkts < GRAPH_BURST_SIZE then split_packets e B D obj tx_pkts (drop_pkts @ [pkt]) else None))"

definition ipv4_node_process ::
    "endian \<Rightarrow> byteorder \<Rightarrow> (mbuf \<Rightarrow> u8 list) \<Rightarrow> mbuf list \<Rightarrow> nat io" where
  "ipv4_node_process e B D obj = do {
     say ''Inside the IPV4 Process Node Got %d Packets'' [PU (length obj)];
     emit (concat (map (look D) obj));
     case split_packets e B D obj [] [] of
       None \<Rightarrow> do { emit [Undefined]; ret (length obj) }
     | Some (tx_pkts, drop_pkts) \<Rightarrow> do {
         say ''TX Packet %d and DROP Packet %d'' [PU (length tx_pkts), PU (length drop_pkts)];
         (if length tx_pkts \<noteq> 0 then rte_node_enqueue 0 tx_pkts else ret ());
         (if length drop_pkts \<noteq> 0 then rte_node_enqueue 1 drop_pkts else ret ());
         ret (length obj)
       }
   }"

definition g2_tx_node_process :: "env \<Rightarrow> mbuf list \<Rightarrow> nat io" where
  "g2_tx_node_process E obj = do {
     say ''Inside the TX_NODE Process Node Got %d Packets'' [PU (length obj)];
     nb_tx \<leftarrow> rte_eth_tx_burst E 0 0 obj;
     ret nb_tx
   }"

definition g2_drop_node_process :: "mbuf list \<Rightarrow> nat io" where
  "g2_drop_node_process obj = do {
     say ''Inside the DROP_NODE Process Node Got %d Packets'' [PU (length obj)];
     for_each (\<lambda>m. rte_pktmbuf_free m) obj;
     ret (length obj)
   }"

definition g2_nodes :: "node_reg list" where
  "g2_nodes =
     [\<lparr>nr_name = ''rx_node'', nr_source = True, nr_next = [''ipv4_node'']\<rparr>,
      \<lparr>nr_name = ''ipv4_node'', nr_source = False, nr_next = [''tx_node'', ''drop_node'']\<rparr>,
      \<lparr>nr_name = ''tx_node'', nr_source = False, nr_next = []\<rparr>,
      \<lparr>nr_name = ''drop_node'', nr_source = False, nr_next = []\<rparr>]"

text \<open>The constructors that register the nodes before \<open>main\<close> runs.\<close>

definition register_nodes :: "(string \<times> string) list \<Rightarrow> unit io" where
  "register_nodes regs = for_each (\<lambda>(name, msg). do { act (Graph (Node_register name)); say msg [] }) regs"

definition g2_register :: "unit io" where
  "g2_register = register_nodes
     [(''rx_node'', ''RX Node has been Registered''), (''ipv4_node'', ''IPV4 Node has been Registered''),
      (''tx_node'', ''TX Node has been Registered''), (''drop_node'', ''Drop Node has been Registered'')]"

definition g2_main :: "env \<Rightarrow> nat \<Rightarrow> int io" where
  "g2_main E n = do {
     g2_register;
     r \<leftarrow> rte_eal_init E;
     if r < 0 then rte_exit ''EAL init failed'' [] else do {
     install_signal ''SIGINT''; install_signal ''SIGTERM'';
     mbuf_pool \<leftarrow> rte_pktmbuf_pool_create E ''MBUF_POOL'' 8192 256;
     if mbuf_pool = NULL then rte_exit ''Mbuf pool creation failed'' [] else do {
     graph_port_up E mbuf_pool;
     graph_loop E [''rx_node''] n }}}"

section \<open>\<open>2_source_graph/main.c\<close>\<close>

text \<open>The IPv4 node and the signal handler are those of \<open>disable_node/main.c\<close>, word for word.\<close>

definition g3_rx_node_process1 :: "env \<Rightarrow> nat io" where
  "g3_rx_node_process1 E = do {
     pkt \<leftarrow> rte_eth_rx_burst E 0 0 32;
     let nb_rx = length pkt;
     if nb_rx \<noteq> 0 then do {
       say ''Inside the RX_NODE1 Process Node Got %d Packets '' [PU nb_rx];
       rte_node_enqueue 0 pkt;
       ret nb_rx
     } else ret nb_rx
   }"

definition g3_rx_node_process2 :: "env \<Rightarrow> nat io" where
  "g3_rx_node_process2 E = do {
     pkt \<leftarrow> rte_eth_rx_burst E 0 0 32;
     let nb_rx = length pkt;
     if nb_rx \<noteq> 0 then do {
       say ''Inside the RX_NODE2 Process Node Got %d Packets '' [PU nb_rx];
       rte_node_enqueue 0 pkt;
       ret nb_rx
     } else ret nb_rx
   }"

definition g3_tx_node_process :: "env \<Rightarrow> mbuf list \<Rightarrow> nat io" where
  "g3_tx_node_process E obj = do {
     say ''Inside the TX_NODE Process Node Got %d Packets'' [PU (length obj)];
     nb_tx \<leftarrow> rte_eth_tx_burst E 0 0 obj;
     say [] []; say [] [];
     ret nb_tx
   }"

definition g3_drop_node_process :: "mbuf list \<Rightarrow> nat io" where
  "g3_drop_node_process obj = do {
     say ''Inside the DROP_NODE Process Node Got %d Packets'' [PU (length obj)];
     for_each (\<lambda>m. rte_pktmbuf_free m) obj;
     say [] []; say [] [];
     ret (length obj)
   }"

definition g3_nodes :: "node_reg list" where
  "g3_nodes =
     [\<lparr>nr_name = ''rx_node1'', nr_source = True, nr_next = [''ipv4_node'']\<rparr>,
      \<lparr>nr_name = ''rx_node2'', nr_source = True, nr_next = [''ipv4_node'']\<rparr>,
      \<lparr>nr_name = ''ipv4_node'', nr_source = False, nr_next = [''tx_node'', ''drop_node'']\<rparr>,
      \<lparr>nr_name = ''tx_node'', nr_source = False, nr_next = []\<rparr>,
      \<lparr>nr_name = ''drop_node'', nr_source = False, nr_next = []\<rparr>]"

definition g3_register :: "unit io" where
  "g3_register = register_nodes
     [(''rx_node1'', ''RX Node1 has been Registered''), (''rx_node2'', ''RX Node2 has been Registered''),
      (''ipv4_node'', ''IPV4 Node has been Registered''), (''tx_node'', ''TX Node has been Registered''),
      (''drop_node'', ''Drop Node has been Registered'')]"

definition g3_main :: "env \<Rightarrow> nat \<Rightarrow> nat \<Rightarrow> int io" where
  "g3_main E lcore n = do {
     g3_register;
     r \<leftarrow> rte_eal_init E;
     if r < 0 then rte_exit ''EAL init failed'' [] else do {
     say ''Inside the Main Function  with  lcore id :%d'' [PU lcore];
     install_signal ''SIGINT''; install_signal ''SIGTERM'';
     mbuf_pool \<leftarrow> rte_pktmbuf_pool_create E ''MBUF_POOL'' 8192 256;
     if mbuf_pool = NULL then rte_exit ''Mbuf pool creation failed'' [] else do {
     graph_port_up E mbuf_pool;
     graph_loop E [''rx_node1'', ''rx_node2''] n }}}"

section \<open>The scheduler\<close>

text \<open>What a call of a process function enqueued on edge \<open>k\<close>.\<close>

definition edge :: "nat \<Rightarrow> event list \<Rightarrow> mbuf list" where
  "edge k es = concat (map (\<lambda>e. case e of
     Did c \<Rightarrow> (case c of Graph gc \<Rightarrow>
       (case gc of Node_enqueue j ms \<Rightarrow> if j = k then ms else []
          | Node_enqueue_x1 j m \<Rightarrow> if j = k then [m] else [] | _ \<Rightarrow> []) | _ \<Rightarrow> [])
   | _ \<Rightarrow> []) es)"

definition deliver :: "string list \<Rightarrow> event list \<Rightarrow> (string \<Rightarrow> mbuf list) \<Rightarrow> string \<Rightarrow> mbuf list" where
  "deliver next es pending =
     (\<lambda>n. pending n @ concat (map (\<lambda>k. if next ! k = n then edge k es else []) [0..<length next]))"

text \<open>
  \<open>graph_run P nodes pending tr\<close>: the graph can come to the state where \<open>pending\<close> waits for the
  nodes and the trace is \<open>tr\<close>.  A call gets at most \<open>RTE_GRAPH_BURST_SIZE\<close> objects.
\<close>

inductive graph_run ::
    "(string \<Rightarrow> mbuf list \<Rightarrow> nat io) \<Rightarrow> node_reg list \<Rightarrow> (string \<Rightarrow> mbuf list) \<Rightarrow> event list \<Rightarrow> bool"
  for P nodes where
  graph_start: "graph_run P nodes (\<lambda>_. []) []"
| graph_source:
    "graph_run P nodes pending tr \<Longrightarrow> reg \<in> set nodes \<Longrightarrow> nr_source reg \<Longrightarrow> n = nr_name reg \<Longrightarrow>
     graph_run P nodes (deliver (nr_next reg) (emitted (P n []) tr) pending) (final (P n []) tr)"
| graph_node:
    "graph_run P nodes pending tr \<Longrightarrow> reg \<in> set nodes \<Longrightarrow> \<not> nr_source reg \<Longrightarrow> n = nr_name reg \<Longrightarrow>
     pending n = xs @ ys \<Longrightarrow> xs \<noteq> [] \<Longrightarrow> length xs \<le> GRAPH_BURST_SIZE \<Longrightarrow>
     graph_run P nodes (deliver (nr_next reg) (emitted (P n xs) tr) (pending(n := ys))) (final (P n xs) tr)"

text \<open>The packets offered to the port.\<close>

definition offered :: "event list \<Rightarrow> mbuf list" where
  "offered es = concat (map fst (transmits es))"

lemma edge_simps [simp]:
  "edge k [] = []" "edge k (xs @ ys) = edge k xs @ edge k ys"
  "edge k (Did (Graph (Node_enqueue j ms)) # es) = (if j = k then ms else []) @ edge k es"
  "edge k (Did (Graph (Node_enqueue_x1 j m)) # es) = (if j = k then [m] else []) @ edge k es"
  "edge k (Did (Mem mc) # es) = edge k es" "edge k (Printf f as # es) = edge k es"
  "edge k (Burst c ms # es) = edge k es" "edge k (Count c n # es) = edge k es"
  "edge k (Access m # es) = edge k es" "edge k (Overread m # es) = edge k es"
  "edge k (map (\<lambda>m. Did (Mem (Mbuf_free m))) ms) = []"
  by (simp_all add: edge_def comp_def)

lemma offered_simps [simp]:
  "offered [] = []" "offered (xs @ ys) = offered xs @ offered ys"
  by (simp_all add: offered_def)

section \<open>The contract of the classifying graphs\<close>

text \<open>
  A program of this shape: its sources put what they receive on the way to the IPv4 node, which
  sends the packets with property \<open>ok\<close> to the transmit node and the others to the drop node; the
  transmit node offers all of its objects to the port and the drop node frees all of its objects.
\<close>

locale classifying_graph =
  fixes P :: "string \<Rightarrow> mbuf list \<Rightarrow> nat io" and nodes :: "node_reg list" and ok :: "mbuf \<Rightarrow> bool"
  assumes appends: "appends (P n xs)"
    and sources: "reg \<in> set nodes \<Longrightarrow> nr_source reg \<Longrightarrow> nr_next reg = [''ipv4_node'']"
    and others: "reg \<in> set nodes \<Longrightarrow> \<not> nr_source reg \<Longrightarrow> (nr_name reg, nr_next reg) \<in>
        {(''ipv4_node'', [''tx_node'', ''drop_node'']), (''tx_node'', []), (''drop_node'', [])}"
    and source_flow: "reg \<in> set nodes \<Longrightarrow> nr_source reg \<Longrightarrow>
        edge 0 (emitted (P (nr_name reg) []) h) = rcvd (emitted (P (nr_name reg) []) h) \<and>
        freed (emitted (P (nr_name reg) []) h) = [] \<and> offered (emitted (P (nr_name reg) []) h) = []"
    and ipv4_flow: "length xs \<le> GRAPH_BURST_SIZE \<Longrightarrow>
        edge 0 (emitted (P ''ipv4_node'' xs) h) = filter ok xs \<and>
        edge 1 (emitted (P ''ipv4_node'' xs) h) = filter (\<lambda>m. \<not> ok m) xs \<and>
        rcvd (emitted (P ''ipv4_node'' xs) h) = [] \<and> freed (emitted (P ''ipv4_node'' xs) h) = [] \<and>
        offered (emitted (P ''ipv4_node'' xs) h) = []"
    and tx_flow: "offered (emitted (P ''tx_node'' xs) h) = xs \<and>
        rcvd (emitted (P ''tx_node'' xs) h) = [] \<and> freed (emitted (P ''tx_node'' xs) h) = []"
    and drop_flow: "freed (emitted (P ''drop_node'' xs) h) = xs \<and>
        rcvd (emitted (P ''drop_node'' xs) h) = [] \<and> offered (emitted (P ''drop_node'' xs) h) = []"
begin

definition balanced :: "(string \<Rightarrow> mbuf list) \<Rightarrow> event list \<Rightarrow> bool" where
  "balanced pending tr \<longleftrightarrow>
     (\<forall>m \<in> set (pending ''tx_node''). ok m) \<and> (\<forall>m \<in> set (pending ''drop_node''). \<not> ok m) \<and>
     (\<forall>m \<in> set (offered tr). ok m) \<and> (\<forall>m \<in> set (freed tr). \<not> ok m) \<and>
     mset (rcvd tr) = mset (pending ''ipv4_node'') + mset (pending ''tx_node'') + mset (pending ''drop_node'') +
       mset (offered tr) + mset (freed tr)"

lemma run_balanced: "graph_run P nodes pending tr \<Longrightarrow> balanced pending tr"
proof (induction rule: graph_run.induct)
  case graph_start
  show ?case by (simp add: balanced_def)
next
  case (graph_source pending tr reg n)
  then show ?case
    using source_flow [of reg tr] sources [of reg]
    by (simp add: balanced_def deliver_def final_emitted [OF appends] ac_simps)
next
  case (graph_node pending tr reg n xs ys)
  have split: "mset xs = mset (filter ok xs) + mset (filter (\<lambda>m. \<not> ok m) xs)"
    by (simp add: multiset_partition [symmetric])
  consider "n = ''ipv4_node''" "nr_next reg = [''tx_node'', ''drop_node'']"
    | "n = ''tx_node''" "nr_next reg = []" | "n = ''drop_node''" "nr_next reg = []"
    using others graph_node.hyps by auto
  then show ?case
  proof cases
    case 1
    then show ?thesis
      using graph_node.IH graph_node.hyps split ipv4_flow [of xs tr]
      by (auto simp: balanced_def deliver_def final_emitted [OF appends] ac_simps)
  next
    case 2
    then show ?thesis
      using graph_node.IH graph_node.hyps tx_flow [of xs tr]
      by (auto simp: balanced_def deliver_def final_emitted [OF appends] ac_simps)
  next
    case 3
    then show ?thesis
      using graph_node.IH graph_node.hyps drop_flow [of xs tr]
      by (auto simp: balanced_def deliver_def final_emitted [OF appends] ac_simps)
  qed
qed

end

section \<open>The programs as classifying graphs\<close>

text \<open>The \<open>process\<close> entries of the registered nodes.\<close>

definition g2_process ::
    "env \<Rightarrow> endian \<Rightarrow> byteorder \<Rightarrow> (mbuf \<Rightarrow> u8 list) \<Rightarrow> string \<Rightarrow> mbuf list \<Rightarrow> nat io" where
  "g2_process E e B D name objs =
     (if name = ''rx_node'' then g2_rx_node_process E
      else if name = ''ipv4_node'' then ipv4_node_process e B D objs
      else if name = ''tx_node'' then g2_tx_node_process E objs
      else if name = ''drop_node'' then g2_drop_node_process objs else ret 0)"

definition g3_process ::
    "env \<Rightarrow> endian \<Rightarrow> byteorder \<Rightarrow> (mbuf \<Rightarrow> u8 list) \<Rightarrow> string \<Rightarrow> mbuf list \<Rightarrow> nat io" where
  "g3_process E e B D name objs =
     (if name = ''rx_node1'' then g3_rx_node_process1 E
      else if name = ''rx_node2'' then g3_rx_node_process2 E
      else if name = ''ipv4_node'' then ipv4_node_process e B D objs
      else if name = ''tx_node'' then g3_tx_node_process E objs
      else if name = ''drop_node'' then g3_drop_node_process objs else ret 0)"

definition goes_on :: "endian \<Rightarrow> byteorder \<Rightarrow> (mbuf \<Rightarrow> u8 list) \<Rightarrow> mbuf \<Rightarrow> bool" where
  "goes_on e B D m \<longleftrightarrow> is_ipv4 e B (D m)"

text \<open>The sorting loop overruns an array exactly when one class has more than 256 packets.\<close>

lemma split_packets_result:
  "split_packets e B D obj tx dr =
     (if (length tx + length (filter (goes_on e B D) obj) \<le> 256 \<or> filter (goes_on e B D) obj = []) \<and>
         (length dr + length (filter (\<lambda>m. \<not> goes_on e B D m) obj) \<le> 256 \<or> filter (\<lambda>m. \<not> goes_on e B D m) obj = [])
      then Some (tx @ filter (goes_on e B D) obj, dr @ filter (\<lambda>m. \<not> goes_on e B D m) obj) else None)"
proof (induction obj arbitrary: tx dr)
  case Nil
  show ?case by simp
next
  case (Cons m obj)
  have "goes_on e B D m = is_ipv4 e B (D m)" by (simp add: goes_on_def)
  then show ?case
    by (cases "is_ipv4 e B (D m)") (auto simp: Cons.IH GRAPH_BURST_SIZE_def)
qed

lemma split_packets_Some:
  "length obj \<le> 256 \<Longrightarrow> split_packets e B D obj [] [] =
     Some (filter (goes_on e B D) obj, filter (\<lambda>m. \<not> goes_on e B D m) obj)"
  by (auto simp: split_packets_result intro: le_trans [OF length_filter_le])

lemma look_one [simp]:
  "edge k (look D m) = []" "rcvd (look D m) = []" "freed (look D m) = []" "transmits (look D m) = []"
  by (simp_all add: look_def)

lemma look_simps [simp]:
  "edge k (concat (map (look D) ms)) = []" "rcvd (concat (map (look D) ms)) = []"
  "freed (concat (map (look D) ms)) = []" "transmits (concat (map (look D) ms)) = []"
  by (induction ms) simp_all

lemma emitted_nodes:
  "emitted (ipv4_node_process e B D obj) h =
     Printf ''Inside the IPV4 Process Node Got %d Packets'' [PU (length obj)] # concat (map (look D) obj) @
     (case split_packets e B D obj [] [] of None \<Rightarrow> [Undefined]
      | Some (tx, dr) \<Rightarrow> [Printf ''TX Packet %d and DROP Packet %d'' [PU (length tx), PU (length dr)]] @
          (if tx = [] then [] else [Did (Graph (Node_enqueue 0 tx))]) @
          (if dr = [] then [] else [Did (Graph (Node_enqueue 1 dr))]))"
  "emitted (g2_tx_node_process E obj) h =
     [Printf ''Inside the TX_NODE Process Node Got %d Packets'' [PU (length obj)],
      Count (Eth (Tx_burst 0 0 obj)) (counted E (length h + 1) (Eth (Tx_burst 0 0 obj)))]"
  "emitted (g3_tx_node_process E obj) h =
     [Printf ''Inside the TX_NODE Process Node Got %d Packets'' [PU (length obj)],
      Count (Eth (Tx_burst 0 0 obj)) (counted E (length h + 1) (Eth (Tx_burst 0 0 obj))),
      Printf [] [], Printf [] []]"
  "emitted (g2_drop_node_process obj) h =
     Printf ''Inside the DROP_NODE Process Node Got %d Packets'' [PU (length obj)] #
     map (\<lambda>m. Did (Mem (Mbuf_free m))) obj"
  "emitted (g3_drop_node_process obj) h =
     Printf ''Inside the DROP_NODE Process Node Got %d Packets'' [PU (length obj)] #
     map (\<lambda>m. Did (Mem (Mbuf_free m))) obj @ [Printf [] [], Printf [] []]"
  by (simp_all add: emitted_def ipv4_node_process_def g2_tx_node_process_def g3_tx_node_process_def
      g2_drop_node_process_def g3_drop_node_process_def split: option.split prod.split)

lemma emitted_rx_nodes:
  "emitted (g2_rx_node_process E) h = (let p = burst E (length h) (Eth (Rx_burst 0 0 32)) in
     Burst (Eth (Rx_burst 0 0 32)) p # (if p = [] then [] else
       [Printf ''Inside the RX_NODE Process Node Got %d Packets '' [PU (length p)], Did (Graph (Node_enqueue 0 p))]))"
  "emitted (g3_rx_node_process1 E) h = (let p = burst E (length h) (Eth (Rx_burst 0 0 32)) in
     Burst (Eth (Rx_burst 0 0 32)) p # (if p = [] then [] else
       [Printf ''Inside the RX_NODE1 Process Node Got %d Packets '' [PU (length p)], Did (Graph (Node_enqueue 0 p))]))"
  "emitted (g3_rx_node_process2 E) h = (let p = burst E (length h) (Eth (Rx_burst 0 0 32)) in
     Burst (Eth (Rx_burst 0 0 32)) p # (if p = [] then [] else
       [Printf ''Inside the RX_NODE2 Process Node Got %d Packets '' [PU (length p)], Did (Graph (Node_enqueue 0 p))]))"
  by (simp_all add: emitted_def g2_rx_node_process_def g3_rx_node_process1_def g3_rx_node_process2_def Let_def)

lemma appends_nodes:
  "appends (g2_process E e B D n xs)" "appends (g3_process E e B D n xs)"
proof -
  have ip: "appends (ipv4_node_process e B D xs)"
    unfolding ipv4_node_process_def by (intro appends_intros) (auto intro!: appends_intros split: prod.split)
  show "appends (g2_process E e B D n xs)" "appends (g3_process E e B D n xs)"
    unfolding g2_process_def g3_process_def g2_rx_node_process_def g2_tx_node_process_def
      g2_drop_node_process_def g3_rx_node_process1_def g3_rx_node_process2_def g3_tx_node_process_def
      g3_drop_node_process_def
    by (intro appends_intros ip)+
qed

interpretation g2: classifying_graph "g2_process E e B D" g2_nodes "goes_on e B D" for E e B D
proof unfold_locales
  show "appends (g2_process E e B D n xs)" for n xs by (rule appends_nodes)
qed (auto simp: g2_nodes_def g2_process_def emitted_nodes emitted_rx_nodes Let_def offered_def
    split_packets_Some GRAPH_BURST_SIZE_def)

interpretation g3: classifying_graph "g3_process E e B D" g3_nodes "goes_on e B D" for E e B D
proof unfold_locales
  show "appends (g3_process E e B D n xs)" for n xs by (rule appends_nodes)
qed (auto simp: g3_nodes_def g3_process_def emitted_nodes emitted_rx_nodes Let_def offered_def
    split_packets_Some GRAPH_BURST_SIZE_def)

lemma edge_g1:
  "edge k (emitted (g1_ipv4_node_process e B D objs) g) =
      (if k = 0 then filter (goes_on e B D) objs else if k = 1 then filter (\<lambda>m. \<not> goes_on e B D m) objs else [])"
proof -
  let ?g = "\<lambda>m. look D m @ [Did (Graph (Node_enqueue_x1 (if goes_on e B D m then 0 else 1) m))]"
  have "emitted (g1_ipv4_node_process e B D objs) g = concat (map ?g objs)"
    using final_for_each_append [where g = ?g and f = "\<lambda>pkt. do { emit (look D pkt);
         if is_ipv4 e B (D pkt) then rte_node_enqueue_x1 0 pkt else rte_node_enqueue_x1 1 pkt }"]
    by (simp add: g1_ipv4_node_process_def emitted_def goes_on_def)
  moreover have "edge k (concat (map ?g objs)) = (if k = 0 then filter (goes_on e B D) objs
      else if k = 1 then filter (\<lambda>m. \<not> goes_on e B D m) objs else [])"
    by (induction objs) (auto simp: look_def)
  ultimately show ?thesis by simp
qed

text \<open>Two packets for the examples: the first is IPv4.\<close>

definition demo_data :: "mbuf \<Rightarrow> u8 list" where
  "demo_data m = (if m = 1 then replicate 12 0 @ [8, 0] else replicate 14 0)"

section \<open>Properties\<close>

text \<open>The packets sorted to the transmit edge are those whose EtherType bytes are 0x0800.\<close>

lemma goes_on_iff:
  "byteorder_ok e B \<Longrightarrow> goes_on e B D m \<longleftrightarrow> 14 \<le> length (D m) \<and> D m ! 12 = 0x08 \<and> D m ! 13 = 0x00"
  by (auto simp: goes_on_def is_ipv4_def get_defs ether_type_bytes)

text \<open>
  C6. However the library schedules the graph of \<open>disable_node/main.c\<close>: only IPv4 packets are offered
  to the port, only packets that are not IPv4 are freed, and every received packet is waiting in
  the graph, has been offered, or has been freed.
\<close>

theorem disable_node_graph_sorts:
  assumes "graph_run (g2_process E e B D) g2_nodes pending tr" and "byteorder_ok e B"
  shows "(\<forall>m \<in> set (offered tr). D m ! 12 = 0x08 \<and> D m ! 13 = 0x00) \<and>
     (\<forall>m \<in> set (freed tr). \<not> (14 \<le> length (D m) \<and> D m ! 12 = 0x08 \<and> D m ! 13 = 0x00)) \<and>
     mset (rcvd tr) = mset (pending ''ipv4_node'') + mset (pending ''tx_node'') + mset (pending ''drop_node'') +
       mset (offered tr) + mset (freed tr)"
  using g2.run_balanced [OF assms(1)] by (auto simp: g2.balanced_def goes_on_iff [OF assms(2)])

theorem disable_node_graph_sorts_witness:
  "\<exists>pending tr. graph_run (g2_process busy_env Little x86_order demo_data) g2_nodes pending tr \<and>
     mset (rcvd tr) = {#1, 2#} \<and> pending ''tx_node'' = [1] \<and> pending ''drop_node'' = [2]"
proof -
  let ?P = "g2_process busy_env Little x86_order demo_data"
  let ?t1 = "final (?P ''rx_node'' []) []"
  let ?t2 = "final (?P ''ipv4_node'' [1, 2]) ?t1"
  let ?p1 = "deliver [''ipv4_node''] (emitted (?P ''rx_node'' []) []) (\<lambda>_. [])"
  let ?p2 = "deliver [''tx_node'', ''drop_node''] (emitted (?P ''ipv4_node'' [1, 2]) ?t1) (?p1(''ipv4_node'' := []))"
  have 1: "graph_run ?P g2_nodes ?p1 ?t1"
    using graph_source [OF graph_start, of "g2_nodes ! 0" g2_nodes _ ?P] by (simp add: g2_nodes_def)
  have p1: "?p1 = (\<lambda>_. [])(''ipv4_node'' := [1, 2])"
    by (rule ext) (simp add: deliver_def g2_process_def emitted_rx_nodes Let_def)
  have 2: "graph_run ?P g2_nodes ?p2 ?t2"
    using graph_node [OF 1, of "g2_nodes ! 1" _ "[1, 2]" "[]"]
    by (simp add: g2_nodes_def p1 GRAPH_BURST_SIZE_def)
  have ip: "goes_on Little x86_order demo_data 1" "\<not> goes_on Little x86_order demo_data 2"
    by (simp_all add: goes_on_iff [OF x86_order_ok] demo_data_def nth_append)
  have sp: "split_packets Little x86_order demo_data [1, 2] [] [] = Some ([1], [2])"
    by (subst split_packets_Some) (use ip in simp_all)
  have p2: "?p2 ''ipv4_node'' = []" "?p2 ''tx_node'' = [1]" "?p2 ''drop_node'' = [2]"
    unfolding p1 by (simp_all add: deliver_def g2_process_def emitted_nodes sp del: One_nat_def split_packets.simps)
  have "offered ?t2 = []" "freed ?t2 = []"
    unfolding final_emitted [OF appends_nodes(1), of busy_env Little x86_order demo_data "''ipv4_node''"]
    by (simp_all add: g2_process_def emitted_nodes sp offered_def g2_rx_node_process_def
        del: One_nat_def split_packets.simps)
  then have "mset (rcvd ?t2) = {#1, 2#}"
    using p2 disable_node_graph_sorts [OF 2 x86_order_ok] by simp
  with p2 2 show ?thesis by blast
qed

text \<open>
  The same for \<open>2_source_graph/main.c\<close>, where two receive nodes poll the same queue.
\<close>

theorem two_source_graph_sorts:
  assumes "graph_run (g3_process E e B D) g3_nodes pending tr" and "byteorder_ok e B"
  shows "(\<forall>m \<in> set (offered tr). D m ! 12 = 0x08 \<and> D m ! 13 = 0x00) \<and>
     (\<forall>m \<in> set (freed tr). \<not> (14 \<le> length (D m) \<and> D m ! 12 = 0x08 \<and> D m ! 13 = 0x00)) \<and>
     mset (rcvd tr) = mset (pending ''ipv4_node'') + mset (pending ''tx_node'') + mset (pending ''drop_node'') +
       mset (offered tr) + mset (freed tr)"
  using g3.run_balanced [OF assms(1)] by (auto simp: g3.balanced_def goes_on_iff [OF assms(2)])

theorem two_source_graph_sorts_witness:
  "\<exists>pending tr. graph_run (g3_process busy_env Little x86_order demo_data) g3_nodes pending tr \<and>
     mset (rcvd tr) = {#1, 2#} \<and> pending ''ipv4_node'' = [1, 2]"
proof -
  let ?P = "g3_process busy_env Little x86_order demo_data"
  let ?tr = "final (?P ''rx_node2'' []) []"
  let ?pending = "deliver [''ipv4_node''] (emitted (?P ''rx_node2'' []) []) (\<lambda>_. [])"
  have run: "graph_run ?P g3_nodes ?pending ?tr"
    using graph_source [OF graph_start, of "g3_nodes ! 1" g3_nodes _ ?P] by (simp add: g3_nodes_def)
  have "?pending ''ipv4_node'' = [1, 2]" "?pending ''tx_node'' = []" "?pending ''drop_node'' = []"
    by (simp_all add: deliver_def g3_process_def emitted_rx_nodes Let_def)
  moreover have "offered ?tr = []" "freed ?tr = []"
    by (simp_all add: g3_process_def g3_rx_node_process2_def offered_def)
  ultimately have "mset (rcvd ?tr) = {#1, 2#}"
    using two_source_graph_sorts [OF run x86_order_ok] by simp
  with run show ?thesis
    using \<open>?pending ''ipv4_node'' = [1, 2]\<close> by blast
qed

text \<open>
  C32. The packet-by-packet IPv4 node of \<open>graph_dpdk/main.c\<close> and the collecting one of the other two
  programs put the same packets in the same order on both edges for every call the graph library
  makes; and the collecting one overruns one of its arrays exactly when more than 256 packets of a
  call go the same way.
\<close>

theorem ipv4_nodes_agree:
  "(length objs \<le> 256 \<longrightarrow> k < 2 \<longrightarrow>
     edge k (emitted (ipv4_node_process e B D objs) h) = edge k (emitted (g1_ipv4_node_process e B D objs) g)) \<and>
   (Undefined \<in> set (emitted (ipv4_node_process e B D objs) h) \<longleftrightarrow>
     256 < length (filter (\<lambda>m. is_ipv4 e B (D m)) objs) \<or> 256 < length (filter (\<lambda>m. \<not> is_ipv4 e B (D m)) objs))"
proof
  have x1: "edge k (emitted (g1_ipv4_node_process e B D objs) g) =
      (if k = 0 then filter (goes_on e B D) objs else if k = 1 then filter (\<lambda>m. \<not> goes_on e B D m) objs else [])"
    by (simp add: edge_g1)
  show "length objs \<le> 256 \<longrightarrow> k < 2 \<longrightarrow>
     edge k (emitted (ipv4_node_process e B D objs) h) = edge k (emitted (g1_ipv4_node_process e B D objs) g)"
    unfolding x1 by (auto simp: emitted_nodes split_packets_Some less_2_cases_iff)
  have "Undefined \<notin> set (concat (map (look D) objs))" by (auto simp: look_def)
  then have "Undefined \<in> set (emitted (ipv4_node_process e B D objs) h) \<longleftrightarrow> split_packets e B D objs [] [] = None"
    by (auto simp: emitted_nodes split: option.split)
  then show "Undefined \<in> set (emitted (ipv4_node_process e B D objs) h) \<longleftrightarrow>
     256 < length (filter (\<lambda>m. is_ipv4 e B (D m)) objs) \<or> 256 < length (filter (\<lambda>m. \<not> is_ipv4 e B (D m)) objs)"
    by (auto simp: split_packets_result goes_on_def [abs_def])
qed

theorem ipv4_nodes_agree_witness:
  "edge 0 (emitted (ipv4_node_process Little x86_order demo_data [1, 2]) []) =
   edge 0 (emitted (g1_ipv4_node_process Little x86_order demo_data [1, 2]) []) \<and>
   Undefined \<in> set (emitted (ipv4_node_process Little x86_order demo_data (replicate 257 2)) [])"
proof
  show "edge 0 (emitted (ipv4_node_process Little x86_order demo_data [1, 2]) []) =
   edge 0 (emitted (g1_ipv4_node_process Little x86_order demo_data [1, 2]) [])"
    using ipv4_nodes_agree [of "[1, 2]" 0 Little x86_order demo_data "[]" "[]"] by simp
  have "is_ipv4 Little x86_order (demo_data 2) = False"
    using goes_on_iff [OF x86_order_ok, of demo_data 2] by (simp add: goes_on_def demo_data_def)
  then show "Undefined \<in> set (emitted (ipv4_node_process Little x86_order demo_data (replicate 257 2)) [])"
    using ipv4_nodes_agree [of "replicate 257 2" 0 Little x86_order demo_data "[]" "[]"]
    by (simp add: filter_replicate)
qed

text \<open>
  The transmit nodes of the three programs forget the packets the port does not take; the drop
  nodes free all of theirs.
\<close>

theorem graph_tx_nodes_lose_unsent:
  assumes "distinct objs" and "n = counted E (length h + 1) (Eth (Tx_burst 0 0 objs))"
    and "k = counted E (length h) (Eth (Tx_burst 0 0 objs))"
  shows "own_after (set objs) (emitted (g2_tx_node_process E objs) h) = set (drop n objs) \<and>
     own_after (set objs) (emitted (g3_tx_node_process E objs) h) = set (drop n objs) \<and>
     own_after (set objs) (emitted (g1_tx_node_process E objs) h) = set (drop k objs) \<and>
     own_safe (set objs) (emitted (g2_drop_node_process objs) h) \<and>
     own_after (set objs) (emitted (g2_drop_node_process objs) h) = {} \<and>
     own_after (set objs) (emitted (g3_drop_node_process objs) h) = {} \<and>
     own_after (set objs) (emitted (g1_drop_node_process objs) h) = {}"
proof -
  have "emitted (g1_tx_node_process E objs) h = [Count (Eth (Tx_burst 0 0 objs)) k]"
    "emitted (g1_drop_node_process objs) h = map (\<lambda>m. Did (Mem (Mbuf_free m))) objs"
    by (simp_all add: g1_tx_node_process_def g1_drop_node_process_def emitted_def assms(3))
  then show ?thesis
    using assms(1,2) own_free_loop [OF order_refl assms(1)]
    by (simp add: emitted_nodes set_minus_take)
qed

theorem graph_tx_nodes_lose_unsent_witness:
  "own_after {1, 2} (emitted (g2_tx_node_process (good_env\<lparr>counted := \<lambda>_ _. 1\<rparr>) [1, 2]) []) = {2}"
  using graph_tx_nodes_lose_unsent [where objs = "[1, 2]" and h = "[]" and E = "good_env\<lparr>counted := \<lambda>_ _. 1\<rparr>",
      OF _ refl refl] by simp

text \<open>The receive node of \<open>graph_dpdk/main.c\<close> has no meaning as soon as a packet arrives.\<close>

lemma graph_dpdk_rx_undefined:
  "result (g1_rx_node_process E objs) h = None \<longleftrightarrow> burst E (length h) (Eth (Rx_burst 0 0 GRAPH_BURST_SIZE)) \<noteq> []"
  by (simp add: g1_rx_node_process_def rx_burst_into_def Let_def)

end
