(* ===== verification/Metering.thy ===== *)
theory Metering
  imports Mbuf_Ownership Port_Setup
begin

text \<open>
  The program \<open>meter_dpdk/\<close>: a port is brought up, a meter profile, a policy and a meter are
  created, a flow rule attaches the meter to the IPv4 packets, and a loop receives and frees what
  gets through.  The order in which the meter objects must exist is the monitor \<open>mtr_monitor\<close>.
\<close>

section \<open>\<open>meter_dpdk/main.c\<close>\<close>

text \<open>The profile: committed and peak rate in bytes per second, committed and peak burst size.\<close>

definition meter_rates :: meter_profile where
  "meter_rates = \<lparr>cir = 10 * 1000 * 1000, pir = 20 * 1000 * 1000, cbs = 64 * 1024, pbs = 128 * 1024\<rparr>"

definition green_actions :: "flow_action list" where "green_actions = [Action_end]"
definition yellow_actions :: "flow_action list" where "yellow_actions = [Action_end]"
definition red_actions :: "flow_action list" where "red_actions = [Action_drop, Action_end]"

definition meter_round :: "env \<Rightarrow> unit \<Rightarrow> (unit + unit) io" where
  "meter_round E _ = do {
     bufs \<leftarrow> rte_eth_rx_burst E 0 0 32;
     if bufs = [] then ret (Inr ()) else do {
     for_each (\<lambda>m. rte_pktmbuf_free m) bufs;
     ret (Inr ()) }}"

text \<open>The meter, with the profile and the policy it refers to, and the flow rule that sends IPv4 packets through it.\<close>

definition meter_instance :: mtr_call where
  "meter_instance = Meter_create 0 1 1 1"

definition meter_flow :: mtr_call where
  "meter_flow = Flow_create 0 [Item_eth, Item_ipv4, Item_end] [Action_meter 1, Action_end]"

text \<open>
  \<open>main\<close>: \<open>Some\<close> the exit status, \<open>None\<close> while the loop runs.  \<open>msg\<close> gives the message that a failed
  call leaves in its error structure.
\<close>

definition meter_main :: "env \<Rightarrow> (call \<Rightarrow> string) \<Rightarrow> nat \<Rightarrow> int option io" where
  "meter_main E msg n = do {
     r \<leftarrow> rte_eal_init E;
     if r < 0 then do { x \<leftarrow> rte_exit ''EAL init failed'' []; ret (Some x) } else do {
     mbuf_pool \<leftarrow> rte_pktmbuf_pool_create E ''MBUF_POOL'' 8192 250;
     if mbuf_pool = NULL then do { x \<leftarrow> rte_exit ''mbuf pool create failed'' []; ret (Some x) } else do {
     r \<leftarrow> rte_eth_dev_configure E 0 1 1;
     if r < 0 then do { x \<leftarrow> rte_exit ''port configure failed'' []; ret (Some x) } else do {
     r \<leftarrow> rte_eth_rx_queue_setup E 0 0 1024 (Port_socket 0) mbuf_pool;
     if r < 0 then do { x \<leftarrow> rte_exit ''RX queue setup failed'' []; ret (Some x) } else do {
     r \<leftarrow> rte_eth_tx_queue_setup E 0 0 1024 (Port_socket 0);
     if r < 0 then do { x \<leftarrow> rte_exit ''RX queue setup failed'' []; ret (Some x) } else do {
     r \<leftarrow> rte_eth_dev_start E 0;
     if r < 0 then do { x \<leftarrow> rte_exit ''port start failed'' []; ret (Some x) } else do {
     say ''Port %u started'' [PU 0];
     let add = Mtr (Profile_add 0 1 meter_rates);
     r \<leftarrow> ask_status E add;
     if r < 0 then do { x \<leftarrow> rte_exit ''profile add failed: %s'' [PS (msg add)]; ret (Some x) } else do {
     say ''Meter profile created'' [];
     let policy = Mtr (Policy_add 0 1 green_actions yellow_actions red_actions);
     r \<leftarrow> ask_status E policy;
     if r < 0 then do { x \<leftarrow> rte_exit ''policy add failed: %s'' [PS (msg policy)]; ret (Some x) } else do {
     say ''Meter policy created'' [];
     let create = Mtr meter_instance;
     r \<leftarrow> ask_status E create;
     if r < 0 then do { x \<leftarrow> rte_exit ''meter create failed: %s'' [PS (msg create)]; ret (Some x) } else do {
     say ''Meter instance created'' [];
     let attach = Mtr meter_flow;
     flow \<leftarrow> ask_pointer E attach;
     if flow = NULL then do { x \<leftarrow> rte_exit ''flow create failed: %s'' [PS (msg attach)]; ret (Some x) } else do {
     say ''Flow created and meter attached'' [];
     _ \<leftarrow> rounds n (meter_round E) ();
     ret None }}}}}}}}}}}"

section \<open>The order of the meter objects\<close>

record mtr_state =
  mt_profiles :: "nat set"
  mt_policies :: "nat set"
  mt_meters :: "nat set"
  mt_attached :: "nat set"   \<comment> \<open>meters used by a flow rule\<close>

definition mtr_none :: mtr_state where
  "mtr_none = \<lparr>mt_profiles = {}, mt_policies = {}, mt_meters = {}, mt_attached = {}\<rparr>"

definition meters_of :: "flow_action list \<Rightarrow> nat set" where
  "meters_of as = {k. Action_meter k \<in> set as}"

definition mtr_allowed :: "mtr_state \<Rightarrow> event \<Rightarrow> bool" where
  "mtr_allowed s e = (case e of
     Status c r \<Rightarrow> (case c of Mtr mc \<Rightarrow> (case mc of
         Meter_create p k prof pol \<Rightarrow> prof \<in> mt_profiles s \<and> pol \<in> mt_policies s | _ \<Rightarrow> True) | _ \<Rightarrow> True)
   | Pointer c r \<Rightarrow> (case c of Mtr mc \<Rightarrow> (case mc of
         Flow_create p items as \<Rightarrow> meters_of as \<subseteq> mt_meters s | _ \<Rightarrow> True) | _ \<Rightarrow> True)
   | _ \<Rightarrow> True)"

definition mtr_next :: "mtr_state \<Rightarrow> event \<Rightarrow> mtr_state" where
  "mtr_next s e = (case e of
     Status c r \<Rightarrow> (case c of Mtr mc \<Rightarrow> if r < 0 then s else (case mc of
         Profile_add p k prof \<Rightarrow> s\<lparr>mt_profiles := insert k (mt_profiles s)\<rparr>
       | Policy_add p k g y rd \<Rightarrow> s\<lparr>mt_policies := insert k (mt_policies s)\<rparr>
       | Meter_create p k prof pol \<Rightarrow> s\<lparr>mt_meters := insert k (mt_meters s)\<rparr>
       | _ \<Rightarrow> s) | _ \<Rightarrow> s)
   | Pointer c r \<Rightarrow> (case c of Mtr mc \<Rightarrow> if r = NULL then s else (case mc of
         Flow_create p items as \<Rightarrow> s\<lparr>mt_attached := mt_attached s \<union> meters_of as\<rparr> | _ \<Rightarrow> s) | _ \<Rightarrow> s)
   | _ \<Rightarrow> s)"

definition mtr_monitor :: "mtr_state monitor" where
  "mtr_monitor = \<lparr>allows = mtr_allowed, moves = mtr_next\<rparr>"

lemma mtr_monitor_simps [simp]: "allows mtr_monitor = mtr_allowed" "moves mtr_monitor = mtr_next"
  by (simp_all add: mtr_monitor_def)

lemma mtr_simps [simp]:
  "mtr_allowed s (Printf f as)" "mtr_next s (Printf f as) = s"
  "mtr_allowed s (Did c)" "mtr_next s (Did c) = s"
  "mtr_allowed s (Burst c ms)" "mtr_next s (Burst c ms) = s"
  "mtr_allowed s (Status (Eth ec) r)" "mtr_next s (Status (Eth ec) r) = s"
  "mtr_allowed s (Status (Eal lc) r)" "mtr_next s (Status (Eal lc) r) = s"
  "mtr_allowed s (Pointer (Mem pc) q)" "mtr_next s (Pointer (Mem pc) q) = s"
  "mtr_allowed s (Status (Mtr (Profile_add p k prof)) r)"
  "mtr_next s (Status (Mtr (Profile_add p k prof)) r) = (if r < 0 then s else s\<lparr>mt_profiles := insert k (mt_profiles s)\<rparr>)"
  "mtr_allowed s (Status (Mtr (Policy_add p k g y rd)) r)"
  "mtr_next s (Status (Mtr (Policy_add p k g y rd)) r) = (if r < 0 then s else s\<lparr>mt_policies := insert k (mt_policies s)\<rparr>)"
  "mtr_allowed s (Status (Mtr (Meter_create p k i j)) r) \<longleftrightarrow> i \<in> mt_profiles s \<and> j \<in> mt_policies s"
  "mtr_next s (Status (Mtr (Meter_create p k i j)) r) = (if r < 0 then s else s\<lparr>mt_meters := insert k (mt_meters s)\<rparr>)"
  "mtr_allowed s (Pointer (Mtr (Flow_create p items acts)) q) \<longleftrightarrow> meters_of acts \<subseteq> mt_meters s"
  "mtr_next s (Pointer (Mtr (Flow_create p items acts)) q) =
     (if q = NULL then s else s\<lparr>mt_attached := mt_attached s \<union> meters_of acts\<rparr>)"
  by (simp_all add: mtr_allowed_def mtr_next_def)

section \<open>Lemmas\<close>

lemma meter_round_appends [simp, appends_intros]: "appends (meter_round E v)"
  unfolding meter_round_def by (intro appends_intros)

interpretation meter: burst_stage meter_round
proof (unfold_locales, rule meter_round_appends)
  fix E :: env and v :: unit
  assume "bursts_distinct E"
  then show "follows own_monitor {} (meter_round E v) (\<lambda>_ S. S = {})"
    unfolding meter_round_def by (intro follows_intros follows_free_loop appends_intros) simp_all
qed

text \<open>The loop keeps a monitor that allows receiving and freeing in its present state.\<close>

lemma meter_loop_follows:
  assumes "\<And>ms. allows M s (Burst (Eth (Rx_burst 0 0 32)) ms) \<and> moves M s (Burst (Eth (Rx_burst 0 0 32)) ms) = s"
    and "\<And>m. allows M s (Did (Mem (Mbuf_free m))) \<and> moves M s (Did (Mem (Mbuf_free m))) = s"
  shows "follows M s (rounds n (meter_round E) v) (\<lambda>_ s'. s' = s)"
proof -
  have frees: "mon_safe M s (map (\<lambda>m. Did (Mem (Mbuf_free m))) ms) \<and>
      mon_after M s (map (\<lambda>m. Did (Mem (Mbuf_free m))) ms) = s" for ms
    using assms(2) by (induction ms) simp_all
  have "emitted (meter_round E v) h = (let p = burst E (length h) (Eth (Rx_burst 0 0 32)) in
      Burst (Eth (Rx_burst 0 0 32)) p # map (\<lambda>m. Did (Mem (Mbuf_free m))) p)" for v h
    by (simp add: emitted_def meter_round_def Let_def)
  then have round: "follows M s (meter_round E v) (\<lambda>_ s'. s' = s)" for v
    using assms(1) frees by (simp add: follows_def Let_def)
  have "follows M s (rounds n (meter_round E) v) (\<lambda>r s'. case r of Inl x \<Rightarrow> s' = s | Inr v' \<Rightarrow> s' = s)"
    by (rule follows_rounds [where I = "\<lambda>_ s'. s' = s"])
      (use round in \<open>auto intro: follows_weaken split: sum.split\<close>)
  then show ?thesis by (rule follows_weaken) (auto split: sum.splits)
qed

lemma follows_meter_loop:
  assumes "\<And>ms. allows M s (Burst (Eth (Rx_burst 0 0 32)) ms) \<and> moves M s (Burst (Eth (Rx_burst 0 0 32)) ms) = s"
    and "\<And>m. allows M s (Did (Mem (Mbuf_free m))) \<and> moves M s (Did (Mem (Mbuf_free m))) = s"
    and "\<And>r. follows M s (f r) Q" and "\<And>r. appends (f r)"
  shows "follows M s (rounds n (meter_round E) v \<bind> f) Q"
  by (rule follows_bind_rule [OF meter_loop_follows [OF assms(1,2)]]) (use assms(3,4) in auto)

lemma meter_main_eth:
  "follows eth_monitor eth_down (meter_main E msg n)
     (\<lambda>r s. (r = None \<or> r = Some 1) \<and> (r = None \<longrightarrow> ps_started (s 0)))"
  unfolding meter_main_def meter_instance_def meter_flow_def Let_def
  by (intro follows_intros follows_meter_loop appends_intros) (simp_all split: if_splits)

lemma meter_main_mtr:
  "follows mtr_monitor mtr_none (meter_main E msg n)
     (\<lambda>r s. (r = None \<or> r = Some 1) \<and> (r = None \<longrightarrow> mt_attached s = {1}))"
  unfolding meter_main_def meter_instance_def meter_flow_def Let_def
  by (intro follows_intros follows_meter_loop appends_intros)
    (simp_all add: mtr_none_def meters_of_def split: if_splits)

section \<open>Properties\<close>

text \<open>
  C26. Whatever the devices answer, \<open>meter_dpdk\<close> makes its calls in an order both protocols allow (the
  port: configuration, queues, start, packets; the meter: profile and policy, meter, flow rule),
  ends with status 1 at the first failure, and reaches its loop only with port 0 started and the
  meter attached.
\<close>

theorem meter_main_ordered:
  "eth_safe eth_down (emitted (meter_main E msg n) []) \<and>
   mon_safe mtr_monitor mtr_none (emitted (meter_main E msg n) []) \<and>
   result (meter_main E msg n) [] \<in> {None, Some 1} \<and>
   (result (meter_main E msg n) [] = None \<longrightarrow>
      ps_started (eth_after eth_down (emitted (meter_main E msg n) []) 0) \<and>
      mt_attached (mon_after mtr_monitor mtr_none (emitted (meter_main E msg n) [])) = {1})"
  using meter_main_eth [of E msg n] meter_main_mtr [of E msg n] by (auto simp: follows_def)

theorem meter_main_ordered_witness:
  "result (meter_main busy_env (\<lambda>_. []) 1) [] = None \<and>
   mt_attached (mon_after mtr_monitor mtr_none (emitted (meter_main busy_env (\<lambda>_. []) 1) [])) = {1}"
proof -
  have "result (meter_main busy_env (\<lambda>_. []) 1) [] = None"
    by (simp add: meter_main_def Let_def NULL_def)
  then show ?thesis using meter_main_ordered [of busy_env "\<lambda>_. []" 1] by simp
qed

text \<open>
  The receive loop of \<open>meter_dpdk\<close> frees every packet it gets exactly once, over any number of
  rounds.
\<close>

theorem meter_loop_frees_all:
  assumes "bursts_distinct E" and "bursts_bounded E"
  shows "own_safe {} (emitted (rounds n (meter_round E) ()) h) \<and>
     own_after {} (emitted (rounds n (meter_round E) ()) h) = {}"
  by (simp add: meter.service_loop_safe [OF assms])

theorem meter_loop_frees_all_witness:
  "own_after {} (emitted (rounds 3 (meter_round busy_env) ()) []) = {}"
  using meter_loop_frees_all [OF busy_env_ok(1,2)] by blast

end
