(* ===== verification/Machines.thy ===== *)
theory Machines
  imports Dpdk_Prelude
begin

text \<open>
  Programs that run concurrently and share memory.  A thread is a step function with its program
  counter in the state; one step is one statement that touches shared data, and what the library
  answers to the call of the step is an argument.  A thread comes with the documented condition
  on those answers.  \<open>runs\<close> interleaves the threads in any order.

  Two interfaces: a \<open>machine\<close> has an invariant that every step keeps; a \<open>draining\<close> machine has in
  addition a measure that falls with every step that changes something, and always such a step
  unless it is finished.  Then no interleaving makes more than a fixed number of steps other than
  waiting, and none gets stuck.
\<close>

section \<open>Threads and their interleavings\<close>

text \<open>The answer of a call: an address (of \<open>rte_malloc\<close>, or what a ring returned), and whether it failed.\<close>

record answer =
  addr :: ptr
  fails :: bool

type_synonym 's thread = "('s \<Rightarrow> answer \<Rightarrow> bool) \<times> (answer \<Rightarrow> 's \<Rightarrow> 's)"

text \<open>\<open>runs T s n t\<close>: the threads \<open>T\<close> can go from \<open>s\<close> to \<open>t\<close> with \<open>n\<close> steps that change the state.\<close>

inductive runs :: "'s thread list \<Rightarrow> 's \<Rightarrow> nat \<Rightarrow> 's \<Rightarrow> bool" for T s where
  runs_start: "runs T s 0 s"
| runs_step: "runs T s n t \<Longrightarrow> (ok, f) \<in> set T \<Longrightarrow> ok t a \<Longrightarrow> u = f a t
    \<Longrightarrow> runs T s (if u = t then n else Suc n) u"

lemma runs_extend:
  assumes "runs T s n t" and "(ok, f) \<in> set T" and "ok t a"
  shows "\<exists>m. runs T s m (f a t)"
  using runs_step [OF assms refl] by blast

lemma runs_trans:
  assumes "runs T t k u" and "runs T s n t"
  shows "\<exists>m. runs T s m u"
  using assms
proof (induction rule: runs.induct)
  case (runs_step k t' ok f a u)
  then show ?case using runs_extend by metis
qed blast

text \<open>A run given by the threads that take a step and the answers they get, for examples.\<close>

fun steps :: "'s thread list \<Rightarrow> (nat \<times> answer) list \<Rightarrow> 's \<Rightarrow> 's" where
  "steps T [] s = s"
| "steps T ((k, a) # ks) s = steps T ks (snd (T ! k) a s)"

fun steps_ok :: "'s thread list \<Rightarrow> (nat \<times> answer) list \<Rightarrow> 's \<Rightarrow> bool" where
  "steps_ok T [] s = True"
| "steps_ok T ((k, a) # ks) s = (k < length T \<and> fst (T ! k) s a \<and> steps_ok T ks (snd (T ! k) a s))"

lemma runs_steps:
  assumes "steps_ok T ks s"
  shows "\<exists>n. runs T s n (steps T ks s)"
proof -
  have "\<exists>m. runs T s m (steps T ks t)" if "runs T s n t" "steps_ok T ks t" for n t
    using that
  proof (induction T ks t arbitrary: n rule: steps.induct)
    case (2 T k a ks t)
    then have "(fst (T ! k), snd (T ! k)) \<in> set T" "fst (T ! k) t a" by simp_all
    then obtain m where "runs T s m (snd (T ! k) a t)" using runs_extend [OF "2.prems"(1)] by blast
    then show ?case using "2.IH" "2.prems"(2) by simp
  qed auto
  then show ?thesis using runs_start assms by metis
qed

section \<open>Invariants and progress\<close>

locale machine =
  fixes T :: "'s thread list" and start :: 's and inv :: "'s \<Rightarrow> bool"
  assumes inv_start: "inv start"
    and inv_step: "\<lbrakk>inv s; (ok, f) \<in> set T; ok s a\<rbrakk> \<Longrightarrow> inv (f a s)"
begin

lemma runs_inv: "runs T s n t \<Longrightarrow> inv s \<Longrightarrow> inv t"
  by (induction rule: runs.induct) (auto intro: inv_step)

lemma reachable_inv: "runs T start n s \<Longrightarrow> inv s"
  using runs_inv inv_start by blast

end

locale draining = machine T start inv
  for T :: "'s thread list" and start and inv +
  fixes left :: "'s \<Rightarrow> nat" and finished :: "'s \<Rightarrow> bool"
  assumes left_drops: "\<lbrakk>inv s; (ok, f) \<in> set T; ok s a; f a s \<noteq> s\<rbrakk> \<Longrightarrow> left (f a s) < left s"
    and moves: "\<lbrakk>inv s; \<not> finished s\<rbrakk> \<Longrightarrow> \<exists>(ok, f) \<in> set T. \<exists>a. ok s a \<and> f a s \<noteq> s"
begin

lemma steps_bounded: "runs T s n t \<Longrightarrow> inv s \<Longrightarrow> n + left t \<le> left s"
proof (induction rule: runs.induct)
  case (runs_step n t ok f a u)
  then have "inv t" by (blast intro: runs_inv)
  then show ?case using runs_step left_drops [of t ok f a] by auto
qed simp

lemma reachable_steps_bounded: "runs T start n s \<Longrightarrow> n \<le> left start"
  using steps_bounded inv_start by fastforce

lemma can_finish: "inv s \<Longrightarrow> \<exists>n t. runs T s n t \<and> finished t"
proof (induction "left s" arbitrary: s rule: less_induct)
  case less
  show ?case
  proof (cases "finished s")
    case True
    moreover have "runs T s 0 s" by (rule runs_start)
    ultimately show ?thesis by (intro exI conjI)
  next
    case False
    then obtain ok f a where step: "(ok, f) \<in> set T" "ok s a" "f a s \<noteq> s"
      using moves less.prems by blast
    then obtain n t where "runs T (f a s) n t" "finished t"
      using less.hyps left_drops inv_step less.prems by blast
    moreover obtain m where "runs T s m (f a s)" using runs_extend [OF runs_start] step by metis
    ultimately show ?thesis using runs_trans by metis
  qed
qed

lemma reachable_can_finish: "runs T start n s \<Longrightarrow> \<exists>m t. runs T s m t \<and> finished t"
  using can_finish reachable_inv by blast

end

end
