(* ===== verification/Shared_Memory.thy ===== *)
theory Shared_Memory
  imports Machines Dpdk_Api
begin

text \<open>
  Memory shared by two threads or processes: cells of one \<open>int\<close> from \<open>rte_malloc\<close> and rings of
  pointers to them.  A read or a free of a cell that is not in use is an event of its own, so that
  a theorem can say where it may happen.  The last definitions are the documented conditions on
  the answers of the library: \<open>rte_malloc\<close> returns NULL or a cell that is not in use, a ring of
  1024 refuses an element only when it holds 1023, and gives its elements back in order.
\<close>

section \<open>Shared memory\<close>

definition RING_SIZE :: nat where "RING_SIZE = 1024"

text \<open>What the processes do that can be observed: print a number, print a fixed line, print the contents of a cell that
  has been freed, free a cell, free a cell that is not in use.\<close>

datatype ipc_event = Said string int | Line string | Stale string ptr | Freed ptr | Bad_free ptr

record shm =
  heap :: "ptr \<rightharpoonup> int"
  out :: "ipc_event list"

definition show_cell :: "(ptr \<rightharpoonup> int) \<Rightarrow> string \<Rightarrow> ptr \<Rightarrow> ipc_event" where
  "show_cell h msg p = (case h p of Some v \<Rightarrow> Said msg v | None \<Rightarrow> Stale msg p)"

definition free_cell :: "(ptr \<rightharpoonup> int) \<Rightarrow> ptr \<Rightarrow> ipc_event" where
  "free_cell h p = (if h p = None then Bad_free p else Freed p)"

definition malloc_ok :: "bool \<Rightarrow> (ptr \<rightharpoonup> int) \<Rightarrow> answer \<Rightarrow> bool" where
  "malloc_ok oom h a \<longleftrightarrow> h (addr a) = None \<and> (addr a = NULL \<longrightarrow> oom)"

definition enqueue_ok :: "ptr list \<Rightarrow> answer \<Rightarrow> bool" where
  "enqueue_ok r a \<longleftrightarrow> (fails a \<longrightarrow> RING_SIZE - 1 \<le> length r)"

definition dequeue_ok :: "ptr list \<Rightarrow> answer \<Rightarrow> bool" where
  "dequeue_ok r a \<longleftrightarrow> (if r = [] then fails a else \<not> fails a \<and> addr a = hd r)"

lemmas library_ok = malloc_ok_def enqueue_ok_def dequeue_ok_def

text \<open>The numbers printed with a message, in order.\<close>

definition said :: "string \<Rightarrow> ipc_event list \<Rightarrow> int list" where
  "said msg es = concat (map (\<lambda>e. case e of Said f v \<Rightarrow> if f = msg then [v] else [] | _ \<Rightarrow> []) es)"

lemma said_simps [simp]:
  "said msg [] = []" "said msg (xs @ ys) = said msg xs @ said msg ys"
  "said msg (Said f v # es) = (if f = msg then [v] else []) @ said msg es"
  "said msg (Freed p # es) = said msg es" "said msg (Stale f p # es) = said msg es"
  "said msg (Bad_free p # es) = said msg es" "said msg (Line f # es) = said msg es"
  by (simp_all add: said_def)

end
