(* ===== verification/Ipc_Rings.thy ===== *)
theory Ipc_Rings
  imports Shared_Memory
begin

text \<open>
  Two processes that exchange messages through rings in shared memory: \<open>full_duplex_2_rings/\<close>
  (a request on one ring, its answer on another) and \<open>ipc_ring_pri_sec/\<close> (one ring, one way).
  A message is a cell of one \<open>int\<close> from \<open>rte_malloc\<close>.

  The state is the shared memory (the cells in use with their contents, and the rings) together
  with the program counter and the local variables of both processes.  A step is one statement
  that touches shared data; a loop that waits takes a step that changes nothing.  What the code
  relies on of the library is in \<open>prim_main_ok\<close> and \<open>sec_main_ok\<close>.
\<close>

text \<open>The messages of the two programs.\<close>

definition "PRI_SENT = ''PRIMARY : Sent %d msg to Secondary''"
definition "PRI_GOT = ''PRIMARY : got %d msg from Secondary''"
definition "SEC_RECEIVED = ''Secondary Received %d msg from Primary''"
definition "SEC_SENT = ''Secondary : Sent %d msg to Primary''"

lemmas messages = PRI_SENT_def PRI_GOT_def SEC_RECEIVED_def SEC_SENT_def

section \<open>Request and answer over two rings\<close>

text \<open>
  The program points of \<open>prim.c\<close>: the loop test with the allocation of the next message (or of the
  stop message), the enqueue loop, the two prints, the dequeue loop, the free, the end.
  \<open>P_crash\<close> is the write through NULL after a failed allocation.
\<close>

datatype prim_pc = P_next | P_enqueue | P_sent | P_dequeue | P_got | P_free | P_stop | P_end | P_done | P_crash

datatype sec_pc = S_dequeue | S_check | S_show | S_free | S_reply | S_enqueue | S_said | S_done | S_crash

record duplex = shm +
  ring1 :: "ptr list"
  ring2 :: "ptr list"
  prim :: prim_pc
  loop_i :: int
  msg :: ptr
  received :: ptr
  stop :: ptr
  sec :: sec_pc
  val :: ptr
  res :: int
  reply :: ptr

definition prim_main_step :: "answer \<Rightarrow> duplex \<Rightarrow> duplex" where
  "prim_main_step a s = (case prim s of
     P_next \<Rightarrow> if addr a = NULL then s\<lparr>prim := P_crash\<rparr>
       else if loop_i s < 10 then s\<lparr>heap := (heap s)(addr a \<mapsto> loop_i s), msg := addr a, prim := P_enqueue\<rparr>
       else s\<lparr>heap := (heap s)(addr a \<mapsto> -1), stop := addr a, prim := P_stop\<rparr>
   | P_enqueue \<Rightarrow> if fails a then s else s\<lparr>ring1 := ring1 s @ [msg s], prim := P_sent\<rparr>
   | P_sent \<Rightarrow> s\<lparr>out := out s @ [show_cell (heap s) PRI_SENT (msg s)], prim := P_dequeue\<rparr>
   | P_dequeue \<Rightarrow> if fails a then s else s\<lparr>ring2 := tl (ring2 s), received := addr a, prim := P_got\<rparr>
   | P_got \<Rightarrow> s\<lparr>out := out s @ [show_cell (heap s) PRI_GOT (msg s)], prim := P_free\<rparr>
   | P_free \<Rightarrow> s\<lparr>out := out s @ [free_cell (heap s) (received s)], heap := (heap s)(received s := None),
       loop_i := loop_i s + 1, prim := P_next\<rparr>
   | P_stop \<Rightarrow> s\<lparr>ring1 := (if fails a then ring1 s else ring1 s @ [stop s]), prim := P_end\<rparr>
   | P_end \<Rightarrow> s\<lparr>out := out s @ [Line ''Primary Stopped.....''], prim := P_done\<rparr>
   | P_done \<Rightarrow> s
   | P_crash \<Rightarrow> s)"

definition prim_main_ok :: "bool \<Rightarrow> duplex \<Rightarrow> answer \<Rightarrow> bool" where
  "prim_main_ok oom s a = (case prim s of
     P_next \<Rightarrow> malloc_ok oom (heap s) a
   | P_enqueue \<Rightarrow> enqueue_ok (ring1 s) a
   | P_dequeue \<Rightarrow> dequeue_ok (ring2 s) a
   | P_stop \<Rightarrow> enqueue_ok (ring1 s) a
   | _ \<Rightarrow> True)"

text \<open>
  \<open>sec.c\<close>: the test for the stop message, the print, the product, the free of the message, the
  answer, and the print after the answer has been handed over.
\<close>

definition sec_main_step :: "answer \<Rightarrow> duplex \<Rightarrow> duplex" where
  "sec_main_step a s = (case sec s of
     S_dequeue \<Rightarrow> if fails a then s else s\<lparr>ring1 := tl (ring1 s), val := addr a, sec := S_check\<rparr>
   | S_check \<Rightarrow> if heap s (val s) = None then s\<lparr>out := out s @ [Stale ''*val'' (val s)], sec := S_show\<rparr>
       else if heap s (val s) = Some (-1)
       then s\<lparr>out := out s @ [free_cell (heap s) (val s), Line ''Secondary Stopped''],
         heap := (heap s)(val s := None), sec := S_done\<rparr>
       else s\<lparr>sec := S_show\<rparr>
   | S_show \<Rightarrow> s\<lparr>out := out s @ [show_cell (heap s) SEC_RECEIVED (val s)],
       res := (case heap s (val s) of Some v \<Rightarrow> v * 10 | None \<Rightarrow> res s), sec := S_free\<rparr>
   | S_free \<Rightarrow> s\<lparr>out := out s @ [free_cell (heap s) (val s)], heap := (heap s)(val s := None), sec := S_reply\<rparr>
   | S_reply \<Rightarrow> if addr a = NULL then s\<lparr>sec := S_crash\<rparr>
       else s\<lparr>heap := (heap s)(addr a \<mapsto> res s), reply := addr a, sec := S_enqueue\<rparr>
   | S_enqueue \<Rightarrow> if fails a then s else s\<lparr>ring2 := ring2 s @ [reply s], sec := S_said\<rparr>
   | S_said \<Rightarrow> s\<lparr>out := out s @ [show_cell (heap s) SEC_SENT (reply s)], sec := S_dequeue\<rparr>
   | S_done \<Rightarrow> s
   | S_crash \<Rightarrow> s)"

definition sec_main_ok :: "bool \<Rightarrow> duplex \<Rightarrow> answer \<Rightarrow> bool" where
  "sec_main_ok oom s a = (case sec s of
     S_dequeue \<Rightarrow> dequeue_ok (ring1 s) a
   | S_reply \<Rightarrow> malloc_ok oom (heap s) a
   | S_enqueue \<Rightarrow> enqueue_ok (ring2 s) a
   | _ \<Rightarrow> True)"

definition duplex_threads :: "bool \<Rightarrow> duplex thread list" where
  "duplex_threads oom = [(prim_main_ok oom, prim_main_step), (sec_main_ok oom, sec_main_step)]"

definition duplex_start :: duplex where
  "duplex_start = \<lparr>heap = Map.empty, out = [], ring1 = [], ring2 = [], prim = P_next, loop_i = 0, msg = NULL,
     received = NULL, stop = NULL, sec = S_dequeue, val = NULL, res = 0, reply = NULL\<rparr>"

text \<open>What comes before: the rings are created by one process and looked up by the other.\<close>

definition duplex_prim_init :: "env \<Rightarrow> (int + ptr \<times> ptr) io" where
  "duplex_prim_init E = do {
     r \<leftarrow> rte_eal_init E;
     if r < 0 then do { say ''ERROR in Intializing EAL'' []; ret (Inl 1) } else do {
     r1 \<leftarrow> rte_ring_create E ''ring1'' RING_SIZE;
     if r1 = NULL then do { say ''Error In RING1 creation'' []; ret (Inl 1) } else do {
     r2 \<leftarrow> rte_ring_create E ''ring2'' RING_SIZE;
     if r2 = NULL then do { say ''Error in RING2 creation'' []; ret (Inl 1) }
     else ret (Inr (r1, r2)) } } }"

text \<open>The lookup loop of a secondary process; it ends when the ring exists.\<close>

definition lookup_round :: "env \<Rightarrow> string \<Rightarrow> call \<Rightarrow> unit \<Rightarrow> (ptr + unit) io" where
  "lookup_round E name wait u = do {
     r \<leftarrow> rte_ring_lookup E name;
     act wait;
     ret (if r = NULL then Inr () else Inl r) }"

definition duplex_sec_init :: "env \<Rightarrow> nat \<Rightarrow> (int + (ptr \<times> ptr) option) io" where
  "duplex_sec_init E n = do {
     r \<leftarrow> rte_eal_init E;
     if r < 0 then do { say ''ERROR in Intializing EAL'' []; ret (Inl 1) } else do {
     r1 \<leftarrow> rounds n (lookup_round E ''ring1'' (Eal Pause)) ();
     case r1 of Inr u \<Rightarrow> ret (Inr None) | Inl p1 \<Rightarrow> do {
     say ''RING1 Found'' [];
     r2 \<leftarrow> rounds n (lookup_round E ''ring2'' (Eal Pause)) ();
     case r2 of Inr u \<Rightarrow> ret (Inr None) | Inl p2 \<Rightarrow> do {
     say ''RING2 Found'' [];
     ret (Inr (Some (p1, p2))) } } } }"

section \<open>One cell in use, and where it is\<close>

text \<open>
  The two processes take turns: at any time at most one cell is in use, and one of them (or a
  ring) has it.  \<open>resting\<close>: the secondary process waits; \<open>serving\<close>: it works on the message.
\<close>

definition resting :: "duplex \<Rightarrow> bool" where
  "resting s \<longleftrightarrow> ring1 s = [] \<and> ring2 s = [] \<and> (sec s = S_dequeue \<or> sec s = S_said)"

definition serving :: "duplex \<Rightarrow> bool" where
  "serving s \<longleftrightarrow> (case sec s of
     S_dequeue \<Rightarrow> ring1 s = [msg s] \<and> ring2 s = [] \<and> heap s = [msg s \<mapsto> loop_i s] \<or>
       ring1 s = [] \<and> ring2 s = [reply s] \<and> heap s = [reply s \<mapsto> 10 * loop_i s]
   | S_said \<Rightarrow> ring1 s = [msg s] \<and> ring2 s = [] \<and> heap s = [msg s \<mapsto> loop_i s] \<or>
       ring1 s = [] \<and> ring2 s = [reply s] \<and> heap s = [reply s \<mapsto> 10 * loop_i s]
   | S_check \<Rightarrow> ring1 s = [] \<and> ring2 s = [] \<and> val s = msg s \<and> heap s = [msg s \<mapsto> loop_i s]
   | S_show \<Rightarrow> ring1 s = [] \<and> ring2 s = [] \<and> val s = msg s \<and> heap s = [msg s \<mapsto> loop_i s]
   | S_free \<Rightarrow> ring1 s = [] \<and> ring2 s = [] \<and> val s = msg s \<and> heap s = [msg s \<mapsto> loop_i s] \<and>
       res s = 10 * loop_i s
   | S_reply \<Rightarrow> ring1 s = [] \<and> ring2 s = [] \<and> heap s = Map.empty \<and> res s = 10 * loop_i s
   | S_enqueue \<Rightarrow> ring1 s = [] \<and> ring2 s = [] \<and> heap s = [reply s \<mapsto> 10 * loop_i s]
   | S_done \<Rightarrow> False
   | S_crash \<Rightarrow> ring1 s = [] \<and> ring2 s = [] \<and> heap s = Map.empty)"

definition stopping :: "duplex \<Rightarrow> bool" where
  "stopping s \<longleftrightarrow> ring2 s = [] \<and> (case sec s of
     S_dequeue \<Rightarrow> ring1 s = [stop s] \<and> heap s = [stop s \<mapsto> -1]
   | S_said \<Rightarrow> ring1 s = [stop s] \<and> heap s = [stop s \<mapsto> -1]
   | S_check \<Rightarrow> ring1 s = [] \<and> val s = stop s \<and> heap s = [stop s \<mapsto> -1]
   | S_done \<Rightarrow> ring1 s = [] \<and> heap s = Map.empty
   | _ \<Rightarrow> False)"

definition turns :: "duplex \<Rightarrow> bool" where
  "turns s \<longleftrightarrow> 0 \<le> loop_i s \<and> loop_i s \<le> 10 \<and> (case prim s of
     P_next \<Rightarrow> resting s \<and> heap s = Map.empty
   | P_enqueue \<Rightarrow> resting s \<and> loop_i s < 10 \<and> heap s = [msg s \<mapsto> loop_i s]
   | P_sent \<Rightarrow> serving s \<and> loop_i s < 10
   | P_dequeue \<Rightarrow> serving s \<and> loop_i s < 10
   | P_got \<Rightarrow> resting s \<and> loop_i s < 10 \<and> heap s = [received s \<mapsto> 10 * loop_i s]
   | P_free \<Rightarrow> resting s \<and> loop_i s < 10 \<and> heap s = [received s \<mapsto> 10 * loop_i s]
   | P_stop \<Rightarrow> resting s \<and> loop_i s = 10 \<and> heap s = [stop s \<mapsto> -1]
   | P_end \<Rightarrow> stopping s \<and> loop_i s = 10
   | P_done \<Rightarrow> stopping s \<and> loop_i s = 10
   | P_crash \<Rightarrow> resting s \<and> heap s = Map.empty)"

lemmas duplex_ok = prim_main_ok_def sec_main_ok_def library_ok RING_SIZE_def

lemma turns_prim: "turns s \<Longrightarrow> prim_main_ok oom s a \<Longrightarrow> turns (prim_main_step a s)"
  by (cases "prim s"; cases "sec s")
    (auto simp: turns_def resting_def serving_def stopping_def prim_main_step_def duplex_ok)

lemma turns_sec: "turns s \<Longrightarrow> sec_main_ok oom s a \<Longrightarrow> turns (sec_main_step a s)"
  by (cases "prim s"; cases "sec s")
    (auto simp: turns_def resting_def serving_def stopping_def sec_main_step_def duplex_ok)

text \<open>How many messages the secondary process has printed.\<close>

definition heard :: "duplex \<Rightarrow> nat" where
  "heard s = nat (loop_i s) +
     (if prim s = P_got \<or> prim s = P_free \<or> (prim s = P_sent \<or> prim s = P_dequeue) \<and>
         (ring2 s \<noteq> [] \<or> sec s = S_free \<or> sec s = S_reply \<or> sec s = S_enqueue \<or> sec s = S_crash)
      then 1 else 0)"

definition duplex_inv :: "bool \<Rightarrow> duplex \<Rightarrow> bool" where
  "duplex_inv oom s \<longleftrightarrow> turns s \<and> said SEC_RECEIVED (out s) = map int [0..<heard s] \<and>
     (\<forall>p. Bad_free p \<notin> set (out s)) \<and> (prim s = P_crash \<or> sec s = S_crash \<longrightarrow> oom)"

lemma show_cell_simps:
  "said m [show_cell h f p] = (case h p of Some v \<Rightarrow> if f = m then [v] else [] | None \<Rightarrow> [])"
  "said m (free_cell h p # es) = said m es" "Bad_free q \<noteq> show_cell h f p"
  "Bad_free q = free_cell h p \<longleftrightarrow> q = p \<and> h p = None"
  by (auto simp: show_cell_def free_cell_def split: option.split)

lemma duplex_inv_prim: "duplex_inv oom s \<Longrightarrow> prim_main_ok oom s a \<Longrightarrow> duplex_inv oom (prim_main_step a s)"
  using turns_prim [of s oom a]
  by (cases "prim s"; cases "sec s")
    (auto simp: duplex_inv_def heard_def turns_def resting_def serving_def stopping_def prim_main_step_def
      duplex_ok show_cell_simps messages nat_add_distrib split: option.splits if_splits)

lemma duplex_inv_sec: "duplex_inv oom s \<Longrightarrow> sec_main_ok oom s a \<Longrightarrow> duplex_inv oom (sec_main_step a s)"
  using turns_sec [of s oom a]
  by (cases "prim s"; cases "sec s")
    (auto simp: duplex_inv_def heard_def turns_def resting_def serving_def stopping_def sec_main_step_def
      duplex_ok show_cell_simps messages split: option.splits if_splits)

section \<open>Progress\<close>

text \<open>The steps left, not counting the waiting ones.\<close>

definition prim_left :: "duplex \<Rightarrow> nat" where
  "prim_left s = (case prim s of
     P_next \<Rightarrow> 6 * nat (10 - loop_i s) + 3
   | P_enqueue \<Rightarrow> 6 * nat (10 - loop_i s) + 2
   | P_sent \<Rightarrow> 6 * nat (10 - loop_i s) + 1
   | P_dequeue \<Rightarrow> 6 * nat (10 - loop_i s)
   | P_got \<Rightarrow> 6 * nat (9 - loop_i s) + 5
   | P_free \<Rightarrow> 6 * nat (9 - loop_i s) + 4
   | P_stop \<Rightarrow> 2 | P_end \<Rightarrow> 1 | P_done \<Rightarrow> 0 | P_crash \<Rightarrow> 0)"

definition to_come :: "duplex \<Rightarrow> nat" where
  "to_come s = length (ring1 s) + (case prim s of
     P_next \<Rightarrow> nat (11 - loop_i s) | P_enqueue \<Rightarrow> nat (11 - loop_i s)
   | P_sent \<Rightarrow> nat (10 - loop_i s) | P_dequeue \<Rightarrow> nat (10 - loop_i s)
   | P_got \<Rightarrow> nat (10 - loop_i s) | P_free \<Rightarrow> nat (10 - loop_i s)
   | P_stop \<Rightarrow> 1 | P_end \<Rightarrow> 0 | P_done \<Rightarrow> 0 | P_crash \<Rightarrow> 0)"

definition sec_left :: "duplex \<Rightarrow> nat" where
  "sec_left s = 7 * to_come s + (case sec s of
     S_check \<Rightarrow> 6 | S_show \<Rightarrow> 5 | S_free \<Rightarrow> 4 | S_reply \<Rightarrow> 3 | S_enqueue \<Rightarrow> 2 | S_said \<Rightarrow> 1
   | S_dequeue \<Rightarrow> 0 | S_done \<Rightarrow> 0 | S_crash \<Rightarrow> 0)"

definition duplex_left :: "duplex \<Rightarrow> nat" where
  "duplex_left s = prim_left s + sec_left s"

definition duplex_over :: "duplex \<Rightarrow> bool" where
  "duplex_over s \<longleftrightarrow> prim s = P_done \<and> sec s = S_done \<or> prim s = P_crash \<or> sec s = S_crash"

lemmas left_defs = duplex_left_def prim_left_def sec_left_def to_come_def
lemmas turn_defs = turns_def resting_def serving_def stopping_def

lemma left_prim: "turns s \<Longrightarrow> prim_main_ok oom s a \<Longrightarrow> prim_main_step a s \<noteq> s \<Longrightarrow>
    duplex_left (prim_main_step a s) < duplex_left s"
  by (cases "prim s")
    (auto simp: left_defs turn_defs prim_main_step_def duplex_ok nat_diff_distrib split: if_splits)

lemma sec_keeps:
  "prim (sec_main_step a s) = prim s" "loop_i (sec_main_step a s) = loop_i s"
  "ring1 (sec_main_step a s) = (if sec s = S_dequeue \<and> \<not> fails a then tl (ring1 s) else ring1 s)"
  by (cases "sec s"; simp add: sec_main_step_def)+

lemma left_sec:
  assumes "sec_main_ok oom s a" and "sec_main_step a s \<noteq> s"
  shows "duplex_left (sec_main_step a s) < duplex_left s"
proof (cases "sec s = S_dequeue")
  case True
  then obtain p r where "ring1 s = p # r" "\<not> fails a"
    using assms by (cases "ring1 s") (auto simp: duplex_ok sec_main_step_def)
  then have "to_come (sec_main_step a s) + 1 = to_come s" "sec (sec_main_step a s) = S_check"
    using True by (simp_all add: to_come_def sec_keeps cong: prim_pc.case_cong) (simp add: sec_main_step_def)
  then show ?thesis using True
    by (simp add: duplex_left_def prim_left_def sec_left_def sec_keeps cong: prim_pc.case_cong)
next
  case False
  then have "to_come (sec_main_step a s) = to_come s" "prim_left (sec_main_step a s) = prim_left s"
    by (simp_all add: to_come_def prim_left_def sec_keeps cong: prim_pc.case_cong)
  then show ?thesis using False assms(2)
    by (cases "sec s") (auto simp: duplex_left_def sec_left_def sec_main_step_def)
qed

text \<open>
  Every step that is not a waiting one moves a program counter, and one of the two processes can
  always make such a step; an allocation can succeed, as there are addresses that are not in use.
\<close>

lemma prim_moves:
  assumes "turns s" and "prim s \<notin> {P_dequeue, P_done, P_crash}"
  shows "\<exists>a. prim_main_ok oom s a \<and> prim (prim_main_step a s) \<noteq> prim s"
  using assms by (intro exI [of _ "\<lparr>addr = 1, fails = False\<rparr>"])
    (cases "prim s"; simp add: turn_defs prim_main_step_def duplex_ok NULL_def)

lemma sec_moves:
  assumes "turns s" and "sec s \<notin> {S_done, S_crash, S_dequeue}"
  shows "\<exists>a. sec_main_ok oom s a \<and> sec (sec_main_step a s) \<noteq> sec s"
proof (cases "sec s = S_reply")
  case True
  then have "heap s = Map.empty" using assms(1) by (auto simp: turn_defs split: prim_pc.splits)
  then show ?thesis using True
    by (intro exI [of _ "\<lparr>addr = 1, fails = False\<rparr>"]) (simp add: sec_main_step_def duplex_ok NULL_def)
next
  case False
  then show ?thesis using assms(2) by (intro exI [of _ "\<lparr>addr = 1, fails = False\<rparr>"])
      (cases "sec s"; simp add: sec_main_step_def duplex_ok)
qed

lemma duplex_moves:
  assumes "turns s" and "\<not> duplex_over s"
  shows "\<exists>a. prim_main_ok oom s a \<and> prim (prim_main_step a s) \<noteq> prim s \<or>
     sec_main_ok oom s a \<and> sec (sec_main_step a s) \<noteq> sec s"
proof (cases "prim s \<in> {P_dequeue, P_done, P_crash}")
  case True
  then consider "sec s \<notin> {S_done, S_crash, S_dequeue}" | "sec s = S_dequeue" "ring1 s \<noteq> []"
    | "prim s = P_dequeue" "ring2 s = [reply s]"
    using assms by (cases "prim s"; cases "sec s") (auto simp: turn_defs duplex_over_def)
  then show ?thesis
  proof cases
    case 1
    then show ?thesis using sec_moves [OF assms(1)] by blast
  next
    case 2
    then have "sec_main_ok oom s \<lparr>addr = hd (ring1 s), fails = False\<rparr>"
      "sec (sec_main_step \<lparr>addr = hd (ring1 s), fails = False\<rparr> s) \<noteq> sec s"
      by (simp_all add: duplex_ok sec_main_step_def)
    then show ?thesis by blast
  next
    case 3
    then have "prim_main_ok oom s \<lparr>addr = reply s, fails = False\<rparr>"
      "prim (prim_main_step \<lparr>addr = reply s, fails = False\<rparr> s) \<noteq> prim s"
      by (simp_all add: duplex_ok prim_main_step_def)
    then show ?thesis by blast
  qed
qed (use prim_moves [OF assms(1)] in blast)

section \<open>The machine\<close>

lemma duplex_step_cases:
  assumes "(ok, f) \<in> set (duplex_threads oom)" and "ok s a"
  shows "prim_main_ok oom s a \<and> f a s = prim_main_step a s \<or> sec_main_ok oom s a \<and> f a s = sec_main_step a s"
  using assms by (auto simp: duplex_threads_def)

lemma duplex_inv_start: "duplex_inv oom duplex_start"
  by (simp add: duplex_inv_def turns_def resting_def heard_def duplex_start_def)

interpretation dup: draining "duplex_threads oom" duplex_start "duplex_inv oom" duplex_left duplex_over for oom
proof unfold_locales
  show "duplex_inv oom duplex_start" by (rule duplex_inv_start)
next
  fix s ok f a
  assume *: "duplex_inv oom s" "(ok, f) \<in> set (duplex_threads oom)" "ok s a"
  show "duplex_inv oom (f a s)"
    using duplex_step_cases [OF *(2,3)] *(1) duplex_inv_prim duplex_inv_sec by auto
  show "duplex_left (f a s) < duplex_left s" if "f a s \<noteq> s"
    using duplex_step_cases [OF *(2,3)] *(1) that left_prim left_sec unfolding duplex_inv_def by metis
next
  fix s
  assume "duplex_inv oom s" "\<not> duplex_over s"
  then obtain a where "prim_main_ok oom s a \<and> prim (prim_main_step a s) \<noteq> prim s \<or>
      sec_main_ok oom s a \<and> sec (sec_main_step a s) \<noteq> sec s"
    using duplex_moves unfolding duplex_inv_def by blast
  then have "prim_main_ok oom s a \<and> prim_main_step a s \<noteq> s \<or> sec_main_ok oom s a \<and> sec_main_step a s \<noteq> s"
    by auto
  then show "\<exists>(ok, f) \<in> set (duplex_threads oom). \<exists>a. ok s a \<and> f a s \<noteq> s"
    by (auto simp: duplex_threads_def)
qed

section \<open>Properties\<close>

text \<open>
  C8. The two processes of \<open>full_duplex_2_rings/\<close>, in every interleaving: the secondary process
  prints the messages 0, 1, \<open>\<dots>\<close> in order without a gap, the reply the primary process takes from
  the second ring is ten times its message, no cell is freed that is not in use, and when both
  have ended all ten messages were received and every cell has been freed.
\<close>

theorem duplex_messages:
  assumes "runs (duplex_threads oom) duplex_start n s"
  shows "(\<exists>k \<le> 10. said SEC_RECEIVED (out s) = map int [0..<k]) \<and> (\<forall>p. Bad_free p \<notin> set (out s)) \<and>
     (prim s = P_got \<or> prim s = P_free \<longrightarrow> heap s (received s) = Some (10 * loop_i s)) \<and>
     (prim s = P_done \<and> sec s = S_done \<longrightarrow>
        heap s = Map.empty \<and> said SEC_RECEIVED (out s) = map int [0..<10])"
proof -
  have inv: "duplex_inv oom s" using dup.reachable_inv [OF assms] .
  then have "heard s \<le> 10" "prim s = P_done \<Longrightarrow> heard s = 10"
    by (auto simp: duplex_inv_def turns_def heard_def)
  moreover have "prim s = P_got \<or> prim s = P_free \<Longrightarrow> heap s (received s) = Some (10 * loop_i s)"
    and "prim s = P_done \<Longrightarrow> sec s = S_done \<Longrightarrow> heap s = Map.empty"
    using inv by (auto simp: duplex_inv_def turn_defs)
  ultimately show ?thesis using inv by (auto simp: duplex_inv_def)
qed

text \<open>The first exchange, with the cell 1 for the message and the cell 2 for the reply.\<close>

definition first_exchange :: "(nat \<times> answer) list" where
  "first_exchange = map (\<lambda>(k, p). (k, \<lparr>addr = p, fails = False\<rparr>))
     [(0, 1), (0, 0), (0, 0), (1, 1), (1, 0), (1, 0), (1, 0), (1, 2), (1, 0), (0, 2)]"

lemma first_exchange:
  "steps_ok (duplex_threads False) first_exchange duplex_start"
  "prim (steps (duplex_threads False) first_exchange duplex_start) = P_got"
  "received (steps (duplex_threads False) first_exchange duplex_start) = 2"
  "msg (steps (duplex_threads False) first_exchange duplex_start) = 1"
  "loop_i (steps (duplex_threads False) first_exchange duplex_start) = 0"
  by (simp_all add: first_exchange_def duplex_threads_def duplex_start_def duplex_ok prim_main_step_def
      sec_main_step_def NULL_def numeral_2_eq_2)

theorem duplex_messages_witness:
  "\<exists>n s. runs (duplex_threads False) duplex_start n s \<and> prim s = P_got \<and> heap s 2 = Some 0"
proof -
  obtain n where run: "runs (duplex_threads False) duplex_start n (steps (duplex_threads False) first_exchange duplex_start)"
    using runs_steps [OF first_exchange(1)] by blast
  show ?thesis using duplex_messages [OF run] run first_exchange by fastforce
qed

text \<open>
  C40. The line with which \<open>prim.c\<close> reports the reply prints the message, not the reply, and the
  message has been freed by then: the value printed is that of a freed cell, unless the allocator
  gave the secondary process the same cell again for the reply.
\<close>

theorem duplex_prints_freed_message:
  assumes "runs (duplex_threads oom) duplex_start n s" and "prim s = P_got"
  shows "out (prim_main_step a s) = out s @
     [if msg s = received s then Said PRI_GOT (10 * loop_i s) else Stale PRI_GOT (msg s)]"
  using dup.reachable_inv [OF assms(1)] assms(2)
  by (auto simp: duplex_inv_def turns_def prim_main_step_def show_cell_def)

theorem duplex_prints_freed_message_witness:
  "\<exists>n s. runs (duplex_threads False) duplex_start n s \<and>
     last (out (prim_main_step \<lparr>addr = 0, fails = False\<rparr> s)) = Stale PRI_GOT 1"
proof -
  obtain n where run: "runs (duplex_threads False) duplex_start n (steps (duplex_threads False) first_exchange duplex_start)"
    using runs_steps [OF first_exchange(1)] by blast
  show ?thesis using duplex_prints_freed_message [OF run first_exchange(2)] run first_exchange by fastforce
qed

text \<open>
  C23. Both programs end: whatever the interleaving, they make at most 140 steps other than waiting,
  and from every state that can occur they can go on to the end of both, as long as allocations
  succeed.
\<close>

theorem duplex_terminates:
  assumes "runs (duplex_threads oom) duplex_start n s"
  shows "n \<le> 140 \<and> (\<exists>m t. runs (duplex_threads oom) s m t \<and> duplex_over t \<and>
     (oom \<or> prim t = P_done \<and> sec t = S_done))"
proof -
  have "duplex_left duplex_start = 140" by (simp add: left_defs duplex_start_def)
  moreover obtain m t where "runs (duplex_threads oom) s m t" "duplex_over t"
    using dup.reachable_can_finish [OF assms] by blast
  moreover have "duplex_inv oom t"
    using dup.runs_inv [OF \<open>runs (duplex_threads oom) s m t\<close> dup.reachable_inv [OF assms]] .
  ultimately show ?thesis
    using dup.reachable_steps_bounded [OF assms] by (auto simp: duplex_over_def duplex_inv_def)
qed

theorem duplex_terminates_witness:
  "\<exists>m t. runs (duplex_threads False) duplex_start m t \<and> prim t = P_done \<and> sec t = S_done"
  using duplex_terminates [of False, OF runs_start] by blast

end
