(* ===== verification/Ipc_One_Ring.thy ===== *)
theory Ipc_One_Ring
  imports Shared_Memory
begin

text \<open>
  \<open>ipc_ring_pri_sec/\<close>: the primary process puts ten numbers on a ring, each in a cell of its own,
  the secondary process prints and frees what it finds there.  The steps and the shared memory
  are those of \<open>Shared_Memory\<close>; here several messages can be under way at once.
\<close>

section \<open>The two programs\<close>

definition SENT :: string where "SENT = ''Primary: sent %d''"
definition GOT :: string where "GOT = ''Secondary: received %d''"

text \<open>Allocation and store, the enqueue loop, the print (and the sleep), the end.\<close>

datatype sender_pc = X_next | X_enqueue | X_said | X_done | X_crash

text \<open>The dequeue, the print, the free.\<close>

datatype receiver_pc = Y_dequeue | Y_show | Y_free

record one_ring = shm +
  ring :: "ptr list"
  sender :: sender_pc
  sent_i :: int
  sent_msg :: ptr
  receiver :: receiver_pc
  got_val :: ptr

definition sender_step :: "answer \<Rightarrow> one_ring \<Rightarrow> one_ring" where
  "sender_step a s = (case sender s of
     X_next \<Rightarrow> if \<not> sent_i s < 10 then s\<lparr>out := out s @ [Line ''Primary: done''], sender := X_done\<rparr>
       else if addr a = NULL then s\<lparr>sender := X_crash\<rparr>
       else s\<lparr>heap := (heap s)(addr a \<mapsto> sent_i s), sent_msg := addr a, sender := X_enqueue\<rparr>
   | X_enqueue \<Rightarrow> if fails a then s else s\<lparr>ring := ring s @ [sent_msg s], sender := X_said\<rparr>
   | X_said \<Rightarrow> s\<lparr>out := out s @ [Said SENT (sent_i s)], sent_i := sent_i s + 1, sender := X_next\<rparr>
   | X_done \<Rightarrow> s
   | X_crash \<Rightarrow> s)"

definition sender_ok :: "bool \<Rightarrow> one_ring \<Rightarrow> answer \<Rightarrow> bool" where
  "sender_ok oom s a = (case sender s of
     X_next \<Rightarrow> malloc_ok oom (heap s) a
   | X_enqueue \<Rightarrow> enqueue_ok (ring s) a
   | _ \<Rightarrow> True)"

definition receiver_step :: "answer \<Rightarrow> one_ring \<Rightarrow> one_ring" where
  "receiver_step a s = (case receiver s of
     Y_dequeue \<Rightarrow> if fails a then s else s\<lparr>ring := tl (ring s), got_val := addr a, receiver := Y_show\<rparr>
   | Y_show \<Rightarrow> s\<lparr>out := out s @ [show_cell (heap s) GOT (got_val s)], receiver := Y_free\<rparr>
   | Y_free \<Rightarrow> s\<lparr>out := out s @ [free_cell (heap s) (got_val s)], heap := (heap s)(got_val s := None),
       receiver := Y_dequeue\<rparr>)"

definition receiver_ok :: "one_ring \<Rightarrow> answer \<Rightarrow> bool" where
  "receiver_ok s a = (case receiver s of Y_dequeue \<Rightarrow> dequeue_ok (ring s) a | _ \<Rightarrow> True)"

definition one_ring_threads :: "bool \<Rightarrow> one_ring thread list" where
  "one_ring_threads oom = [(sender_ok oom, sender_step), (receiver_ok, receiver_step)]"

definition one_ring_start :: one_ring where
  "one_ring_start = \<lparr>heap = Map.empty, out = [], ring = [], sender = X_next, sent_i = 0, sent_msg = NULL,
     receiver = Y_dequeue, got_val = NULL\<rparr>"

text \<open>What comes before.\<close>

definition one_ring_prim_init :: "env \<Rightarrow> (int + ptr) io" where
  "one_ring_prim_init E = do {
     r \<leftarrow> rte_eal_init E;
     if r < 0 then rte_exit ''EAL init failed'' [] \<bind> (\<lambda>x. ret (Inl x)) else do {
     p \<leftarrow> rte_ring_create E ''IPC_RING'' RING_SIZE;
     if p = NULL then rte_exit ''Ring create failed'' [] \<bind> (\<lambda>x. ret (Inl x)) else do {
     say ''Primary: ring created'' [];
     ret (Inr p) } } }"

definition one_ring_sec_init :: "env \<Rightarrow> nat \<Rightarrow> (int + ptr option) io" where
  "one_ring_sec_init E n = do {
     r \<leftarrow> rte_eal_init E;
     if r < 0 then rte_exit ''EAL init failed'' [] \<bind> (\<lambda>x. ret (Inl x)) else do {
     found \<leftarrow> rounds n (\<lambda>u. do {
       p \<leftarrow> rte_ring_lookup E ''IPC_RING'';
       sleep_us 1000000;
       ret (if p = NULL then Inr () else Inl p) }) ();
     case found of
       Inr u \<Rightarrow> ret (Inr None)
     | Inl p \<Rightarrow> do { say ''Secondary: ring found'' []; ret (Inr (Some p)) } } }"

section \<open>The messages under way\<close>

text \<open>
  The cells in use, in the order of their numbers: the one the receiver has, those in the ring,
  the one the sender has not yet enqueued.
\<close>

definition held :: "one_ring \<Rightarrow> ptr list" where
  "held s = (if receiver s = Y_dequeue then [] else [got_val s])"

definition pending_msg :: "one_ring \<Rightarrow> ptr list" where
  "pending_msg s = (if sender s = X_enqueue then [sent_msg s] else [])"

definition under_way :: "one_ring \<Rightarrow> ptr list" where
  "under_way s = held s @ ring s @ pending_msg s"

definition allocated :: "one_ring \<Rightarrow> nat" where
  "allocated s = nat (sent_i s) + (if sender s = X_enqueue \<or> sender s = X_said then 1 else 0)"

text \<open>\<open>f\<close> messages have been freed.\<close>

definition in_order :: "bool \<Rightarrow> nat \<Rightarrow> one_ring \<Rightarrow> bool" where
  "in_order oom f s \<longleftrightarrow> 0 \<le> sent_i s \<and> sent_i s \<le> 10 \<and>
     (sender s = X_enqueue \<or> sender s = X_said \<longrightarrow> sent_i s < 10) \<and> (sender s = X_done \<longrightarrow> sent_i s = 10) \<and>
     (sender s = X_crash \<longrightarrow> oom) \<and> distinct (under_way s) \<and> dom (heap s) = set (under_way s) \<and>
     f \<le> allocated s \<and>
     map (heap s) (under_way s) = map (\<lambda>n. Some (int n)) [f..<allocated s] \<and>
     said GOT (out s) = map int [0..<f + (if receiver s = Y_free then 1 else 0)] \<and>
     (\<forall>p m. Bad_free p \<notin> set (out s) \<and> Stale m p \<notin> set (out s))"

lemmas one_ring_ok = sender_ok_def receiver_ok_def library_ok RING_SIZE_def
lemmas way_defs = under_way_def held_def pending_msg_def allocated_def

lemma in_order_sender:
  assumes "in_order oom f s" and "sender_ok oom s a"
  shows "in_order oom f (sender_step a s)"
proof (cases "sender s = X_next \<and> sent_i s < 10 \<and> addr a \<noteq> NULL")
  case True
  then have new: "addr a \<notin> set (under_way s)" using assms by (auto simp: in_order_def one_ring_ok)
  have "under_way (sender_step a s) = under_way s @ [addr a]" "allocated (sender_step a s) = Suc (allocated s)"
    "heap (sender_step a s) = (heap s)(addr a \<mapsto> sent_i s)" "allocated s = nat (sent_i s)"
    using True by (simp_all add: sender_step_def way_defs)
  then show ?thesis using assms(1) new True
    by (auto simp: in_order_def) (auto simp: sender_step_def)
next
  case False
  then show ?thesis using assms
    by (cases "sender s") (auto simp: in_order_def sender_step_def way_defs GOT_def SENT_def nat_add_distrib one_ring_ok)
qed

lemma first_way:
  assumes "in_order oom f s" and "under_way s = v # vs"
  shows "f < allocated s" and "heap s v = Some (int f)"
    and "map (heap s) vs = map (\<lambda>n. Some (int n)) [Suc f..<allocated s]"
proof -
  have eq: "map (heap s) (v # vs) = map (\<lambda>n. Some (int n)) [f..<allocated s]"
    using assms by (simp add: in_order_def)
  then have "length (v # vs) = length [f..<allocated s]" by (metis length_map)
  then show "f < allocated s" by simp
  then show "heap s v = Some (int f)" "map (heap s) vs = map (\<lambda>n. Some (int n)) [Suc f..<allocated s]"
    using eq by (simp_all add: upt_conv_Cons)
qed

lemma receiver_keeps:
  "sender (receiver_step a s) = sender s" "sent_i (receiver_step a s) = sent_i s"
  "sent_msg (receiver_step a s) = sent_msg s" "allocated (receiver_step a s) = allocated s"
  by (cases "receiver s"; simp add: receiver_step_def allocated_def)+

lemma in_order_receiver:
  assumes "in_order oom f s" and "receiver_ok s a"
  shows "in_order oom (if receiver s = Y_free then Suc f else f) (receiver_step a s)"
proof (cases "receiver s")
  case Y_dequeue
  then have "under_way (receiver_step a s) = under_way s" "heap (receiver_step a s) = heap s"
    "out (receiver_step a s) = out s" "receiver (receiver_step a s) \<noteq> Y_free"
    using assms(2) by (cases "ring s"; simp add: receiver_step_def way_defs one_ring_ok)+
  then show ?thesis using assms(1) Y_dequeue by (simp add: in_order_def receiver_keeps)
next
  case Y_show
  then have "under_way s = got_val s # ring s @ pending_msg s" by (simp add: way_defs)
  then have "heap s (got_val s) = Some (int f)" by (rule first_way(2) [OF assms(1)])
  moreover have "under_way (receiver_step a s) = under_way s" "heap (receiver_step a s) = heap s"
    "out (receiver_step a s) = out s @ [show_cell (heap s) GOT (got_val s)]" "receiver (receiver_step a s) = Y_free"
    using Y_show by (simp_all add: receiver_step_def way_defs)
  ultimately show ?thesis using assms(1) Y_show by (simp add: in_order_def receiver_keeps show_cell_def)
next
  case Y_free
  then have way: "under_way s = got_val s # ring s @ pending_msg s" by (simp add: way_defs)
  note first = first_way [OF assms(1) way]
  have "under_way (receiver_step a s) = ring s @ pending_msg s"
    "heap (receiver_step a s) = (heap s)(got_val s := None)" "receiver (receiver_step a s) = Y_dequeue"
    "out (receiver_step a s) = out s @ [free_cell (heap s) (got_val s)]"
    using Y_free by (simp_all add: receiver_step_def way_defs)
  moreover have "got_val s \<in> dom (heap s)" using assms(1) way by (simp add: in_order_def)
  ultimately show ?thesis using assms(1) Y_free way first
    by (auto simp: in_order_def receiver_keeps free_cell_def)
qed

section \<open>Progress\<close>

definition sender_left :: "one_ring \<Rightarrow> nat" where
  "sender_left s = (case sender s of
     X_next \<Rightarrow> 3 * nat (10 - sent_i s) + 1 | X_enqueue \<Rightarrow> 3 * nat (10 - sent_i s)
   | X_said \<Rightarrow> 3 * nat (9 - sent_i s) + 2 | X_done \<Rightarrow> 0 | X_crash \<Rightarrow> 0)"

definition messages_to_come :: "one_ring \<Rightarrow> nat" where
  "messages_to_come s = length (ring s) + (case sender s of
     X_next \<Rightarrow> nat (10 - sent_i s) | X_enqueue \<Rightarrow> nat (10 - sent_i s)
   | X_said \<Rightarrow> nat (9 - sent_i s) | X_done \<Rightarrow> 0 | X_crash \<Rightarrow> 0)"

definition one_ring_left :: "one_ring \<Rightarrow> nat" where
  "one_ring_left s = sender_left s + 3 * messages_to_come s +
     (case receiver s of Y_dequeue \<Rightarrow> 0 | Y_show \<Rightarrow> 2 | Y_free \<Rightarrow> 1)"

text \<open>The secondary process polls for ever; at the end there is nothing more for it to find.\<close>

definition one_ring_over :: "one_ring \<Rightarrow> bool" where
  "one_ring_over s \<longleftrightarrow> (sender s = X_done \<or> sender s = X_crash) \<and> ring s = [] \<and> receiver s = Y_dequeue"

lemma sender_left_drops:
  assumes "in_order oom f s" and "sender_step a s \<noteq> s"
  shows "one_ring_left (sender_step a s) < one_ring_left s"
  using assms by (cases "sender s")
    (auto simp: in_order_def one_ring_left_def sender_left_def messages_to_come_def sender_step_def split: if_splits)

lemma receiver_left_drops:
  assumes "receiver_ok s a" and "receiver_step a s \<noteq> s"
  shows "one_ring_left (receiver_step a s) < one_ring_left s"
proof -
  have "sender_left (receiver_step a s) = sender_left s"
    by (simp add: sender_left_def receiver_keeps cong: sender_pc.case_cong)
  moreover have "messages_to_come (receiver_step a s) + (if receiver s = Y_dequeue then 1 else 0) = messages_to_come s"
    using assms by (cases "receiver s"; cases "ring s")
      (auto simp: messages_to_come_def receiver_keeps receiver_step_def one_ring_ok cong: sender_pc.case_cong)
  ultimately show ?thesis using assms(2)
    by (cases "receiver s") (auto simp: one_ring_left_def receiver_step_def split: if_splits)
qed

lemma one_ring_moves:
  assumes "in_order oom f s" and "\<not> one_ring_over s"
  shows "\<exists>a. sender_ok oom s a \<and> sender (sender_step a s) \<noteq> sender s \<or>
     receiver_ok s a \<and> receiver (receiver_step a s) \<noteq> receiver s"
proof (cases "sender s = X_done \<or> sender s = X_crash")
  case False
  have "finite (insert NULL (dom (heap s)))" using assms(1) by (simp add: in_order_def)
  then obtain p where "p \<notin> insert NULL (dom (heap s))" using ex_new_if_finite infinite_UNIV_nat by blast
  then have "sender_ok oom s \<lparr>addr = p, fails = False\<rparr>"
    and "sender (sender_step \<lparr>addr = p, fails = False\<rparr> s) \<noteq> sender s"
    using False by (cases "sender s"; auto simp: one_ring_ok sender_step_def)+
  then show ?thesis by blast
next
  case True
  then have "receiver s = Y_dequeue \<longrightarrow> ring s \<noteq> []" using assms(2) by (auto simp: one_ring_over_def)
  then have "receiver_ok s \<lparr>addr = hd (ring s), fails = False\<rparr>"
    and "receiver (receiver_step \<lparr>addr = hd (ring s), fails = False\<rparr> s) \<noteq> receiver s"
    by (cases "receiver s"; simp add: one_ring_ok receiver_step_def)+
  then show ?thesis by blast
qed

lemma one_ring_step_cases:
  assumes "(ok, g) \<in> set (one_ring_threads oom)" and "ok s a"
  shows "sender_ok oom s a \<and> g a s = sender_step a s \<or> receiver_ok s a \<and> g a s = receiver_step a s"
  using assms by (auto simp: one_ring_threads_def)

interpretation one: draining "one_ring_threads oom" one_ring_start "\<lambda>s. \<exists>f. in_order oom f s"
  one_ring_left one_ring_over for oom
proof unfold_locales
  show "\<exists>f. in_order oom f one_ring_start"
    by (rule exI [of _ 0]) (simp add: in_order_def way_defs one_ring_start_def)
next
  fix s ok g a
  assume *: "\<exists>f. in_order oom f s" "(ok, g) \<in> set (one_ring_threads oom)" "ok s a"
  show "\<exists>f. in_order oom f (g a s)"
    using one_ring_step_cases [OF *(2,3)] *(1) in_order_sender in_order_receiver by metis
  show "one_ring_left (g a s) < one_ring_left s" if "g a s \<noteq> s"
    using one_ring_step_cases [OF *(2,3)] *(1) that sender_left_drops receiver_left_drops by metis
next
  fix s
  assume "\<exists>f. in_order oom f s" "\<not> one_ring_over s"
  then obtain a where "sender_ok oom s a \<and> sender (sender_step a s) \<noteq> sender s \<or>
      receiver_ok s a \<and> receiver (receiver_step a s) \<noteq> receiver s"
    using one_ring_moves by blast
  then have "sender_ok oom s a \<and> sender_step a s \<noteq> s \<or> receiver_ok s a \<and> receiver_step a s \<noteq> s"
    by auto
  then show "\<exists>(ok, g) \<in> set (one_ring_threads oom). \<exists>a. ok s a \<and> g a s \<noteq> s"
    by (auto simp: one_ring_threads_def)
qed

section \<open>Property\<close>

text \<open>
  C9. \<open>ipc_ring_pri_sec/\<close>, in every interleaving: the secondary process prints 0, 1, \<open>\<dots>\<close> in order
  without a gap, never reads or frees a cell that is not in use, after at most 61 steps other
  than waiting there is nothing more to do, and then every cell has been freed and, if the
  allocations succeeded, all ten numbers have been printed.
\<close>

theorem one_ring_delivers:
  assumes "runs (one_ring_threads oom) one_ring_start n s"
  shows "n \<le> 61 \<and> (\<exists>k \<le> 10. said GOT (out s) = map int [0..<k]) \<and>
     (\<forall>p m. Bad_free p \<notin> set (out s) \<and> Stale m p \<notin> set (out s)) \<and>
     (\<exists>m t. runs (one_ring_threads oom) s m t \<and> one_ring_over t) \<and>
     (one_ring_over s \<longrightarrow> heap s = Map.empty \<and> (oom \<or> said GOT (out s) = map int [0..<10]))"
proof -
  obtain f where inv: "in_order oom f s" using one.reachable_inv [OF assms] by blast
  then have al: "allocated s \<le> 10" by (auto simp: in_order_def allocated_def)
  have f: "f + (if receiver s = Y_free then 1 else 0) \<le> allocated s"
  proof (cases "receiver s = Y_free")
    case True
    then show ?thesis using first_way(1) [OF inv, of "got_val s"] by (simp add: way_defs)
  qed (use inv in \<open>simp add: in_order_def\<close>)
  have over: "heap s = Map.empty \<and> (oom \<or> said GOT (out s) = map int [0..<10])" if "one_ring_over s"
  proof -
    have "under_way s = []" using that by (auto simp: one_ring_over_def way_defs)
    then have "heap s = Map.empty" "f = allocated s" using inv by (auto simp: in_order_def)
    moreover have "sender s = X_done \<Longrightarrow> allocated s = 10" using inv by (simp add: in_order_def allocated_def)
    ultimately show ?thesis using inv that by (auto simp: in_order_def one_ring_over_def)
  qed
  have "\<exists>k \<le> 10. said GOT (out s) = map int [0..<k]"
    using f al inv by (intro exI [of _ "f + (if receiver s = Y_free then 1 else 0)"]) (simp add: in_order_def)
  moreover have "one_ring_left one_ring_start = 61"
    by (simp add: one_ring_left_def sender_left_def messages_to_come_def one_ring_start_def)
  ultimately show ?thesis
    using inv over one.reachable_steps_bounded [OF assms] one.reachable_can_finish [OF assms]
    by (simp add: in_order_def)
qed

theorem one_ring_delivers_witness:
  "\<exists>n t. runs (one_ring_threads False) one_ring_start n t \<and> one_ring_over t \<and>
     said GOT (out t) = map int [0..<10]"
proof -
  obtain m t where t: "runs (one_ring_threads False) one_ring_start m t" "one_ring_over t"
    using one_ring_delivers [of False, OF runs_start] by blast
  show ?thesis using one_ring_delivers [OF t(1)] t by blast
qed

end
