(* ===== verification/Rcu_Qsbr.thy ===== *)
theory Rcu_Qsbr
  imports Shared_Memory
begin

text \<open>
  \<open>rcu_dpdk/main.c\<close>: a writer replaces a shared value five times and frees the old version after a
  grace period, while a reader on another core prints the current version over and over.

  The quiescent-state library is not part of the repository.  What the code relies on is its
  documented guarantee: \<open>rte_rcu_qsbr_synchronize\<close> returns only when every reader that was online
  at the call has since reported a quiescent state or gone offline.  The ghost field
  \<open>grace_pending\<close> says that the reader has not done so yet; \<open>main_thread_ok\<close> states the guarantee.
\<close>

section \<open>The two threads\<close>

definition READER_MSG :: string where "READER_MSG = ''[reader lcore %u] value = %d''"
definition WRITER_MSG :: string where "WRITER_MSG = ''[writer] updated value %d''"

text \<open>
  The main thread: allocation of the library's memory and of the first version, the launch, then
  for each of the five updates the allocation, the exchange of the pointer, the print, the grace
  period (start and end), the free; then the stop flag, the join, the two frees at the end.
  A write through NULL ends in \<open>M_crash\<close>.  At \<open>M_launch\<close>, \<open>fails\<close> says that there is no worker core:
  then \<open>rte_get_next_lcore\<close> returns \<open>RTE_MAX_LCORE\<close>, the launch on a core of that number is undefined,
  and nothing after it is modelled.
\<close>

datatype main_pc = M_qsbr | M_data | M_launch | W_alloc | W_swap | W_print | W_sync | W_wait | W_free
  | W_stop | M_join | M_free_data | M_free_qsbr | M_done | M_crash | M_undefined

text \<open>The reader: registration, the loop test, the load of the pointer, the print, the report.\<close>

datatype reader_pc = R_idle | R_register | R_test | R_load | R_print | R_quiescent | R_offline | R_done

record rcu = shm +
  gdata :: ptr
  qsbr :: ptr
  stopped :: bool
  main_at :: main_pc
  round_i :: int
  new_ver :: ptr
  old_ver :: ptr
  reader_at :: reader_pc
  reader_d :: ptr
  online :: bool
  grace_pending :: bool

definition main_step :: "answer \<Rightarrow> rcu \<Rightarrow> rcu" where
  "main_step a s = (case main_at s of
     M_qsbr \<Rightarrow> if addr a = NULL then s\<lparr>main_at := M_crash\<rparr>
       else s\<lparr>heap := (heap s)(addr a \<mapsto> 0), qsbr := addr a, main_at := M_data\<rparr>
   | M_data \<Rightarrow> if addr a = NULL then s\<lparr>main_at := M_crash\<rparr>
       else s\<lparr>heap := (heap s)(addr a \<mapsto> 0), gdata := addr a, main_at := M_launch\<rparr>
   | M_launch \<Rightarrow> if fails a then s\<lparr>main_at := M_undefined\<rparr>
       else s\<lparr>reader_at := R_register, main_at := W_alloc\<rparr>
   | W_alloc \<Rightarrow> if \<not> round_i s < 5 then s\<lparr>main_at := W_stop\<rparr>
       else if addr a = NULL then s\<lparr>main_at := M_crash\<rparr>
       else s\<lparr>heap := (heap s)(addr a \<mapsto> round_i s + 1), new_ver := addr a, main_at := W_swap\<rparr>
   | W_swap \<Rightarrow> s\<lparr>old_ver := gdata s, gdata := new_ver s, main_at := W_print\<rparr>
   | W_print \<Rightarrow> s\<lparr>out := out s @ [show_cell (heap s) WRITER_MSG (new_ver s)], main_at := W_sync\<rparr>
   | W_sync \<Rightarrow> s\<lparr>grace_pending := online s, main_at := W_wait\<rparr>
   | W_wait \<Rightarrow> if fails a then s else s\<lparr>main_at := W_free\<rparr>
   | W_free \<Rightarrow> s\<lparr>out := out s @ [free_cell (heap s) (old_ver s), Line ''[writer] freed old value''],
       heap := (heap s)(old_ver s := None), round_i := round_i s + 1, main_at := W_alloc\<rparr>
   | W_stop \<Rightarrow> s\<lparr>stopped := True, main_at := M_join\<rparr>
   | M_join \<Rightarrow> if fails a then s else s\<lparr>main_at := M_free_data\<rparr>
   | M_free_data \<Rightarrow> s\<lparr>out := out s @ [free_cell (heap s) (gdata s)], heap := (heap s)(gdata s := None),
       main_at := M_free_qsbr\<rparr>
   | M_free_qsbr \<Rightarrow> s\<lparr>out := out s @ [free_cell (heap s) (qsbr s)], heap := (heap s)(qsbr s := None),
       main_at := M_done\<rparr>
   | M_done \<Rightarrow> s
   | M_crash \<Rightarrow> s
   | M_undefined \<Rightarrow> s)"

text \<open>Waiting (\<open>fails\<close>) is not over before the grace period has ended, or the reader has returned.\<close>

definition main_thread_ok :: "bool \<Rightarrow> rcu \<Rightarrow> answer \<Rightarrow> bool" where
  "main_thread_ok oom s a = (case main_at s of
     M_qsbr \<Rightarrow> malloc_ok oom (heap s) a
   | M_data \<Rightarrow> malloc_ok oom (heap s) a
   | W_alloc \<Rightarrow> malloc_ok oom (heap s) a
   | W_wait \<Rightarrow> \<not> fails a \<longrightarrow> \<not> grace_pending s
   | M_join \<Rightarrow> \<not> fails a \<longrightarrow> reader_at s = R_done
   | _ \<Rightarrow> True)"

definition reader_step :: "answer \<Rightarrow> rcu \<Rightarrow> rcu" where
  "reader_step a s = (case reader_at s of
     R_idle \<Rightarrow> s
   | R_register \<Rightarrow> s\<lparr>online := True, reader_at := R_test\<rparr>
   | R_test \<Rightarrow> if stopped s then s\<lparr>reader_at := R_offline\<rparr> else s\<lparr>reader_at := R_load\<rparr>
   | R_load \<Rightarrow> s\<lparr>reader_d := gdata s, reader_at := R_print\<rparr>
   | R_print \<Rightarrow> s\<lparr>out := out s @ [show_cell (heap s) READER_MSG (reader_d s)], reader_at := R_quiescent\<rparr>
   | R_quiescent \<Rightarrow> s\<lparr>grace_pending := False, reader_at := R_test\<rparr>
   | R_offline \<Rightarrow> s\<lparr>online := False, grace_pending := False, reader_at := R_done\<rparr>
   | R_done \<Rightarrow> s)"

definition rcu_threads :: "bool \<Rightarrow> rcu thread list" where
  "rcu_threads oom = [(main_thread_ok oom, main_step), (\<lambda>s a. True, reader_step)]"

definition rcu_start :: rcu where
  "rcu_start = \<lparr>heap = Map.empty, out = [], gdata = NULL, qsbr = NULL, stopped = False, main_at = M_qsbr,
     round_i = 0, new_ver = NULL, old_ver = NULL, reader_at = R_idle, reader_d = NULL, online = False,
     grace_pending = False\<rparr>"

section \<open>The invariant\<close>

text \<open>The cells in use at each point of the main thread.\<close>

definition one_version :: "rcu \<Rightarrow> bool" where
  "one_version s \<longleftrightarrow> qsbr s \<noteq> gdata s \<and> heap s = [qsbr s \<mapsto> 0, gdata s \<mapsto> round_i s]"

definition two_versions :: "rcu \<Rightarrow> bool" where
  "two_versions s \<longleftrightarrow> distinct [qsbr s, old_ver s, gdata s] \<and> new_ver s = gdata s \<and> round_i s < 5 \<and>
     heap s = [qsbr s \<mapsto> 0, old_ver s \<mapsto> round_i s, gdata s \<mapsto> round_i s + 1]"

definition cells_in_use :: "bool \<Rightarrow> rcu \<Rightarrow> bool" where
  "cells_in_use oom s \<longleftrightarrow> (case main_at s of
     M_qsbr \<Rightarrow> heap s = Map.empty \<and> round_i s = 0
   | M_data \<Rightarrow> heap s = [qsbr s \<mapsto> 0] \<and> round_i s = 0
   | M_launch \<Rightarrow> one_version s \<and> round_i s = 0
   | W_alloc \<Rightarrow> one_version s
   | W_swap \<Rightarrow> distinct [qsbr s, gdata s, new_ver s] \<and> round_i s < 5 \<and>
       heap s = [qsbr s \<mapsto> 0, gdata s \<mapsto> round_i s, new_ver s \<mapsto> round_i s + 1]
   | W_print \<Rightarrow> two_versions s | W_sync \<Rightarrow> two_versions s
   | W_wait \<Rightarrow> two_versions s | W_free \<Rightarrow> two_versions s
   | W_stop \<Rightarrow> one_version s \<and> round_i s = 5
   | M_join \<Rightarrow> one_version s \<and> round_i s = 5
   | M_free_data \<Rightarrow> one_version s \<and> round_i s = 5
   | M_free_qsbr \<Rightarrow> heap s = [qsbr s \<mapsto> 0] \<and> round_i s = 5
   | M_done \<Rightarrow> heap s = Map.empty \<and> round_i s = 5
   | M_crash \<Rightarrow> oom \<and> (reader_at s = R_idle \<or> one_version s)
   | M_undefined \<Rightarrow> reader_at s = R_idle)"

text \<open>Where the reader can be, and what it may hold while it prints.\<close>

definition before_launch :: "main_pc \<Rightarrow> bool" where
  "before_launch m \<longleftrightarrow> m = M_qsbr \<or> m = M_data \<or> m = M_launch"

definition after_stop :: "main_pc \<Rightarrow> bool" where
  "after_stop m \<longleftrightarrow> m = M_join \<or> m = M_free_data \<or> m = M_free_qsbr \<or> m = M_done"

definition reader_ok :: "rcu \<Rightarrow> bool" where
  "reader_ok s \<longleftrightarrow> (reader_at s = R_idle \<longrightarrow> before_launch (main_at s) \<or> main_at s = M_crash \<or> main_at s = M_undefined) \<and>
     (before_launch (main_at s) \<longrightarrow> reader_at s = R_idle) \<and>
     (stopped s \<longleftrightarrow> after_stop (main_at s)) \<and>
     (online s \<longleftrightarrow> reader_at s \<notin> {R_idle, R_register, R_done}) \<and> (grace_pending s \<longrightarrow> online s) \<and>
     (main_at s \<in> {M_free_data, M_free_qsbr, M_done} \<longrightarrow> reader_at s = R_done) \<and>
     (reader_at s = R_print \<longrightarrow> reader_d s = gdata s \<or> reader_d s = old_ver s \<and>
        (main_at s = W_print \<or> main_at s = W_sync \<or> main_at s = W_wait \<and> grace_pending s))"

lemma reader_okD:
  assumes "reader_ok s"
  shows "stopped s \<longleftrightarrow> after_stop (main_at s)" "grace_pending s \<Longrightarrow> online s"
    "online s \<longleftrightarrow> reader_at s \<notin> {R_idle, R_register, R_done}"
    "reader_at s = R_idle \<Longrightarrow> before_launch (main_at s) \<or> main_at s = M_crash \<or> main_at s = M_undefined"
  using assms unfolding reader_ok_def by blast+

text \<open>The numbers printed so far are sorted and not newer than what the reader prints next.\<close>

definition newest :: "rcu \<Rightarrow> int" where
  "newest s = (if main_at s \<in> {W_print, W_sync, W_wait, W_free} \<and>
       \<not> (reader_at s = R_print \<and> reader_d s \<noteq> gdata s) then round_i s + 1 else round_i s)"

definition printed_ok :: "rcu \<Rightarrow> bool" where
  "printed_ok s \<longleftrightarrow> sorted (said READER_MSG (out s)) \<and> (\<forall>v \<in> set (said READER_MSG (out s)). 0 \<le> v \<and> v \<le> newest s) \<and>
     (\<forall>p m. Bad_free p \<notin> set (out s) \<and> Stale m p \<notin> set (out s))"

definition rcu_inv :: "bool \<Rightarrow> rcu \<Rightarrow> bool" where
  "rcu_inv oom s \<longleftrightarrow> 0 \<le> round_i s \<and> round_i s \<le> 5 \<and> cells_in_use oom s \<and> reader_ok s \<and> printed_ok s"

lemmas version_defs = one_version_def two_versions_def cells_in_use_def
lemmas point_defs = before_launch_def after_stop_def

lemma cells_main: "0 \<le> round_i s \<Longrightarrow> round_i s \<le> 5 \<Longrightarrow> cells_in_use oom s \<Longrightarrow> reader_ok s \<Longrightarrow>
    main_thread_ok oom s a \<Longrightarrow> cells_in_use oom (main_step a s)"
  by (cases "main_at s")
    (auto simp: version_defs main_step_def main_thread_ok_def malloc_ok_def reader_ok_def point_defs fun_eq_iff)

lemma reader_ok_main: "reader_ok s \<Longrightarrow> main_thread_ok oom s a \<Longrightarrow> reader_ok (main_step a s)"
  by (cases "main_at s") (auto simp: main_step_def main_thread_ok_def reader_ok_def point_defs)

text \<open>What the main thread reads and frees is in use.\<close>

lemma main_output:
  assumes "cells_in_use oom s"
  shows "\<exists>es. out (main_step a s) = out s @ es \<and> said READER_MSG es = [] \<and>
     (\<forall>p m. Bad_free p \<notin> set es \<and> Stale m p \<notin> set es)"
  using assms by (cases "main_at s")
    (auto simp: version_defs main_step_def show_cell_def free_cell_def READER_MSG_def WRITER_MSG_def)

lemma newest_main:
  assumes "reader_ok s" and "main_thread_ok oom s a"
  shows "newest s \<le> newest (main_step a s)"
  using assms by (cases "main_at s")
    (auto simp: newest_def main_step_def main_thread_ok_def reader_ok_def point_defs)

lemma rcu_inv_main:
  assumes "rcu_inv oom s" and "main_thread_ok oom s a"
  shows "rcu_inv oom (main_step a s)"
proof -
  have s: "0 \<le> round_i s" "round_i s \<le> 5" "cells_in_use oom s" "reader_ok s" "printed_ok s"
    using assms(1) by (simp_all add: rcu_inv_def)
  obtain es where "out (main_step a s) = out s @ es" "said READER_MSG es = []"
    "\<forall>p m. Bad_free p \<notin> set es \<and> Stale m p \<notin> set es"
    using main_output [OF s(3)] by blast
  then have "printed_ok (main_step a s)"
    using s(5) newest_main [OF s(4) assms(2)] by (fastforce simp: printed_ok_def)
  moreover have "0 \<le> round_i (main_step a s) \<and> round_i (main_step a s) \<le> 5"
    using s(1-3) by (cases "main_at s") (auto simp: main_step_def version_defs)
  ultimately show ?thesis
    using cells_main [OF s(1-4) assms(2)] reader_ok_main [OF s(4) assms(2)] by (simp add: rcu_inv_def)
qed

text \<open>The reader changes nothing the main thread relies on.\<close>

lemma reader_keeps:
  "main_at (reader_step a s) = main_at s" "round_i (reader_step a s) = round_i s"
  "heap (reader_step a s) = heap s" "gdata (reader_step a s) = gdata s" "qsbr (reader_step a s) = qsbr s"
  "old_ver (reader_step a s) = old_ver s" "new_ver (reader_step a s) = new_ver s"
  "stopped (reader_step a s) = stopped s" "reader_at (reader_step a s) = R_idle \<longleftrightarrow> reader_at s = R_idle"
  by (cases "reader_at s"; simp add: reader_step_def)+

lemma reader_moves:
  "reader_at (reader_step a s) = (case reader_at s of
     R_idle \<Rightarrow> R_idle | R_register \<Rightarrow> R_test | R_test \<Rightarrow> (if stopped s then R_offline else R_load)
   | R_load \<Rightarrow> R_print | R_print \<Rightarrow> R_quiescent | R_quiescent \<Rightarrow> R_test | R_offline \<Rightarrow> R_done | R_done \<Rightarrow> R_done)"
  "grace_pending (reader_step a s) \<longleftrightarrow>
     grace_pending s \<and> reader_at s \<noteq> R_quiescent \<and> reader_at s \<noteq> R_offline"
  by (cases "reader_at s"; simp add: reader_step_def)+

lemma cells_reader: "cells_in_use oom (reader_step a s) = cells_in_use oom s"
  by (simp add: version_defs reader_keeps cong: main_pc.case_cong)

lemma reader_ok_reader: "reader_ok s \<Longrightarrow> reader_ok (reader_step a s)"
  by (cases "reader_at s") (auto simp: reader_ok_def reader_step_def point_defs)

text \<open>What the reader holds when it prints is in use, and not older than what it printed before.\<close>

lemma reader_holds:
  assumes "cells_in_use oom s" and "reader_ok s" and "reader_at s = R_print"
  shows "heap s (reader_d s) = Some (newest s)"
  using assms by (cases "main_at s") (auto simp: version_defs reader_ok_def newest_def point_defs)

lemma newest_reader:
  assumes "reader_ok s"
  shows "newest s \<le> newest (reader_step a s)"
  using assms by (cases "reader_at s") (auto simp: newest_def reader_step_def reader_ok_def)

lemma rcu_inv_reader:
  assumes "rcu_inv oom s"
  shows "rcu_inv oom (reader_step a s)"
proof -
  have s: "0 \<le> round_i s" "round_i s \<le> 5" "cells_in_use oom s" "reader_ok s" "printed_ok s"
    using assms by (simp_all add: rcu_inv_def)
  have "0 \<le> newest s" using s(1) by (simp add: newest_def)
  have "printed_ok (reader_step a s)"
  proof (cases "reader_at s = R_print")
    case True
    then have "out (reader_step a s) = out s @ [Said READER_MSG (newest s)]"
      using reader_holds [OF s(3,4)] by (simp add: reader_step_def show_cell_def)
    then show ?thesis using s(5) newest_reader [OF s(4), of a] \<open>0 \<le> newest s\<close>
      by (fastforce simp: printed_ok_def sorted_append)
  next
    case False
    then have "out (reader_step a s) = out s" by (cases "reader_at s"; simp add: reader_step_def)
    then show ?thesis using s(5) newest_reader [OF s(4), of a] by (fastforce simp: printed_ok_def)
  qed
  then show ?thesis
    using s cells_reader reader_ok_reader by (simp add: rcu_inv_def reader_keeps)
qed

interpretation rcu: machine "rcu_threads oom" rcu_start "rcu_inv oom" for oom
proof unfold_locales
  show "rcu_inv oom rcu_start"
    by (simp add: rcu_inv_def cells_in_use_def reader_ok_def printed_ok_def point_defs rcu_start_def)
  fix s ok f a
  assume "rcu_inv oom s" "(ok, f) \<in> set (rcu_threads oom)" "ok s a"
  then show "rcu_inv oom (f a s)" using rcu_inv_main rcu_inv_reader by (auto simp: rcu_threads_def)
qed

section \<open>Properties\<close>

text \<open>
  C4. In every interleaving of \<open>rcu_dpdk/main.c\<close> the reader never reads a version that has been
  freed, and no cell is freed that is not in use; the numbers it prints are between 0 and 5 and
  never go back; and when the main thread ends every version and the library's memory are freed.
\<close>

theorem rcu_reader_safe:
  assumes "runs (rcu_threads oom) rcu_start n s"
  shows "(\<forall>p m. Bad_free p \<notin> set (out s) \<and> Stale m p \<notin> set (out s)) \<and>
     sorted (said READER_MSG (out s)) \<and> set (said READER_MSG (out s)) \<subseteq> {0..5} \<and>
     (main_at s = M_done \<longrightarrow> heap s = Map.empty)"
proof -
  have inv: "rcu_inv oom s" using rcu.reachable_inv [OF assms] .
  then have "newest s \<le> 5" by (auto simp: rcu_inv_def newest_def version_defs)
  then show ?thesis using inv by (fastforce simp: rcu_inv_def printed_ok_def cells_in_use_def)
qed

text \<open>A run up to the first grace period, with the reader between its load and its print.\<close>

definition first_update :: "(nat \<times> answer) list" where
  "first_update = map (\<lambda>(k, p). (k, \<lparr>addr = p, fails = False\<rparr>))
     [(0, 1), (0, 2), (0, 0), (1, 0), (1, 0), (1, 0), (0, 3), (0, 0), (0, 0), (0, 0)]"

lemma first_update:
  "steps_ok (rcu_threads False) first_update rcu_start"
  "main_at (steps (rcu_threads False) first_update rcu_start) = W_wait"
  "reader_at (steps (rcu_threads False) first_update rcu_start) = R_print"
  "reader_d (steps (rcu_threads False) first_update rcu_start) = 2"
  "gdata (steps (rcu_threads False) first_update rcu_start) = 3"
  "grace_pending (steps (rcu_threads False) first_update rcu_start)"
  by (simp_all add: first_update_def rcu_threads_def rcu_start_def main_step_def reader_step_def
      main_thread_ok_def malloc_ok_def NULL_def)

lemma first_update_runs:
  "\<exists>n. runs (rcu_threads False) rcu_start n (steps (rcu_threads False) first_update rcu_start)"
  by (rule runs_steps [OF first_update(1)])

theorem rcu_reader_safe_witness:
  "\<exists>n s. runs (rcu_threads False) rcu_start n s \<and> reader_d s \<noteq> gdata s \<and>
     Stale READER_MSG (reader_d s) \<notin> set (out (reader_step \<lparr>addr = 0, fails = False\<rparr> s))"
proof -
  let ?s = "steps (rcu_threads False) first_update rcu_start"
  obtain n where run: "runs (rcu_threads False) rcu_start n ?s" using first_update_runs by blast
  moreover have "(\<lambda>s a. True, reader_step) \<in> set (rcu_threads False)" by (simp add: rcu_threads_def)
  from runs_extend [OF run this TrueI, of "\<lparr>addr = 0, fails = False\<rparr>"]
  obtain m where "runs (rcu_threads False) rcu_start m (reader_step \<lparr>addr = 0, fails = False\<rparr> ?s)" ..
  then have "Stale READER_MSG (reader_d ?s) \<notin> set (out (reader_step \<lparr>addr = 0, fails = False\<rparr> ?s))"
    using rcu_reader_safe by blast
  moreover have "reader_d ?s \<noteq> gdata ?s" unfolding first_update(4,5) by simp
  ultimately show ?thesis by blast
qed

text \<open>
  C25. Neither wait of the main thread is for ever: once it waits for a grace period, or for the
  reader to return after the stop flag is set, at most five steps of the reader later the call can
  return.
\<close>

theorem rcu_waits_end:
  assumes "runs (rcu_threads oom) rcu_start n s" and "main_at s = W_wait \<or> main_at s = M_join"
  shows "main_thread_ok oom ((reader_step a ^^ 5) s) \<lparr>addr = p, fails = False\<rparr> \<and>
     main_at (main_step \<lparr>addr = p, fails = False\<rparr> ((reader_step a ^^ 5) s)) \<in> {W_free, M_free_data}"
proof -
  have "reader_ok s" using rcu.reachable_inv [OF assms(1)] by (simp add: rcu_inv_def)
  obtain t where t: "t = (reader_step a ^^ 5) s" by simp
  then have five: "t = reader_step a (reader_step a (reader_step a (reader_step a (reader_step a s))))"
    by (simp add: eval_nat_numeral)
  have s: "main_at s = M_join \<Longrightarrow> stopped s" "main_at s = W_wait \<Longrightarrow> \<not> stopped s" "reader_at s \<noteq> R_idle"
    "grace_pending s \<Longrightarrow> reader_at s \<noteq> R_done \<and> reader_at s \<noteq> R_register"
    using reader_okD [OF \<open>reader_ok s\<close>] assms(2) by (force simp: point_defs)+
  have "\<not> grace_pending t" if "\<not> stopped s"
    using that s(3,4) unfolding five by (cases "reader_at s"; auto simp add: reader_moves reader_keeps)
  moreover have "reader_at t = R_done" if "stopped s"
    using that s(3) unfolding five by (cases "reader_at s"; simp add: reader_moves reader_keeps)
  moreover have "main_at t = main_at s" unfolding five by (simp add: reader_keeps)
  ultimately show ?thesis using assms(2) s(1,2) unfolding t [symmetric]
    by (auto simp: main_thread_ok_def main_step_def)
qed

theorem rcu_waits_end_witness:
  "\<exists>n s. runs (rcu_threads False) rcu_start n s \<and> grace_pending s \<and>
     main_thread_ok False ((reader_step \<lparr>addr = 0, fails = False\<rparr> ^^ 5) s) \<lparr>addr = 0, fails = False\<rparr>"
proof -
  obtain n where run: "runs (rcu_threads False) rcu_start n (steps (rcu_threads False) first_update rcu_start)"
    using first_update_runs by blast
  then show ?thesis using rcu_waits_end [OF run] first_update(2,6) by blast
qed

end
