(* ===== verification/Event_Life.thy ===== *)
theory Event_Life
  imports Trace_Logic
begin

text \<open>
  The life cycle of an event device as its documentation prescribes it, a monitor of the trace: the
  device is configured, then its queues and ports are set up, it is started, used on ports that
  are set up, stopped and closed.  The threads of \<open>eventdev/\<close> carry the state of this monitor; the
  other programs are checked against it on their traces.
\<close>

section \<open>The life cycle of an event device\<close>

text \<open>The numbers of queues and ports the device is configured with, those set up, and whether it runs.\<close>

record evd_life =
  wanted :: "(nat \<times> nat) option"
  queues_up :: "nat list"
  ports_up :: "nat list"
  running :: bool

definition no_device :: evd_life where
  "no_device = \<lparr>wanted = None, queues_up = [], ports_up = [], running = False\<rparr>"

definition device_ready :: "evd_life \<Rightarrow> bool" where
  "device_ready s = (case wanted s of None \<Rightarrow> False
     | Some (q, p) \<Rightarrow> list_all (\<lambda>i. i \<in> set (queues_up s)) [0..<q] \<and> list_all (\<lambda>i. i \<in> set (ports_up s)) [0..<p])"

definition life_allowed :: "evd_life \<Rightarrow> event \<Rightarrow> bool" where
  "life_allowed s e = (case e of
     Status (Evd c) r \<Rightarrow> (case c of
         Evd_configure d q p \<Rightarrow> \<not> running s
       | Evd_queue_setup d q \<Rightarrow> wanted s \<noteq> None \<and> \<not> running s
       | Evd_port_setup d p \<Rightarrow> wanted s \<noteq> None \<and> \<not> running s
       | Evd_port_link d p qs \<Rightarrow> p \<in> set (ports_up s) \<and> set qs \<subseteq> set (queues_up s)
       | Evd_start d \<Rightarrow> device_ready s \<and> \<not> running s
       | Evd_enqueue d p q m \<Rightarrow> running s \<and> p \<in> set (ports_up s) \<and> q \<in> set (queues_up s)
       | Evd_forward d p q m \<Rightarrow> running s \<and> p \<in> set (ports_up s) \<and> q \<in> set (queues_up s)
       | Evd_release d p m \<Rightarrow> running s \<and> p \<in> set (ports_up s)
       | _ \<Rightarrow> True)
   | Burst (Evd c) ms \<Rightarrow> (case c of Evd_dequeue d p n \<Rightarrow> running s \<and> p \<in> set (ports_up s) | _ \<Rightarrow> True)
   | Did (Evd c) \<Rightarrow> (case c of
         Evd_stop d \<Rightarrow> running s
       | Evd_close d \<Rightarrow> \<not> running s
       | _ \<Rightarrow> True)
   | _ \<Rightarrow> True)"

definition life_next :: "evd_life \<Rightarrow> event \<Rightarrow> evd_life" where
  "life_next s e = (case e of
     Status (Evd c) r \<Rightarrow> if r < 0 then s else (case c of
         Evd_configure d q p \<Rightarrow> s\<lparr>wanted := Some (q, p)\<rparr>
       | Evd_queue_setup d q \<Rightarrow> s\<lparr>queues_up := q # queues_up s\<rparr>
       | Evd_port_setup d p \<Rightarrow> s\<lparr>ports_up := p # ports_up s\<rparr>
       | Evd_start d \<Rightarrow> s\<lparr>running := True\<rparr>
       | _ \<Rightarrow> s)
   | Did (Evd c) \<Rightarrow> (case c of
         Evd_stop d \<Rightarrow> s\<lparr>running := False\<rparr>
       | Evd_close d \<Rightarrow> no_device
       | _ \<Rightarrow> s)
   | _ \<Rightarrow> s)"

definition life_monitor :: "evd_life monitor" where
  "life_monitor = \<lparr>allows = life_allowed, moves = life_next\<rparr>"

lemma life_monitor_simps [simp]: "allows life_monitor = life_allowed" "moves life_monitor = life_next"
  by (simp_all add: life_monitor_def)

lemma life_simps [simp]:
  "life_allowed s (Printf f as)" "life_next s (Printf f as) = s"
  "life_allowed s (Status (Eal ec) r)" "life_next s (Status (Eal ec) r) = s"
  "life_allowed s (Did (Eal ec))" "life_next s (Did (Eal ec)) = s"
  "life_allowed s (Pointer c p)" "life_next s (Pointer c p) = s"
  "life_allowed s (Did (Evd (Evd_default_conf d p)))" "life_next s (Did (Evd (Evd_default_conf d p))) = s"
  "life_allowed s (Status (Evd (Evd_configure d k p)) r) = (\<not> running s)"
  "life_next s (Status (Evd (Evd_configure d k p)) r) = (if r < 0 then s else s\<lparr>wanted := Some (k, p)\<rparr>)"
  "life_allowed s (Status (Evd (Evd_queue_setup d k)) r) = (wanted s \<noteq> None \<and> \<not> running s)"
  "life_next s (Status (Evd (Evd_queue_setup d k)) r) = (if r < 0 then s else s\<lparr>queues_up := k # queues_up s\<rparr>)"
  "life_allowed s (Status (Evd (Evd_port_setup d p)) r) = (wanted s \<noteq> None \<and> \<not> running s)"
  "life_next s (Status (Evd (Evd_port_setup d p)) r) = (if r < 0 then s else s\<lparr>ports_up := p # ports_up s\<rparr>)"
  "life_allowed s (Status (Evd (Evd_port_link d p qs)) r) = (p \<in> set (ports_up s) \<and> set qs \<subseteq> set (queues_up s))"
  "life_next s (Status (Evd (Evd_port_link d p qs)) r) = s"
  "life_allowed s (Status (Evd (Evd_start d)) r) = (device_ready s \<and> \<not> running s)"
  "life_next s (Status (Evd (Evd_start d)) r) = (if r < 0 then s else s\<lparr>running := True\<rparr>)"
  "life_allowed s (Status (Evd (Evd_enqueue d p k m)) r) = (running s \<and> p \<in> set (ports_up s) \<and> k \<in> set (queues_up s))"
  "life_next s (Status (Evd (Evd_enqueue d p k m)) r) = s"
  "life_allowed s (Status (Evd (Evd_forward d p k m)) r) = (running s \<and> p \<in> set (ports_up s) \<and> k \<in> set (queues_up s))"
  "life_next s (Status (Evd (Evd_forward d p k m)) r) = s"
  "life_allowed s (Status (Evd (Evd_release d p m)) r) = (running s \<and> p \<in> set (ports_up s))"
  "life_next s (Status (Evd (Evd_release d p m)) r) = s"
  "life_allowed s (Burst (Evd (Evd_dequeue d p n)) ms) = (running s \<and> p \<in> set (ports_up s))"
  "life_next s (Burst c ms) = s"
  "life_allowed s (Did (Evd (Evd_stop d))) = running s" "life_next s (Did (Evd (Evd_stop d))) = s\<lparr>running := False\<rparr>"
  "life_allowed s (Did (Evd (Evd_close d))) = (\<not> running s)" "life_next s (Did (Evd (Evd_close d))) = no_device"
  by (simp_all add: life_allowed_def life_next_def)

lemma no_device_sel [simp]:
  "wanted no_device = None" "queues_up no_device = []" "ports_up no_device = []" "running no_device = False"
  by (simp_all add: no_device_def)

section \<open>Rules for the loops and early returns of the programs\<close>

lemma follows_case_sum [follows_intros]:
  "(\<And>x. r = Inl x \<Longrightarrow> follows M s (f x) Q) \<Longrightarrow> (\<And>x. r = Inr x \<Longrightarrow> follows M s (g x) Q)
   \<Longrightarrow> follows M s (case r of Inl x \<Rightarrow> f x | Inr x \<Rightarrow> g x) Q"
  by (cases r) auto

lemma follows_unless:
  fixes k :: "'x option io"
  assumes "follows M s m (\<lambda>r s'. case r of None \<Rightarrow> P s' | Some x \<Rightarrow> True)"
    and "\<And>s'. P s' \<Longrightarrow> follows M s' k Q" and "\<And>x s'. Q (Some x) s'" and "appends k"
  shows "follows M s (m \<bind> (\<lambda>stop. case stop of Some x \<Rightarrow> ret (Some x) | None \<Rightarrow> k)) Q"
proof (rule follows_bind_rule [OF assms(1)])
  fix r :: "'x option" and s'
  assume "case r of None \<Rightarrow> P s' | Some x \<Rightarrow> True"
  then show "follows M s' (case r of Some x \<Rightarrow> ret (Some x) | None \<Rightarrow> k) Q"
    using assms(2,3) by (cases r) (simp_all add: follows_ret)
qed (auto intro: assms(4) appends_intros)

text \<open>A loop over an array with an early return.\<close>

lemma follows_for_return:
  assumes "\<And>x xs s. I (x # xs) s \<Longrightarrow>
      follows M s (f x) (\<lambda>r s'. case r of None \<Rightarrow> I xs s' | Some v \<Rightarrow> True)" and "\<And>x. appends (f x)"
    and "I xs s"
  shows "follows M s (for_return f xs) (\<lambda>r s'. case r of None \<Rightarrow> I [] s' | Some v \<Rightarrow> True)"
  using assms(3)
proof (induction xs arbitrary: s)
  case Nil
  then show ?case by (simp add: follows_ret)
next
  case (Cons x xs)
  have "follows M s' (case r of None \<Rightarrow> for_return f xs | Some v \<Rightarrow> ret (Some v))
      (\<lambda>r s'. case r of None \<Rightarrow> I [] s' | Some v \<Rightarrow> True)"
    if "case r of None \<Rightarrow> I xs s' | Some v \<Rightarrow> True" for r s'
    using that Cons.IH by (cases r) (simp_all add: follows_ret)
  then have "follows M s (f x \<bind> (\<lambda>r. case r of None \<Rightarrow> for_return f xs | Some v \<Rightarrow> ret (Some v)))
      (\<lambda>r s'. case r of None \<Rightarrow> I [] s' | Some v \<Rightarrow> True)"
    by (rule follows_bind_rule [OF assms(1) [OF Cons.prems]]) (auto intro!: appends_intros assms(2))
  then show ?case by simp
qed

text \<open>A call that only reports whether it failed.\<close>

lemma follows_note:
  assumes "\<And>msg. allows M s (Printf msg []) \<and> moves M s (Printf msg []) = s"
    and "follows M s (f ()) Q" and "\<And>x. appends (f x)"
  shows "follows M s ((if b then say msg [] else ret ()) \<bind> f) Q"
  by (rule follows_bind_rule [where P = "\<lambda>_ s'. s' = s"])
    (use assms in \<open>auto simp: follows_def emitted_def\<close>)

lemma follows_event_loop:
  assumes "\<And>u. follows M s (body u) (\<lambda>r s'. s' = s)" and "\<And>u. appends (body u)"
    and "\<And>r. follows M s (k r) Q" and "\<And>r. appends (k r)"
  shows "follows M s (rounds n body v \<bind> k) Q"
proof (rule follows_bind_rule [where P = "\<lambda>r s'. s' = s"])
  have "follows M s (rounds n body v) (\<lambda>r s'. case r of Inl x \<Rightarrow> s' = s | Inr v' \<Rightarrow> s' = s)"
    by (rule follows_rounds [where I = "\<lambda>v s'. s' = s"])
      (auto intro: follows_weaken [OF assms(1)] assms(2) split: sum.split)
  then show "follows M s (rounds n body v) (\<lambda>r s'. s' = s)"
    by (rule follows_weaken) (auto split: sum.splits)
qed (use assms(3,4) in auto)

lemma life_simps_more [simp]:
  "life_allowed s (Status (Evd (Evd_service nm)) r)" "life_next s (Status (Evd (Evd_service nm)) r) = s"
  "life_allowed s (Did (Evd Evd_service_run))" "life_next s (Did (Evd Evd_service_run)) = s"
  "life_allowed s (Status (Eth tc) r)" "life_next s (Status (Eth tc) r) = s"
  "life_allowed s (Burst (Eth tc) ms)" "life_allowed s (Did (Mem mc))" "life_next s (Did (Mem mc)) = s"
  "life_allowed s (Access m)" "life_next s (Access m) = s" "life_allowed s (Overread m)" "life_next s (Overread m) = s"
  by (simp_all add: life_allowed_def life_next_def)

lemma follows_eal_loop:
  assumes "\<And>c. g c = act (Eal (f c))" and "follows life_monitor s (k ()) Q" and "\<And>u. appends (k u)"
  shows "follows life_monitor s (for_each g cs \<bind> k) Q"
  by (rule follows_for_each_bind [where I = "\<lambda>_ s'. s' = s"])
    (use assms in \<open>auto simp: follows_def emitted_def\<close>)

end
