(* ===== verification/Eventdev_Workers.thy ===== *)
theory Eventdev_Workers
  imports Machines Event_Life
begin

text \<open>
  \<open>eventdev/main.c\<close>: the main core puts twenty numbered events on one atomic queue and then one
  exit event for each worker core; the workers take events, count them, and stop at an exit event.

  The event device is not part of the repository.  What the model uses of it is its documented
  scheduling: events leave the queue in order; all events have flow 0 and schedule type ATOMIC, so
  while one port holds an event of the flow no other port is given one; the port lets go of the
  event when it asks for the next one (implicit release).  The field \<open>holder\<close> is the worker whose
  port holds the flow.  A dequeue may return nothing and an enqueue may be refused at any time.

  The state carries the device's place in its life cycle (\<open>Event_Life\<close>).  The device has eight ports,
  so the ninth worker core is given a port that was never set up: what the library does then is not
  documented, and the model stops that core in \<open>V_undefined\<close>.
\<close>

section \<open>Setting up the device\<close>

definition NUM_EVENTS :: nat where "NUM_EVENTS = 20"
definition EXIT_EVENT :: int where "EXIT_EVENT = 9999"

text \<open>
  The worker cores get ports 0, 1, \<open>\<dots>\<close> in the order of the launch loop; the device is configured
  with eight ports.  The main core enqueues on port 0, too.  \<open>worker_ports\<close> is a static array, 0 where
  nothing is stored, and \<open>port_id\<close> has eight bits.
\<close>

definition worker_ports :: "nat list \<Rightarrow> (nat \<rightharpoonup> nat)" where
  "worker_ports cores = map_of (zip cores [0..<length cores])"

definition port_id :: "nat list \<Rightarrow> nat \<Rightarrow> nat" where
  "port_id cores c = unat (of_nat (case worker_ports cores c of None \<Rightarrow> 0 | Some p \<Rightarrow> p) :: u8)"

definition link_ports :: "env \<Rightarrow> int option io" where
  "link_ports E = for_return (\<lambda>i. do {
     r \<leftarrow> ask_status E (Evd (Evd_port_link 0 i [0]));
     if r \<noteq> 1 then rte_exit ''Port link failed'' [] \<bind> (\<lambda>x. ret (Some x)) else ret None }) [0..<8]"

definition setup_ports :: "env \<Rightarrow> int option io" where
  "setup_ports E = for_return (\<lambda>i. do {
     r \<leftarrow> ask_status E (Evd (Evd_port_setup 0 i));
     if r < 0 then rte_exit ''Port setup failed'' [] \<bind> (\<lambda>x. ret (Some x)) else ret None }) [0..<8]"

definition workers_init :: "env \<Rightarrow> nat list \<Rightarrow> int option io" where
  "workers_init E cores = do {
     r \<leftarrow> rte_eal_init E;
     if r < 0 then rte_exit ''EAL init failed'' [] \<bind> (\<lambda>x. ret (Some x)) else do {
     say ''EAL initialized'' [];
     r \<leftarrow> ask_status E (Evd (Evd_service ''event_sw0_service''));
     if r < 0 then rte_exit ''event service not found'' [] \<bind> (\<lambda>x. ret (Some x)) else do {
     act (Evd Evd_service_run);
     r \<leftarrow> ask_status E (Evd (Evd_configure 0 1 8));
     if r < 0 then rte_exit ''Device configure failed'' [] \<bind> (\<lambda>x. ret (Some x)) else do {
     r \<leftarrow> ask_status E (Evd (Evd_queue_setup 0 0));
     if r < 0 then rte_exit ''Queue setup failed'' [] \<bind> (\<lambda>x. ret (Some x)) else do {
     stop \<leftarrow> setup_ports E;
     case stop of Some x \<Rightarrow> ret (Some x) | None \<Rightarrow> do {
     stop \<leftarrow> link_ports E;
     case stop of Some x \<Rightarrow> ret (Some x) | None \<Rightarrow> do {
     r \<leftarrow> ask_status E (Evd (Evd_start 0));
     if r < 0 then rte_exit ''Device start failed'' [] \<bind> (\<lambda>x. ret (Some x)) else do {
     say ''Event device started'' [];
     for_each (\<lambda>c. rte_eal_remote_launch ''worker'' c) cores;
     say ''Total workers: %u'' [PU (length cores)];
     ret None } } } } } } } }"

section \<open>Producer and workers\<close>

datatype producer_pc = E_send | E_say | E_exits | E_join | E_stats | E_stop | E_close | E_done | E_undefined

datatype worker_pc = V_start | V_poll | V_got | V_exited | V_undefined

text \<open>What is printed.\<close>

datatype ev_line = Started nat nat | Processed nat int | Sent nat | Stat nat nat | Done_line

record evd =
  evq :: "int list"
  holder :: "nat option"
  producer :: producer_pc
  send_i :: nat
  worker :: "nat \<Rightarrow> worker_pc"
  worker_ev :: "nat \<Rightarrow> int"
  core_stats :: "nat \<Rightarrow> nat"
  lines :: "ev_line list"
  dev :: evd_life

text \<open>The device calls of the two threads as events of the life cycle; what they return does not matter there.\<close>

abbreviation enqueue_call :: "int \<Rightarrow> event" where
  "enqueue_call v \<equiv> Status (Evd (Evd_enqueue 0 0 0 (nat v))) 0"

abbreviation dequeue_call :: "nat \<Rightarrow> event" where
  "dequeue_call p \<equiv> Burst (Evd (Evd_dequeue 0 p 1)) []"

abbreviation stop_call :: event where "stop_call \<equiv> Did (Evd (Evd_stop 0))"
abbreviation close_call :: event where "close_call \<equiv> Did (Evd (Evd_close 0))"

definition producer_step :: "nat list \<Rightarrow> nat \<Rightarrow> answer \<Rightarrow> evd \<Rightarrow> evd" where
  "producer_step cores max_lcore a s = (case producer s of
     E_send \<Rightarrow> if \<not> send_i s < NUM_EVENTS then s\<lparr>send_i := 0, producer := E_exits\<rparr>
       else if \<not> life_allowed (dev s) (enqueue_call (int (send_i s))) then s\<lparr>producer := E_undefined\<rparr>
       else if fails a then s else s\<lparr>evq := evq s @ [int (send_i s)], producer := E_say\<rparr>
   | E_say \<Rightarrow> s\<lparr>lines := lines s @ [Sent (send_i s)], send_i := send_i s + 1, producer := E_send\<rparr>
   | E_exits \<Rightarrow> if \<not> send_i s < length cores then s\<lparr>producer := E_join\<rparr>
       else if \<not> life_allowed (dev s) (enqueue_call EXIT_EVENT) then s\<lparr>producer := E_undefined\<rparr>
       else if fails a then s else s\<lparr>evq := evq s @ [EXIT_EVENT], send_i := send_i s + 1\<rparr>
   | E_join \<Rightarrow> if fails a then s else s\<lparr>producer := E_stats\<rparr>
   | E_stats \<Rightarrow> s\<lparr>lines := lines s @
         map (\<lambda>c. Stat c (core_stats s c)) (filter (\<lambda>c. core_stats s c \<noteq> 0) [0..<max_lcore]),
       producer := E_stop\<rparr>
   | E_stop \<Rightarrow> if \<not> life_allowed (dev s) stop_call then s\<lparr>producer := E_undefined\<rparr>
       else s\<lparr>dev := life_next (dev s) stop_call, producer := E_close\<rparr>
   | E_close \<Rightarrow> if \<not> life_allowed (dev s) close_call then s\<lparr>producer := E_undefined\<rparr>
       else s\<lparr>dev := life_next (dev s) close_call, lines := lines s @ [Done_line], producer := E_done\<rparr>
   | E_done \<Rightarrow> s
   | E_undefined \<Rightarrow> s)"

text \<open>\<open>rte_eal_mp_wait_lcore\<close> returns when every worker function has returned.\<close>

definition producer_ok :: "nat list \<Rightarrow> evd \<Rightarrow> answer \<Rightarrow> bool" where
  "producer_ok cores s a = (case producer s of
     E_join \<Rightarrow> \<not> fails a \<longrightarrow> (\<forall>c \<in> set cores. worker s c = V_exited)
   | _ \<Rightarrow> True)"

definition worker_step :: "nat list \<Rightarrow> nat \<Rightarrow> answer \<Rightarrow> evd \<Rightarrow> evd" where
  "worker_step cores c a s = (case worker s c of
     V_start \<Rightarrow> s\<lparr>lines := lines s @ [Started c (port_id cores c)], worker := (worker s)(c := V_poll)\<rparr>
   | V_poll \<Rightarrow>
       if \<not> life_allowed (dev s) (dequeue_call (port_id cores c)) then s\<lparr>worker := (worker s)(c := V_undefined)\<rparr>
       else if fails a then s\<lparr>holder := (if holder s = Some c then None else holder s)\<rparr>
       else s\<lparr>evq := tl (evq s), holder := Some c, worker_ev := (worker_ev s)(c := hd (evq s)),
         worker := (worker s)(c := V_got)\<rparr>
   | V_got \<Rightarrow> s\<lparr>core_stats := (core_stats s)(c := core_stats s c + 1),
       lines := lines s @ [Processed c (worker_ev s c)],
       worker := (worker s)(c := if worker_ev s c = EXIT_EVENT then V_exited else V_poll)\<rparr>
   | V_exited \<Rightarrow> s
   | V_undefined \<Rightarrow> s)"

definition worker_ok :: "nat \<Rightarrow> evd \<Rightarrow> answer \<Rightarrow> bool" where
  "worker_ok c s a = (case worker s c of
     V_poll \<Rightarrow> \<not> fails a \<longrightarrow> evq s \<noteq> [] \<and> (holder s = None \<or> holder s = Some c)
   | _ \<Rightarrow> True)"

definition evd_threads :: "nat list \<Rightarrow> nat \<Rightarrow> evd thread list" where
  "evd_threads cores max_lcore =
     (producer_ok cores, producer_step cores max_lcore) # map (\<lambda>c. (worker_ok c, worker_step cores c)) cores"

text \<open>The device as \<open>workers_init\<close> leaves it: one queue, eight ports, running.\<close>

definition workers_dev :: evd_life where
  "workers_dev = \<lparr>wanted = Some (1, 8), queues_up = [0], ports_up = rev [0..<8], running = True\<rparr>"

lemma workers_dev_sel [simp]:
  "wanted workers_dev = Some (1, 8)" "queues_up workers_dev = [0]" "set (ports_up workers_dev) = {0..<8}"
  "running workers_dev"
  by (simp_all add: workers_dev_def)

definition evd_start :: evd where
  "evd_start = \<lparr>evq = [], holder = None, producer = E_send, send_i = 0, worker = (\<lambda>c. V_start),
     worker_ev = (\<lambda>c. 0), core_stats = (\<lambda>c. 0), lines = [], dev = workers_dev\<rparr>"

section \<open>Every event once, in order\<close>

definition processed :: "ev_line list \<Rightarrow> (nat \<times> int) list" where
  "processed ls = concat (map (\<lambda>l. case l of Processed c v \<Rightarrow> [(c, v)] | _ \<Rightarrow> []) ls)"

lemma processed_simps [simp]:
  "processed [] = []" "processed (xs @ ys) = processed xs @ processed ys"
  "processed (Processed c v # ls) = (c, v) # processed ls" "processed (Sent i # ls) = processed ls"
  "processed (Started c p # ls) = processed ls" "processed (Done_line # ls) = processed ls"
  "processed (map (\<lambda>c. Stat c (f c)) cs) = []"
  by (simp_all add: processed_def comp_def)

definition in_hand :: "evd \<Rightarrow> int list" where
  "in_hand s = (case holder s of None \<Rightarrow> [] | Some c \<Rightarrow> if worker s c = V_got then [worker_ev s c] else [])"

definition all_events :: "nat list \<Rightarrow> int list" where
  "all_events cores = map int [0..<NUM_EVENTS] @ replicate (length cores) EXIT_EVENT"

definition sent_so_far :: "nat list \<Rightarrow> evd \<Rightarrow> nat" where
  "sent_so_far cores s = (case producer s of
     E_send \<Rightarrow> send_i s | E_say \<Rightarrow> send_i s + 1 | E_exits \<Rightarrow> NUM_EVENTS + send_i s
   | _ \<Rightarrow> NUM_EVENTS + length cores)"

definition phase_ok :: "nat list \<Rightarrow> evd \<Rightarrow> bool" where
  "phase_ok cores s \<longleftrightarrow> (case producer s of
     E_send \<Rightarrow> send_i s \<le> NUM_EVENTS | E_say \<Rightarrow> send_i s < NUM_EVENTS | E_exits \<Rightarrow> send_i s \<le> length cores
   | E_join \<Rightarrow> True | E_undefined \<Rightarrow> False | _ \<Rightarrow> (\<forall>c \<in> set cores. worker s c = V_exited))"

text \<open>
  The device runs until every worker has left; then it is stopped and closed.  The only undefined
  call is that of a worker whose port is not one of the eight.
\<close>

definition dev_ok :: "nat list \<Rightarrow> evd \<Rightarrow> bool" where
  "dev_ok cores s \<longleftrightarrow>
     dev s = (case producer s of E_close \<Rightarrow> workers_dev\<lparr>running := False\<rparr> | E_done \<Rightarrow> no_device | _ \<Rightarrow> workers_dev) \<and>
     (\<forall>c. worker s c = V_undefined \<longrightarrow> 8 \<le> port_id cores c)"

definition queue_ok :: "nat list \<Rightarrow> evd \<Rightarrow> bool" where
  "queue_ok cores s \<longleftrightarrow>
     map snd (processed (lines s)) @ in_hand s @ evq s = take (sent_so_far cores s) (all_events cores)"

text \<open>A worker that has an event or has left holds the flow; it has left iff it processed an exit event.\<close>

definition workers_ok :: "nat list \<Rightarrow> evd \<Rightarrow> bool" where
  "workers_ok cores s \<longleftrightarrow>
     (\<forall>c. worker s c = V_got \<or> worker s c = V_exited \<longrightarrow> holder s = Some c) \<and>
     set_option (holder s) \<subseteq> set cores \<and>
     (\<forall>c. worker s c = V_exited \<longleftrightarrow> (c, EXIT_EVENT) \<in> set (processed (lines s))) \<and>
     (\<forall>c. core_stats s c = length (filter (\<lambda>e. fst e = c) (processed (lines s))))"

lemma workers_okD:
  assumes "workers_ok cores s"
  shows "worker s c = V_got \<Longrightarrow> holder s = Some c" "worker s c = V_exited \<Longrightarrow> holder s = Some c"
    "holder s = Some c \<Longrightarrow> c \<in> set cores"
    "worker s c = V_exited \<longleftrightarrow> (c, EXIT_EVENT) \<in> set (processed (lines s))"
    "core_stats s c = length (filter (\<lambda>e. fst e = c) (processed (lines s)))"
  using assms by (auto simp: workers_ok_def)

definition evd_inv :: "nat list \<Rightarrow> evd \<Rightarrow> bool" where
  "evd_inv cores s \<longleftrightarrow> phase_ok cores s \<and> queue_ok cores s \<and> workers_ok cores s \<and> dev_ok cores s"

lemma take_all_events:
  "i < NUM_EVENTS \<Longrightarrow> take (Suc i) (all_events cores) = take i (all_events cores) @ [int i]"
  "j < length cores \<Longrightarrow>
     take (NUM_EVENTS + Suc j) (all_events cores) = take (NUM_EVENTS + j) (all_events cores) @ [EXIT_EVENT]"
  by (simp_all add: all_events_def take_Suc_conv_app_nth nth_append replicate_append_same)

lemma in_hand_cong:
  "holder t = holder s \<Longrightarrow> worker t = worker s \<Longrightarrow> worker_ev t = worker_ev s \<Longrightarrow> in_hand t = in_hand s"
  by (simp add: in_hand_def split: option.split)

lemma producer_keeps:
  "worker (producer_step cores m a s) = worker s" "holder (producer_step cores m a s) = holder s"
  "core_stats (producer_step cores m a s) = core_stats s" "worker_ev (producer_step cores m a s) = worker_ev s"
  "processed (lines (producer_step cores m a s)) = processed (lines s)"
  by (cases "producer s"; simp add: producer_step_def)+

lemma producer_phase:
  assumes "phase_ok cores s" and "dev_ok cores s" and "producer_ok cores s a"
  shows "phase_ok cores (producer_step cores m a s)"
  using assms by (cases "producer s") (simp_all add: phase_ok_def dev_ok_def producer_step_def producer_ok_def)

lemma producer_dev:
  assumes "phase_ok cores s" and "dev_ok cores s"
  shows "dev_ok cores (producer_step cores m a s)"
  using assms by (cases "producer s") (simp_all add: phase_ok_def dev_ok_def producer_step_def)

lemma producer_queue:
  assumes "phase_ok cores s" and "dev_ok cores s" and "queue_ok cores s"
  shows "queue_ok cores (producer_step cores m a s)"
proof -
  let ?s = "producer_step cores m a s"
  have hand: "in_hand ?s = in_hand s" by (rule in_hand_cong) (simp_all add: producer_keeps)
  have "\<exists>es. evq ?s = evq s @ es \<and>
      take (sent_so_far cores ?s) (all_events cores) = take (sent_so_far cores s) (all_events cores) @ es"
  proof (cases "producer s")
    case E_send
    then show ?thesis using assms(1) take_all_events(1) [of "send_i s" cores]
      using assms(2) by (cases "send_i s < NUM_EVENTS")
        (simp_all add: phase_ok_def dev_ok_def producer_step_def sent_so_far_def)
  next
    case E_exits
    then show ?thesis using assms(1) take_all_events(2) [of "send_i s" cores]
      using assms(2) by (cases "send_i s < length cores")
        (simp_all add: phase_ok_def dev_ok_def producer_step_def sent_so_far_def)
  qed (use assms(1,2) in \<open>simp_all add: phase_ok_def dev_ok_def producer_step_def sent_so_far_def\<close>)
  then obtain es where "evq ?s = evq s @ es"
    "take (sent_so_far cores ?s) (all_events cores) = take (sent_so_far cores s) (all_events cores) @ es" by blast
  then show ?thesis using assms(3) by (simp add: queue_ok_def producer_keeps hand)
qed

lemma evd_inv_producer: "evd_inv cores s \<Longrightarrow> producer_ok cores s a \<Longrightarrow> evd_inv cores (producer_step cores m a s)"
  using producer_phase producer_queue producer_dev by (simp add: evd_inv_def workers_ok_def producer_keeps)

lemma worker_keeps:
  "producer (worker_step cores c a s) = producer s" "send_i (worker_step cores c a s) = send_i s"
  by (cases "worker s c"; simp add: worker_step_def)+

text \<open>A polling worker whose port does not exist only stops.\<close>

lemma worker_lost:
  assumes "worker s c = V_poll" and "\<not> life_allowed (dev s) (dequeue_call (port_id cores c))"
  shows "worker_step cores c a s = s\<lparr>worker := (worker s)(c := V_undefined)\<rparr>"
  using assms by (simp add: worker_step_def)

lemma worker_polls:
  assumes "worker s c = V_poll" and "life_allowed (dev s) (dequeue_call (port_id cores c))"
  shows "worker_step cores c a s = (if fails a then s\<lparr>holder := (if holder s = Some c then None else holder s)\<rparr>
    else s\<lparr>evq := tl (evq s), holder := Some c, worker_ev := (worker_ev s)(c := hd (evq s)),
      worker := (worker s)(c := V_got)\<rparr>)"
  using assms unfolding worker_step_def by (simp del: life_simps)

lemma in_hand_lost: "worker s c = V_poll \<Longrightarrow> in_hand (s\<lparr>worker := (worker s)(c := V_undefined)\<rparr>) = in_hand s"
  by (auto simp: in_hand_def split: option.split)

lemma worker_sent: "sent_so_far cores (worker_step cores c a s) = sent_so_far cores s"
  by (simp add: sent_so_far_def worker_keeps cong: producer_pc.case_cong)

lemma worker_exited: "worker s c = V_exited \<Longrightarrow> worker_step cores c a s = s"
  by (simp add: worker_step_def)

lemma worker_phase:
  assumes "phase_ok cores s" and "c \<in> set cores"
  shows "phase_ok cores (worker_step cores c a s)"
proof (cases "worker s c = V_exited")
  case False
  then have "producer s \<noteq> E_stats" "producer s \<noteq> E_stop" "producer s \<noteq> E_close" "producer s \<noteq> E_done"
    using assms by (auto simp: phase_ok_def)
  then show ?thesis using assms(1)
    by (cases "producer s") (simp_all add: phase_ok_def worker_keeps)
qed (use assms(1) in \<open>simp add: worker_exited\<close>)

lemma poll_allowed:
  assumes "phase_ok cores s" and "dev_ok cores s" and "c \<in> set cores" and "worker s c \<noteq> V_exited"
  shows "life_allowed (dev s) (dequeue_call (port_id cores c)) \<longleftrightarrow> port_id cores c < 8"
  using assms by (cases "producer s") (auto simp: phase_ok_def dev_ok_def)

lemma worker_dev:
  assumes "phase_ok cores s" and "dev_ok cores s" and "c \<in> set cores"
  shows "dev_ok cores (worker_step cores c a s)"
proof -
  have "dev (worker_step cores c a s) = dev s"
    by (cases "worker s c") (simp_all add: worker_step_def)
  moreover have "8 \<le> port_id cores k" if "worker (worker_step cores c a s) k = V_undefined" for k
  proof (cases "worker s k = V_undefined")
    case False
    then have k: "worker s c = V_poll" "\<not> life_allowed (dev s) (dequeue_call (port_id cores c))" "k = c"
      using that by (cases "worker s c"; simp add: worker_step_def split: if_splits)+
    then show ?thesis using poll_allowed [OF assms] by (simp del: life_simps)
  qed (use assms(2) in \<open>simp add: dev_ok_def\<close>)
  ultimately show ?thesis using assms(2) by (simp add: dev_ok_def worker_keeps cong: producer_pc.case_cong)
qed

lemma worker_queue:
  assumes "queue_ok cores s" and "workers_ok cores s" and "worker_ok c s a"
  shows "queue_ok cores (worker_step cores c a s)"
proof (cases "worker s c")
  case V_start
  then have "in_hand (worker_step cores c a s) = in_hand s"
    by (auto simp: in_hand_def worker_step_def split: option.split)
  then show ?thesis using assms(1) V_start by (simp add: queue_ok_def worker_sent) (simp add: worker_step_def)
next
  case V_poll
  consider (lost) "\<not> life_allowed (dev s) (dequeue_call (port_id cores c))"
    | (none) "life_allowed (dev s) (dequeue_call (port_id cores c))" "fails a"
    | (got) "life_allowed (dev s) (dequeue_call (port_id cores c))" "\<not> fails a" by blast
  then show ?thesis
  proof cases
    case lost
    have "in_hand (worker_step cores c a s) = in_hand s"
      unfolding worker_lost [OF V_poll lost] by (rule in_hand_lost [OF V_poll])
    then show ?thesis using assms(1) by (simp add: queue_ok_def worker_sent) (simp add: worker_lost [OF V_poll lost])
  next
    case none
    then have "in_hand (worker_step cores c a s) = in_hand s"
      using V_poll unfolding worker_polls [OF V_poll none(1)] by (auto simp: in_hand_def split: option.split)
    then show ?thesis using assms(1) none(2)
      by (simp add: queue_ok_def worker_sent) (simp add: worker_polls [OF V_poll none(1)])
  next
    case got
    then have "evq s \<noteq> []" "in_hand s = []"
      using assms(3) V_poll by (auto simp: worker_ok_def in_hand_def)
    then show ?thesis using assms(1) got(2)
      by (simp add: queue_ok_def worker_sent) (simp add: worker_polls [OF V_poll got(1)] in_hand_def)
  qed
next
  case V_got
  then have "holder s = Some c" using assms(2) by (simp add: workers_ok_def)
  then have "in_hand s = [worker_ev s c]" "in_hand (worker_step cores c a s) = []"
    using V_got by (simp_all add: in_hand_def worker_step_def)
  then show ?thesis using assms(1) V_got by (simp add: queue_ok_def worker_sent) (simp add: worker_step_def)
qed (use assms(1) in \<open>simp_all add: worker_step_def\<close>)

text \<open>The four parts for one step of a worker.\<close>

lemma worker_exits:
  assumes "workers_ok cores s"
  shows "worker (worker_step cores c a s) k = V_exited \<longleftrightarrow>
    (k, EXIT_EVENT) \<in> set (processed (lines (worker_step cores c a s)))"
  using workers_okD(4) [OF assms, of k] workers_okD(4) [OF assms, of c]
  by (cases "worker s c") (auto simp: worker_step_def)

lemma worker_counts:
  assumes "workers_ok cores s"
  shows "core_stats (worker_step cores c a s) k =
    length (filter (\<lambda>e. fst e = k) (processed (lines (worker_step cores c a s))))"
  using workers_okD(5) [OF assms, of k] by (cases "worker s c") (auto simp: worker_step_def)

lemma worker_member:
  assumes "workers_ok cores s" and "c \<in> set cores"
  shows "set_option (holder (worker_step cores c a s)) \<subseteq> set cores"
  using workers_okD(3) [OF assms(1)] assms(2)
  by (cases "worker s c"; cases "holder s") (simp_all add: worker_step_def)

lemma worker_holds:
  assumes "workers_ok cores s" and "worker_ok c s a"
    and "worker (worker_step cores c a s) k = V_got \<or> worker (worker_step cores c a s) k = V_exited"
  shows "holder (worker_step cores c a s) = Some k"
proof (cases "k = c")
  case True
  then show ?thesis using assms workers_okD(1,2) [OF assms(1), of c]
    by (cases "worker s c") (simp_all add: worker_step_def split: if_splits)
next
  case False
  then have "worker s k = V_got \<or> worker s k = V_exited"
    using assms(3) by (cases "worker s c") (simp_all add: worker_step_def split: if_splits)
  then have "holder s = Some k" using workers_okD(1,2) [OF assms(1)] by blast
  then show ?thesis using assms(2) False by (cases "worker s c") (simp_all add: worker_step_def worker_ok_def)
qed

lemma worker_workers:
  assumes "workers_ok cores s" and "c \<in> set cores" and "worker_ok c s a"
  shows "workers_ok cores (worker_step cores c a s)"
  using worker_exits [OF assms(1)] worker_counts [OF assms(1)] worker_member [OF assms(1,2)]
    worker_holds [OF assms(1,3)] unfolding workers_ok_def by blast

lemma evd_inv_worker:
  "evd_inv cores s \<Longrightarrow> c \<in> set cores \<Longrightarrow> worker_ok c s a \<Longrightarrow> evd_inv cores (worker_step cores c a s)"
  unfolding evd_inv_def by (intro conjI worker_phase worker_queue worker_workers worker_dev) simp_all

section \<open>Progress\<close>

definition producer_left :: "nat list \<Rightarrow> evd \<Rightarrow> nat" where
  "producer_left cores s = (case producer s of
     E_send \<Rightarrow> 2 * (NUM_EVENTS - send_i s) + length cores + 6
   | E_say \<Rightarrow> 2 * (NUM_EVENTS - send_i s) + length cores + 5
   | E_exits \<Rightarrow> (length cores - send_i s) + 5
   | E_join \<Rightarrow> 4 | E_stats \<Rightarrow> 3 | E_stop \<Rightarrow> 2 | E_close \<Rightarrow> 1 | E_done \<Rightarrow> 0 | E_undefined \<Rightarrow> 0)"

text \<open>The events no worker has taken yet.\<close>

definition to_take :: "nat list \<Rightarrow> evd \<Rightarrow> nat" where
  "to_take cores s = NUM_EVENTS + length cores - sent_so_far cores s + length (evq s)"

definition evd_left :: "nat list \<Rightarrow> evd \<Rightarrow> nat" where
  "evd_left cores s = producer_left cores s + 3 * to_take cores s + length (in_hand s) +
     (if holder s = None then 0 else 1) + card {c \<in> set cores. worker s c = V_start} +
     card {c \<in> set cores. worker s c \<noteq> V_undefined \<and> 8 \<le> port_id cores c}"

text \<open>
  The run is over when the main core is done, or waits for a worker while another has left, or when
  a worker has used a port that does not exist.
\<close>

definition stuck :: "nat list \<Rightarrow> evd \<Rightarrow> bool" where
  "stuck cores s \<longleftrightarrow> producer s = E_join \<and> (\<exists>c \<in> set cores. worker s c = V_exited) \<and>
     (\<exists>c \<in> set cores. worker s c \<noteq> V_exited) \<and> (\<forall>c \<in> set cores. worker s c \<noteq> V_start)"

definition evd_over :: "nat list \<Rightarrow> evd \<Rightarrow> bool" where
  "evd_over cores s \<longleftrightarrow>
     producer s = E_done \<or> stuck cores s \<or> (\<exists>c \<in> set cores. worker s c = V_undefined)"

lemma producer_left_drops:
  assumes "phase_ok cores s" and "dev_ok cores s" and "producer_step cores m a s \<noteq> s"
  shows "evd_left cores (producer_step cores m a s) < evd_left cores s"
proof -
  let ?s = "producer_step cores m a s"
  have "in_hand ?s = in_hand s" by (rule in_hand_cong) (simp_all add: producer_keeps)
  moreover have "producer_left cores ?s + 3 * to_take cores ?s < producer_left cores s + 3 * to_take cores s"
  proof (cases "producer s")
    case E_send
    then show ?thesis using assms by (cases "send_i s < NUM_EVENTS"; cases "fails a")
        (simp_all add: phase_ok_def dev_ok_def producer_step_def producer_left_def to_take_def sent_so_far_def)
  next
    case E_exits
    then show ?thesis using assms by (cases "send_i s < length cores"; cases "fails a")
        (simp_all add: phase_ok_def dev_ok_def producer_step_def producer_left_def to_take_def sent_so_far_def)
  qed (use assms in \<open>auto simp: phase_ok_def dev_ok_def producer_step_def producer_left_def to_take_def sent_so_far_def
      split: if_splits\<close>)
  ultimately show ?thesis by (simp add: evd_left_def producer_keeps)
qed

text \<open>How a step of a worker changes the parts of the measure.\<close>

lemma undefined_ports:
  assumes "worker s c \<noteq> V_undefined" and "worker (worker_step cores c a s) c \<noteq> V_undefined"
  shows "{k \<in> set cores. worker (worker_step cores c a s) k \<noteq> V_undefined \<and> 8 \<le> port_id cores k} =
    {k \<in> set cores. worker s k \<noteq> V_undefined \<and> 8 \<le> port_id cores k}"
proof -
  have "worker (worker_step cores c a s) k = worker s k" if "k \<noteq> c" for k
    using that by (cases "worker s c") (simp_all add: worker_step_def)
  then show ?thesis using assms by auto metis+
qed

lemma worker_left_drops:
  assumes "phase_ok cores s" and "dev_ok cores s" and "workers_ok cores s"
    and "c \<in> set cores" and "worker_ok c s a" and "worker_step cores c a s \<noteq> s"
  shows "evd_left cores (worker_step cores c a s) < evd_left cores s"
proof -
  let ?s = "worker_step cores c a s"
  have left: "producer_left cores ?s = producer_left cores s"
    by (simp add: producer_left_def worker_keeps cong: producer_pc.case_cong)
  show ?thesis
  proof (cases "worker s c")
    case V_start
    then have "{k \<in> set cores. worker ?s k = V_start} = {k \<in> set cores. worker s k = V_start} - {c}"
      by (auto simp: worker_step_def)
    then have "card {k \<in> set cores. worker ?s k = V_start} < card {k \<in> set cores. worker s k = V_start}"
      using V_start assms(4) by (simp only:) (intro psubset_card_mono, auto)
    moreover have "in_hand ?s = in_hand s" using V_start
      by (auto simp: in_hand_def worker_step_def split: option.split)
    moreover have "to_take cores ?s = to_take cores s" "holder ?s = holder s"
      using V_start by (simp_all add: to_take_def worker_sent) (simp_all add: worker_step_def)
    moreover have "worker ?s c \<noteq> V_undefined" using V_start by (simp add: worker_step_def)
    ultimately show ?thesis using undefined_ports [of s c cores a] V_start by (simp add: evd_left_def left)
  next
    case V_poll
    show ?thesis
    proof (cases "life_allowed (dev s) (dequeue_call (port_id cores c))")
      case False
      note lost = worker_lost [OF V_poll False, of a]
      have "8 \<le> port_id cores c" using False poll_allowed [OF assms(1,2,4)] V_poll by (simp del: life_simps)
      then have "c \<in> {k \<in> set cores. worker s k \<noteq> V_undefined \<and> 8 \<le> port_id cores k}"
        using V_poll assms(4) by simp
      moreover have "{k \<in> set cores. worker ?s k \<noteq> V_undefined \<and> 8 \<le> port_id cores k} =
          {k \<in> set cores. worker s k \<noteq> V_undefined \<and> 8 \<le> port_id cores k} - {c}"
        unfolding lost by auto
      ultimately have "card {k \<in> set cores. worker ?s k \<noteq> V_undefined \<and> 8 \<le> port_id cores k} <
          card {k \<in> set cores. worker s k \<noteq> V_undefined \<and> 8 \<le> port_id cores k}"
        by (simp only:) (rule card_Diff1_less, simp_all)
      moreover have "{k \<in> set cores. worker ?s k = V_start} = {k \<in> set cores. worker s k = V_start}"
        unfolding lost using V_poll by auto
      moreover have "in_hand ?s = in_hand s" unfolding lost by (rule in_hand_lost [OF V_poll])
      moreover have "to_take cores ?s = to_take cores s" "holder ?s = holder s"
        by (simp_all add: to_take_def worker_sent) (simp_all add: lost)
      ultimately show ?thesis by (simp add: evd_left_def left)
    next
      case True
      note polls = worker_polls [OF V_poll True, of a]
      have ports: "{k \<in> set cores. worker ?s k \<noteq> V_undefined \<and> 8 \<le> port_id cores k} =
          {k \<in> set cores. worker s k \<noteq> V_undefined \<and> 8 \<le> port_id cores k}"
        using V_poll by (intro undefined_ports) (simp_all add: polls)
      have st: "{k \<in> set cores. worker ?s k = V_start} = {k \<in> set cores. worker s k = V_start}"
        using V_poll by (auto simp: polls split: if_splits)
      show ?thesis
      proof (cases "fails a")
        case True
        then have "holder s = Some c" "holder ?s = None" using assms(6) V_poll
          by (auto simp: polls split: if_splits)
        moreover have "in_hand ?s = []" "in_hand s = []"
          using V_poll calculation by (simp_all add: in_hand_def)
        moreover have "to_take cores ?s = to_take cores s"
          using V_poll True by (simp add: to_take_def worker_sent) (simp add: polls)
        ultimately show ?thesis by (simp add: evd_left_def left st ports)
      next
        case False
        then have "evq s \<noteq> []" "evq ?s = tl (evq s)"
          using V_poll assms(5) by (simp_all add: worker_ok_def polls)
        then have "to_take cores ?s + 1 = to_take cores s"
          by (cases "evq s") (simp_all add: to_take_def worker_sent)
        moreover have "length (in_hand ?s) = 1" "holder ?s \<noteq> None"
          using V_poll False by (simp_all add: polls in_hand_def)
        ultimately show ?thesis by (simp add: evd_left_def left st ports)
      qed
    qed
  next
    case V_got
    then have "holder s = Some c" using workers_okD(1) [OF assms(3)] by blast
    then have "in_hand s = [worker_ev s c]" "in_hand ?s = []" "holder ?s = holder s"
      using V_got by (simp_all add: in_hand_def worker_step_def)
    moreover have "to_take cores ?s = to_take cores s"
      using V_got by (simp add: to_take_def worker_sent) (simp add: worker_step_def)
    moreover have "{k \<in> set cores. worker ?s k = V_start} = {k \<in> set cores. worker s k = V_start}"
      using V_got by (auto simp: worker_step_def split: if_splits)
    moreover have "worker ?s c \<noteq> V_undefined" using V_got by (simp add: worker_step_def)
    ultimately show ?thesis using undefined_ports [of s c cores a] V_got by (simp add: evd_left_def left)
  qed (use assms(6) in \<open>simp_all add: worker_step_def\<close>)
qed

text \<open>Unless the run is over, some step changes the state.\<close>

lemma evd_moves:
  assumes inv: "evd_inv cores s" and "\<not> evd_over cores s"
  shows "(\<exists>a. producer_ok cores s a \<and> producer_step cores m a s \<noteq> s) \<or>
     (\<exists>c \<in> set cores. \<exists>a. worker_ok c s a \<and> worker_step cores c a s \<noteq> s)"
proof -
  let ?go = "\<lparr>addr = 0, fails = False\<rparr>"
  have w: "workers_ok cores s" and q: "queue_ok cores s" and d: "phase_ok cores s" "dev_ok cores s"
    using inv by (simp_all add: evd_inv_def)
  have defined: "\<forall>c \<in> set cores. worker s c \<noteq> V_undefined" using assms(2) by (auto simp: evd_over_def)
  have moved: "f s \<noteq> s" if "worker (f s) c \<noteq> worker s c" for f and c using that by auto
  consider (producer) "producer s \<noteq> E_join" | (all) "producer s = E_join" "\<forall>c \<in> set cores. worker s c = V_exited"
    | (start) c where "c \<in> set cores" "worker s c = V_start"
    | (none) "producer s = E_join" "cores \<noteq> []" "\<forall>c \<in> set cores. worker s c = V_poll \<or> worker s c = V_got"
  proof (cases "producer s = E_join \<and> (\<exists>c \<in> set cores. worker s c \<noteq> V_exited) \<and> (\<forall>c \<in> set cores. worker s c \<noteq> V_start)")
    case True
    then have "\<forall>c \<in> set cores. worker s c \<noteq> V_exited" using assms(2) by (auto simp: evd_over_def stuck_def)
    then have "worker s c = V_poll \<or> worker s c = V_got" if "c \<in> set cores" for c
      using True defined that by (cases "worker s c") auto
    then show ?thesis using True that(4) by (cases "cores = []") auto
  next
    case False
    then show ?thesis using that(1-3) by blast
  qed
  then show ?thesis
  proof cases
    case producer
    then have "producer_ok cores s ?go" "producer (producer_step cores m ?go s) \<noteq> producer s \<or>
        send_i (producer_step cores m ?go s) \<noteq> send_i s"
      using assms(2) d by (cases "producer s"; simp add: producer_ok_def producer_step_def evd_over_def phase_ok_def)+
    then show ?thesis by metis
  next
    case all
    then have "producer_ok cores s ?go" "producer (producer_step cores m ?go s) \<noteq> producer s"
      by (simp_all add: producer_ok_def producer_step_def)
    then show ?thesis by metis
  next
    case (start c)
    then have "worker_ok c s ?go" "worker (worker_step cores c ?go s) c \<noteq> worker s c"
      by (simp_all add: worker_ok_def worker_step_def)
    then show ?thesis using start(1) by metis
  next
    case none
    show ?thesis
    proof (cases "\<exists>c \<in> set cores. worker s c = V_got")
      case True
      then obtain c where c: "c \<in> set cores" "worker s c = V_got" by blast
      then have "worker_ok c s ?go" "worker (worker_step cores c ?go s) c \<noteq> worker s c"
        by (simp_all add: worker_ok_def worker_step_def)
      then show ?thesis using c(1) by metis
    next
      case False
      then have poll: "\<forall>c \<in> set cores. worker s c = V_poll" using none by blast
      have "EXIT_EVENT \<notin> set (map snd (processed (lines s)))"
      proof
        assume "EXIT_EVENT \<in> set (map snd (processed (lines s)))"
        then obtain c where "worker s c = V_exited" using workers_okD(4) [OF w] by auto
        then show False using workers_okD(2,3) [OF w, of c] poll by fastforce
      qed
      moreover have "EXIT_EVENT \<in> set (all_events cores)" using none(2) by (simp add: all_events_def)
      moreover have "in_hand s = []" using poll workers_okD(3) [OF w]
        by (auto simp: in_hand_def split: option.split)
      moreover have "take (sent_so_far cores s) (all_events cores) = all_events cores"
        using none(1) by (simp add: sent_so_far_def all_events_def)
      moreover have "map snd (processed (lines s)) @ in_hand s @ evq s = take (sent_so_far cores s) (all_events cores)"
        using q by (simp add: queue_ok_def)
      ultimately have "evq s \<noteq> []" by (metis append_Nil2)
      moreover obtain c where c: "c \<in> set cores" "holder s = None \<or> holder s = Some c"
        using none(2) workers_okD(3) [OF w] by (cases "holder s"; cases cores) auto
      ultimately have "worker_ok c s ?go" "worker (worker_step cores c ?go s) c \<noteq> worker s c"
        using poll by (auto simp: worker_ok_def worker_step_def)
      then show ?thesis using c(1) by metis
    qed
  qed
qed

section \<open>The machine\<close>

lemma evd_step_cases:
  assumes "(ok, f) \<in> set (evd_threads cores m)" and "ok s a"
  shows "producer_ok cores s a \<and> f a s = producer_step cores m a s \<or>
     (\<exists>c \<in> set cores. worker_ok c s a \<and> f a s = worker_step cores c a s)"
  using assms by (auto simp: evd_threads_def)

interpretation evd: draining "evd_threads cores m" evd_start "evd_inv cores" "evd_left cores" "evd_over cores"
  for cores m
proof unfold_locales
  show "evd_inv cores evd_start"
    by (simp add: evd_inv_def phase_ok_def queue_ok_def workers_ok_def dev_ok_def in_hand_def sent_so_far_def evd_start_def)
next
  fix s ok f a
  assume *: "evd_inv cores s" "(ok, f) \<in> set (evd_threads cores m)" "ok s a"
  show "evd_inv cores (f a s)"
    using evd_step_cases [OF *(2,3)] *(1) evd_inv_producer evd_inv_worker by metis
  show "evd_left cores (f a s) < evd_left cores s" if "f a s \<noteq> s"
    using evd_step_cases [OF *(2,3)] *(1) that producer_left_drops worker_left_drops unfolding evd_inv_def by metis
next
  fix s
  assume "evd_inv cores s" "\<not> evd_over cores s"
  then show "\<exists>(ok, f) \<in> set (evd_threads cores m). \<exists>a. ok s a \<and> f a s \<noteq> s"
    using evd_moves [of cores s m] by (auto simp: evd_threads_def)
qed

section \<open>Properties\<close>

lemma prefix_of_take:
  assumes "xs @ ys = take n zs"
  shows "xs = take (length xs) zs"
proof -
  have "length xs + length ys \<le> n" using arg_cong [OF assms, of length] by simp
  then have "take (length xs) (take n zs) = take (length xs) zs" by (simp add: min_def)
  then show ?thesis using arg_cong [OF assms, of "take (length xs)"] by simp
qed

lemma port_id_less:
  assumes "length cores \<le> 8"
  shows "port_id cores c < 8"
proof (cases "worker_ports cores c")
  case None
  then show ?thesis by (simp add: port_id_def)
next
  case (Some p)
  then have "p < 8" using assms by (auto simp: worker_ports_def dest!: map_of_SomeD set_zip_rightD)
  then show ?thesis using Some by (simp add: port_id_def unat_of_nat)
qed

lemma all_defined:
  assumes "dev_ok cores s" and "phase_ok cores s" and "length cores \<le> 8"
  shows "producer s \<noteq> E_undefined \<and> worker s c \<noteq> V_undefined"
  using assms(1,2) port_id_less [OF assms(3), of c] by (auto simp: dev_ok_def phase_ok_def)

text \<open>
  C24. \<open>eventdev/main.c\<close> with at most eight worker cores, one for each port, in every interleaving: no core
  uses the device outside of its life cycle; the workers process the events in the order they were
  sent, each exactly once; the count of a core is the number of events it processed, exit events
  included; and as the flow is atomic, no two workers are ever at an event at the same time.
\<close>

theorem workers_process_in_order:
  assumes "runs (evd_threads cores m) evd_start n s" and "length cores \<le> 8"
  shows "producer s \<noteq> E_undefined \<and> worker s c \<noteq> V_undefined \<and>
     (\<exists>k. map snd (processed (lines s)) = take k (all_events cores)) \<and>
     core_stats s c = length (filter (\<lambda>e. fst e = c) (processed (lines s))) \<and>
     (worker s c = V_got \<and> worker s d = V_got \<longrightarrow> c = d)"
proof -
  have inv: "queue_ok cores s" "workers_ok cores s" "phase_ok cores s" "dev_ok cores s"
    using evd.reachable_inv [OF assms(1)] by (simp_all add: evd_inv_def)
  then have "map snd (processed (lines s)) @ (in_hand s @ evq s) = take (sent_so_far cores s) (all_events cores)"
    by (simp add: queue_ok_def)
  then have order: "\<exists>k. map snd (processed (lines s)) = take k (all_events cores)" by (blast intro: prefix_of_take)
  have "c = d" if "worker s c = V_got" "worker s d = V_got"
    using workers_okD(1) [OF inv(2) that(1)] workers_okD(1) [OF inv(2) that(2)] by simp
  then show ?thesis using order workers_okD(5) [OF inv(2)] all_defined [OF inv(4,3) assms(2)] by blast
qed

text \<open>A run of two workers up to the first event.\<close>

definition first_event :: "(nat \<times> answer) list" where
  "first_event = map (\<lambda>k. (k, \<lparr>addr = 0, fails = False\<rparr>)) [0, 0, 1, 2, 2, 2]"

lemma first_event:
  "steps_ok (evd_threads [4, 7] 128) first_event evd_start"
  "processed (lines (steps (evd_threads [4, 7] 128) first_event evd_start)) = [(7, 0)]"
  using port_id_less [of "[4, 7]" 7]
  by (simp_all add: first_event_def evd_threads_def evd_start_def producer_step_def producer_ok_def
      worker_step_def worker_ok_def NUM_EVENTS_def EXIT_EVENT_def numeral_2_eq_2)

theorem workers_process_in_order_witness:
  "\<exists>n s. runs (evd_threads [4, 7] 128) evd_start n s \<and> core_stats s 7 = 1"
proof -
  obtain n where run: "runs (evd_threads [4, 7] 128) evd_start n (steps (evd_threads [4, 7] 128) first_event evd_start)"
    using runs_steps [OF first_event(1)] by blast
  have "core_stats (steps (evd_threads [4, 7] 128) first_event evd_start) 7 = 1"
    using workers_process_in_order [OF run, of 7] unfolding first_event(2) by simp
  then show ?thesis using run by blast
qed

text \<open>
  C3. With one core for each port (at most eight workers) the program ends only with at most one
  worker core: the worker that takes an exit event leaves without asking for another event, so its
  port never lets go of the atomic flow, no other worker is given its exit event, and the main core
  waits for ever.  With one worker (or none) the end can always be reached, and there the device is
  stopped and closed; no run has more than \<open>106 + 5 w\<close> steps that change the state.
\<close>

theorem workers_end_iff_single:
  assumes "runs (evd_threads cores m) evd_start n s" and "distinct cores" and "length cores \<le> 8"
  shows "((\<exists>k t. runs (evd_threads cores m) s k t \<and> producer t = E_done \<and> dev t = no_device) \<longleftrightarrow> length cores \<le> 1) \<and>
     (2 \<le> length cores \<longrightarrow> (\<exists>k t. runs (evd_threads cores m) s k t \<and> stuck cores t)) \<and>
     n \<le> 106 + 5 * length cores"
proof -
  note inv = evd.reachable_inv [OF assms(1)]
  obtain k t where t: "runs (evd_threads cores m) s k t" "evd_over cores t"
    using evd.reachable_can_finish [OF assms(1)] by blast
  have t_inv: "phase_ok cores t" "dev_ok cores t"
    using evd.runs_inv [OF t(1) inv] by (simp_all add: evd_inv_def)
  have over: "producer t = E_done \<and> dev t = no_device \<or> stuck cores t"
    using t(2) all_defined [OF t_inv(2,1) assms(3)] t_inv(2) by (auto simp: evd_over_def dev_ok_def)
  have single: "length cores \<le> 1" if "runs (evd_threads cores m) s j u" "producer u = E_done" for j u
  proof -
    have u: "phase_ok cores u" "workers_ok cores u"
      using evd.runs_inv [OF that(1) inv] by (simp_all add: evd_inv_def)
    have "holder u = Some c" if "c \<in> set cores" for c
      using u(1) \<open>producer u = E_done\<close> that workers_okD(2) [OF u(2)] by (simp add: phase_ok_def)
    then have "set cores \<subseteq> set_option (holder u)" by auto
    then have "card (set cores) \<le> card (set_option (holder u))" by (intro card_mono) simp_all
    also have "\<dots> \<le> 1" by (cases "holder u") simp_all
    finally show ?thesis using distinct_card [OF assms(2)] by simp
  qed
  have many: "2 \<le> length cores" if stk: "stuck cores u" for u
  proof -
    obtain c d where "c \<in> set cores" "d \<in> set cores" "c \<noteq> d" using stk by (auto simp: stuck_def)
    then have "card {c, d} \<le> card (set cores)" by (intro card_mono) auto
    then show ?thesis using \<open>c \<noteq> d\<close> card_length [of cores] by simp
  qed
  have "{c \<in> set cores. worker evd_start c \<noteq> V_undefined \<and> 8 \<le> port_id cores c} = {}"
    using port_id_less [OF assms(3)] by (auto simp: not_le)
  then have none: "card {c \<in> set cores. worker evd_start c \<noteq> V_undefined \<and> 8 \<le> port_id cores c} = 0"
    by (simp only: card.empty)
  have "evd_left cores evd_start \<le> 106 + 5 * length cores"
    using card_length [of cores] unfolding evd_left_def none
    by (simp add: producer_left_def to_take_def sent_so_far_def in_hand_def evd_start_def NUM_EVENTS_def)
  then have "n \<le> 106 + 5 * length cores" using evd.reachable_steps_bounded [OF assms(1)] by linarith
  moreover have "producer t = E_done \<and> dev t = no_device" if "length cores \<le> 1" using over many [of t] that by auto
  moreover have "stuck cores t" if "2 \<le> length cores" using over t single [OF t(1)] that by auto
  ultimately show ?thesis using t(1) single by blast
qed

theorem workers_end_iff_single_witness:
  "(\<exists>k t. runs (evd_threads [4] 128) evd_start k t \<and> producer t = E_done) \<and>
   (\<exists>k t. runs (evd_threads [4, 7] 128) evd_start k t \<and> stuck [4, 7] t)"
  using workers_end_iff_single [of "[4]" 128, OF runs_start] workers_end_iff_single [of "[4, 7]" 128, OF runs_start]
  by auto

text \<open>
  C33. Eight ports are enough for eight workers and no more: some core can call the device on a port
  that was never set up exactly when there are more than eight worker cores.
\<close>

theorem ninth_worker_undefined:
  assumes "distinct cores" and "length cores \<le> 128"
  shows "(\<exists>n s c. runs (evd_threads cores m) evd_start n s \<and> worker s c = V_undefined) \<longleftrightarrow> 8 < length cores"
proof
  assume "\<exists>n s c. runs (evd_threads cores m) evd_start n s \<and> worker s c = V_undefined"
  then obtain n s c where s: "runs (evd_threads cores m) evd_start n s" "worker s c = V_undefined" by blast
  then have "dev_ok cores s" using evd.reachable_inv by (simp add: evd_inv_def)
  then show "8 < length cores" using s(2) port_id_less [of cores c] by (force simp: dev_ok_def)
next
  assume long: "8 < length cores"
  let ?c = "cores ! 8" and ?a = "\<lparr>addr = 0, fails = True\<rparr>"
  let ?s = "worker_step cores ?c ?a evd_start"
  have c: "(worker_ok ?c, worker_step cores ?c) \<in> set (evd_threads cores m)"
    using long by (simp add: evd_threads_def)
  have "worker_ports cores ?c = Some 8"
    using assms(1) long nth_mem [of 8 "zip cores [0..<length cores]"] by (auto simp: worker_ports_def intro!: map_of_is_SomeI)
  then have port: "port_id cores ?c = 8" by (simp add: port_id_def)
  have "worker_ok ?c evd_start ?a" "worker_ok ?c ?s ?a"
    by (simp_all add: worker_ok_def evd_start_def worker_step_def)
  then obtain n where "runs (evd_threads cores m) evd_start n (worker_step cores ?c ?a ?s)"
    using runs_extend [OF _ c] runs_start by metis
  moreover have "worker (worker_step cores ?c ?a ?s) ?c = V_undefined"
    by (simp add: worker_step_def evd_start_def port)
  ultimately show "\<exists>n s c. runs (evd_threads cores m) evd_start n s \<and> worker s c = V_undefined" by blast
qed

theorem ninth_worker_undefined_witness:
  "\<exists>n s c. runs (evd_threads [1..<10] 128) evd_start n s \<and> worker s c = V_undefined"
  using ninth_worker_undefined [of "[1..<10]" 128] by simp

end
