(* ===== verification/Event_Ipc.thy ===== *)
theory Event_Ipc
  imports Shared_Memory Event_Life
begin

text \<open>
  The small programs over an event device: \<open>beginner_eventdev/\<close> (one event from port 0 to port 1),
  \<open>ipc_eventdev/\<close> (requests and replies as mbufs, in two processes) and \<open>ipc_eventdev2/\<close> (one
  number, in two processes).

  The calls that set a device up are checked against the life cycle its documentation prescribes,
  a monitor of the trace.  The two pairs of processes are threads of a machine.
\<close>

section \<open>beginner\_eventdev\<close>

text \<open>The two loops; the first ends when the event is accepted, the second when one is delivered.\<close>

definition send_round :: "env \<Rightarrow> unit \<Rightarrow> (unit + unit) io" where
  "send_round E u = do {
     r \<leftarrow> rte_event_enqueue E 0 0 0 12345;
     if r \<noteq> 1 then do { rte_pause; ret (Inr ()) } else ret (Inl ()) }"

definition receive_event_round :: "env \<Rightarrow> unit \<Rightarrow> (unit + unit) io" where
  "receive_event_round E u = do {
     out \<leftarrow> rte_event_dequeue E 0 1 1;
     case out of [] \<Rightarrow> ret (Inr ())
     | v # vs \<Rightarrow> do { say ''Received event! data=%lu'' [PU v]; ret (Inl ()) } }"

definition exit_some :: "string \<Rightarrow> int option io" where
  "exit_some msg = do { x \<leftarrow> rte_exit msg []; ret (Some x) }"

definition beginner_main :: "env \<Rightarrow> nat \<Rightarrow> int option io" where
  "beginner_main E n = do {
     r \<leftarrow> rte_eal_init E;
     if r < 0 then exit_some ''EAL init failed'' else do {
     say ''EAL initialized'' [];
     r \<leftarrow> ask_status E (Evd (Evd_configure 0 1 2));
     if r < 0 then exit_some ''Configure failed'' else do {
     say ''Event device configured'' [];
     r \<leftarrow> ask_status E (Evd (Evd_queue_setup 0 0));
     if r < 0 then exit_some ''Queue setup failed'' else do {
     say ''Queue created'' [];
     act (Evd (Evd_default_conf 0 0));
     r \<leftarrow> ask_status E (Evd (Evd_port_setup 0 0));
     if r < 0 then exit_some ''Producer port failed'' else do {
     act (Evd (Evd_default_conf 0 1));
     r \<leftarrow> ask_status E (Evd (Evd_port_setup 0 1));
     if r < 0 then exit_some ''Consumer port failed'' else do {
     say ''Ports created'' [];
     r \<leftarrow> ask_status E (Evd (Evd_port_link 0 1 [0]));
     r \<leftarrow> ask_status E (Evd (Evd_start 0));
     if r < 0 then exit_some ''Start failed'' else do {
     say ''Event device started'' [];
     say ''Enqueue event...'' [];
     sent \<leftarrow> rounds n (send_round E) ();
     case sent of Inr u \<Rightarrow> ret None | Inl u \<Rightarrow> do {
     say ''Waiting for event...'' [];
     got \<leftarrow> rounds n (receive_event_round E) ();
     case got of Inr u \<Rightarrow> ret None | Inl u \<Rightarrow> do {
     act (Evd (Evd_stop 0));
     act (Evd (Evd_close 0));
     say ''Done.'' [];
     ret (Some 0) } } } } } } } } }"

section \<open>The set-up in the other two programs\<close>

definition panic_some :: "string \<Rightarrow> int option io" where
  "panic_some msg = do { x \<leftarrow> rte_panic msg []; ret (Some x) }"

definition setup_eventdev :: "env \<Rightarrow> int io" where
  "setup_eventdev E = do {
     r \<leftarrow> ask_status E (Evd (Evd_configure 0 1 1));
     if r < 0 then ret (-1) else do {
     r \<leftarrow> ask_status E (Evd (Evd_queue_setup 0 0));
     if r < 0 then ret (-1) else do {
     r \<leftarrow> ask_status E (Evd (Evd_port_setup 0 0));
     if r < 0 then ret (-1) else do {
     r \<leftarrow> ask_status E (Evd (Evd_port_link 0 0 []));
     if r < 0 then ret (-1) else do {
     r \<leftarrow> ask_status E (Evd (Evd_start 0));
     if r < 0 then ret (-1) else ret 0 } } } } }"

text \<open>
  A link with NULL for the queues is the list \<open>[]\<close> here.  Up to the enqueue; \<open>Some r\<close> when the process has ended (\<open>rte_panic\<close> aborts).\<close>

definition ipc2_primary_init :: "env \<Rightarrow> int option io" where
  "ipc2_primary_init E = do {
     r \<leftarrow> rte_eal_init E;
     if r < 0 then panic_some ''EAL init failed'' else do {
     r \<leftarrow> setup_eventdev E;
     if r < 0 then panic_some ''Eventdev setup failed'' else do {
     say ''Primary: sending event...'' [];
     ret None } } }"

definition ipc2_secondary_init :: "env \<Rightarrow> int option io" where
  "ipc2_secondary_init E = do {
     r \<leftarrow> rte_eal_init E;
     if r < 0 then panic_some ''EAL init failed'' else do {
     say ''Secondary: waiting for event...'' [];
     ret None } }"

text \<open>
  Both processes poll the device with a pause of a millisecond, here at most \<open>n\<close> times; \<open>None\<close> says the
  process still waits.  Payloads have 64 bits.  Neither process stops or closes the device.
\<close>

definition poll_event_round :: "env \<Rightarrow> unit \<Rightarrow> (mbuf + unit) io" where
  "poll_event_round E u = do {
     out \<leftarrow> rte_event_dequeue E 0 0 1;
     case out of [] \<Rightarrow> do { sleep_us 1000; ret (Inr ()) } | v # vs \<Rightarrow> ret (Inl v) }"

definition ipc2_primary_main :: "env \<Rightarrow> nat \<Rightarrow> int option io" where
  "ipc2_primary_main E n = do {
     stop \<leftarrow> ipc2_primary_init E;
     case stop of Some x \<Rightarrow> ret (Some x) | None \<Rightarrow> do {
     r \<leftarrow> rte_event_enqueue E 0 0 0 100;
     say ''Primary: waiting for reply...'' [];
     got \<leftarrow> rounds n (poll_event_round E) ();
     case got of Inr u \<Rightarrow> ret None | Inl v \<Rightarrow> do {
     say ''Primary: reply received = %lu'' [PU v];
     ret (Some 0) } } }"

definition ipc2_secondary_main :: "env \<Rightarrow> nat \<Rightarrow> int option io" where
  "ipc2_secondary_main E n = do {
     stop \<leftarrow> ipc2_secondary_init E;
     case stop of Some x \<Rightarrow> ret (Some x) | None \<Rightarrow> do {
     got \<leftarrow> rounds n (poll_event_round E) ();
     case got of Inr u \<Rightarrow> ret None | Inl v \<Rightarrow> do {
     say ''Secondary: received value = %lu'' [PU v];
     r \<leftarrow> ask_status E (Evd (Evd_forward 0 0 0 ((v + 1) mod 2 ^ 64)));
     say ''Secondary: reply sent'' [];
     ret (Some 0) } } }"

definition ipc_evd_init :: "env \<Rightarrow> (int + ptr) io" where
  "ipc_evd_init E = do {
     r \<leftarrow> rte_eal_init E;
     if r < 0 then do { x \<leftarrow> rte_exit ''EAL init failed'' []; ret (Inl x) } else do {
     say ''Primary started'' [];
     mp \<leftarrow> rte_pktmbuf_pool_create E ''MBUF_POOL'' 1024 32;
     if mp = NULL then do { x \<leftarrow> rte_exit ''Cannot create mempool'' []; ret (Inl x) } else do {
     r \<leftarrow> ask_status E (Evd (Evd_configure 0 2 2));
     r \<leftarrow> ask_status E (Evd (Evd_queue_setup 0 0));
     r \<leftarrow> ask_status E (Evd (Evd_queue_setup 0 1));
     r \<leftarrow> ask_status E (Evd (Evd_port_setup 0 0));
     r \<leftarrow> ask_status E (Evd (Evd_port_setup 0 1));
     r \<leftarrow> ask_status E (Evd (Evd_port_link 0 0 [0, 1]));
     r \<leftarrow> ask_status E (Evd (Evd_port_link 0 1 [0, 1]));
     r \<leftarrow> ask_status E (Evd (Evd_start 0));
     say ''Primary sending requests...'' [];
     ret (Inr mp) } } }"

text \<open>The secondary process waits for a device, at most \<open>n\<close> seconds here, and then looks the pool up.\<close>

definition count_round :: "env \<Rightarrow> unit \<Rightarrow> (unit + unit) io" where
  "count_round E u = do {
     k \<leftarrow> ask_count E (Evd Evd_dev_count);
     if k = 0 then do { sleep_us 1000000; ret (Inr ()) } else ret (Inl ()) }"

definition ipc_evd_sec_init :: "env \<Rightarrow> nat \<Rightarrow> (int + ptr option) io" where
  "ipc_evd_sec_init E n = do {
     r \<leftarrow> rte_eal_init E;
     if r < 0 then do { x \<leftarrow> rte_exit ''EAL init failed'' []; ret (Inl x) } else do {
     say ''Secondary started'' [];
     found \<leftarrow> rounds n (count_round E) ();
     case found of Inr u \<Rightarrow> ret (Inr None) | Inl u \<Rightarrow> do {
     mp \<leftarrow> ask_pointer E (Mem (Pool_lookup ''MBUF_POOL''));
     if mp = NULL then do { x \<leftarrow> rte_exit ''Cannot find mempool'' []; ret (Inl x) } else do {
     say ''MEMPOOL Created'' [];
     ret (Inr (Some mp)) } } } }"

section \<open>Which programs keep to the life cycle\<close>

lemma appends_event_rounds [simp, appends_intros]:
  "appends (send_round E u)" "appends (receive_event_round E u)" "appends (exit_some msg)"
  unfolding send_round_def receive_event_round_def exit_some_def by (intro appends_intros)+

lemma run_exit_some [simp]:
  "result (exit_some msg) h = Some 1" "final (exit_some msg) h = h @ [Printf msg [], Did (Eal (Exit 1))]"
  by (simp_all add: exit_some_def)

lemma follows_exit_some [follows_intros]:
  "Q (Some 1) s \<Longrightarrow> follows life_monitor s (exit_some msg) Q"
  by (simp add: follows_def emitted_def)

lemma send_round_life:
  "running s \<Longrightarrow> 0 \<in> set (ports_up s) \<Longrightarrow> 0 \<in> set (queues_up s) \<Longrightarrow>
   follows life_monitor s (send_round E u) (\<lambda>r s'. s' = s)"
  unfolding send_round_def by (intro follows_intros appends_intros) simp_all

lemma receive_round_life:
  "running s \<Longrightarrow> 1 \<in> set (ports_up s) \<Longrightarrow> follows life_monitor s (receive_event_round E u) (\<lambda>r s'. s' = s)"
  unfolding receive_event_round_def
  by (intro follows_burst appends_intros) (auto split: list.split intro!: follows_intros)

lemma two_ports [simp]: "[0..<2] = [0, Suc 0]"
  by (simp add: upt_rec)

lemma beginner_life:
  "follows life_monitor no_device (beginner_main E n) (\<lambda>r s. r = Some 0 \<longrightarrow> s = no_device)"
  unfolding beginner_main_def
  by (intro follows_status follows_if follows_exit_some follows_say follows_last follows_act follows_ret follows_case_sum
      follows_event_loop send_round_life receive_round_life appends_intros appends_event_rounds)
    (simp_all add: device_ready_def)

lemma poll_event_life:
  "running s \<Longrightarrow> 0 \<in> set (ports_up s) \<Longrightarrow> follows life_monitor s (poll_event_round E u) (\<lambda>r s'. s' = s)"
  unfolding poll_event_round_def
  by (intro follows_burst appends_intros) (auto split: list.split intro!: follows_intros)

lemma appends_poll_event [simp, appends_intros]: "appends (poll_event_round E u)"
  unfolding poll_event_round_def by (intro appends_intros)

text \<open>A device with one queue and one port, running.\<close>

definition one_port :: evd_life where
  "one_port = \<lparr>wanted = Some (1, 1), queues_up = [0], ports_up = [0], running = True\<rparr>"

lemma one_port_sel [simp]: "queues_up one_port = [0]" "ports_up one_port = [0]" "running one_port"
  by (simp_all add: one_port_def)

lemma setup_eventdev_life:
  "follows life_monitor no_device (setup_eventdev E) (\<lambda>r s. 0 \<le> r \<longrightarrow> s = one_port)"
  unfolding setup_eventdev_def
  by (intro follows_intros appends_intros) (simp_all add: device_ready_def one_port_def no_device_def)

lemma appends_setup_eventdev [simp, appends_intros]: "appends (setup_eventdev E)"
  using setup_eventdev_life by (rule follows_appends)

lemma follows_panic_some [follows_intros]:
  "Q (Some (-1)) s \<Longrightarrow> follows life_monitor s (panic_some msg) Q"
  by (simp add: follows_def emitted_def panic_some_def appends_bind)

lemma appends_panic_some [simp, appends_intros]: "appends (panic_some msg)"
  by (simp add: panic_some_def appends_bind)

lemma ipc2_primary_init_life:
  "follows life_monitor no_device (ipc2_primary_init E) (\<lambda>r s. case r of None \<Rightarrow> s = one_port | Some x \<Rightarrow> x = -1)"
proof -
  have *: "follows life_monitor s (if r < 0 then panic_some ''Eventdev setup failed''
      else do { say ''Primary: sending event...'' []; ret None })
      (\<lambda>r s. case r of None \<Rightarrow> s = one_port | Some x \<Rightarrow> x = -1)" if "0 \<le> r \<longrightarrow> s = one_port" for r :: int and s
    using that by (intro follows_intros appends_intros) simp_all
  have "follows life_monitor no_device (setup_eventdev E \<bind> (\<lambda>r. if r < 0 then panic_some ''Eventdev setup failed''
      else do { say ''Primary: sending event...'' []; ret None }))
      (\<lambda>r s. case r of None \<Rightarrow> s = one_port | Some x \<Rightarrow> x = -1)"
    by (rule follows_bind_rule [OF setup_eventdev_life *]) (simp_all add: appends_bind)
  then show ?thesis
    unfolding ipc2_primary_init_def
    by (intro follows_status follows_if follows_panic_some) (simp_all add: appends_bind)
qed

lemma ipc2_primary_life:
  "follows life_monitor no_device (ipc2_primary_main E n) (\<lambda>r s. r \<noteq> Some (-1) \<longrightarrow> s = one_port)"
  unfolding ipc2_primary_main_def
proof (rule follows_bind_rule [OF ipc2_primary_init_life])
  fix r :: "int option" and s
  assume r: "case r of None \<Rightarrow> s = one_port | Some x \<Rightarrow> x = -1"
  show "follows life_monitor s (case r of Some x \<Rightarrow> ret (Some x) | None \<Rightarrow> do {
     r \<leftarrow> rte_event_enqueue E 0 0 0 100;
     say ''Primary: waiting for reply...'' [];
     got \<leftarrow> rounds n (poll_event_round E) ();
     case got of Inr u \<Rightarrow> ret None | Inl v \<Rightarrow> do {
     say ''Primary: reply received = %lu'' [PU v];
     ret (Some 0) } }) (\<lambda>r s. r \<noteq> Some (-1) \<longrightarrow> s = one_port)"
    using r by (cases r) (auto intro!: follows_status follows_say follows_event_loop poll_event_life follows_case_sum
        follows_ret appends_intros)
qed (intro appends_intros)

text \<open>The secondary process, on a device that runs already.\<close>

lemma ipc2_secondary_life:
  assumes "running s" and "0 \<in> set (ports_up s)" and "0 \<in> set (queues_up s)"
  shows "follows life_monitor s (ipc2_secondary_main E n) (\<lambda>r s'. s' = s)"
proof -
  have "follows life_monitor s (ipc2_secondary_init E) (\<lambda>r s'. s' = s)"
    unfolding ipc2_secondary_init_def by (intro follows_intros appends_intros) simp_all
  then show ?thesis
    unfolding ipc2_secondary_main_def
    by (rule follows_bind_rule)
      (use assms in \<open>auto split: option.split intro!: follows_status follows_say follows_event_loop poll_event_life
        follows_case_sum follows_ret appends_intros\<close>)
qed

text \<open>
  On its own it never sets a device up: the first thing it does is to poll one.
\<close>

lemma unsafe_bind:
  assumes "\<not> mon_safe M s (emitted m h)" and "appends m" and "\<And>x. appends (f x)"
  shows "\<not> mon_safe M s (emitted (m \<bind> f) h)"
  using assms by (simp add: emitted_bind)

lemma poll_unready:
  assumes "\<not> running s"
  shows "\<not> mon_safe life_monitor s (emitted (rounds (Suc n) (poll_event_round E) u) h)"
proof -
  have "\<not> mon_safe life_monitor s (emitted (ask_burst E (Evd (Evd_dequeue 0 0 1))) h)"
    using assms by (simp add: emitted_def)
  then have "\<not> mon_safe life_monitor s (emitted (poll_event_round E u) h)"
    unfolding poll_event_round_def by (rule unsafe_bind) (intro appends_intros)+
  then show ?thesis unfolding rounds.simps by (rule unsafe_bind) (intro appends_intros)+
qed

lemma ipc2_secondary_unready:
  assumes "\<not> status E (length h) (Eal Eal_init) < 0"
  shows "\<not> mon_safe life_monitor no_device (emitted (ipc2_secondary_main E (Suc n)) h)"
proof -
  let ?i = "[Status (Eal Eal_init) (status E (length h) (Eal Eal_init)), Printf ''Secondary: waiting for event...'' []]"
  have start: "appends (ipc2_secondary_init E)" "result (ipc2_secondary_init E) h = None"
    "emitted (ipc2_secondary_init E) h = ?i"
    using assms by (simp_all add: ipc2_secondary_init_def emitted_def) (intro appends_intros)
  have poll: "\<not> mon_safe life_monitor no_device (emitted (rounds (Suc n) (poll_event_round E) () \<bind> k) (h @ ?i))"
    if "\<And>r. appends (k r)" for k :: "mbuf + unit \<Rightarrow> int option io"
    by (rule unsafe_bind) (use poll_unready that in \<open>auto intro!: appends_intros simp del: rounds.simps\<close>)
  show ?thesis
    unfolding ipc2_secondary_main_def
    by (subst emitted_bind)
      (simp_all add: start poll appends_case_sum appends_case_option appends_bind appends_rounds del: rounds.simps)
qed

text \<open>
  \<open>ipc_eventdev/prim.c\<close> ignores every result: it goes on to set up queues and ports of a device that
  is not configured, to link ports that are not set up, or to start a device that is not ready.
\<close>

definition setup_refused :: "event \<Rightarrow> bool" where
  "setup_refused e = (case e of
     Status (Evd c) r \<Rightarrow> r < 0 \<and> (case c of
       Evd_configure d q p \<Rightarrow> True | Evd_queue_setup d q \<Rightarrow> True | Evd_port_setup d p \<Rightarrow> True | _ \<Rightarrow> False)
   | _ \<Rightarrow> False)"

lemma ipc_evd_life:
  "mon_safe life_monitor no_device (emitted (ipc_evd_init E) h) \<longleftrightarrow>
     \<not> list_ex setup_refused (emitted (ipc_evd_init E) h)"
  by (simp add: ipc_evd_init_def emitted_def device_ready_def setup_refused_def)

text \<open>A device that takes the event at once and delivers it.\<close>

definition event_env :: env where
  "event_env = good_env\<lparr>
     status := \<lambda>t c. case c of Evd (Evd_enqueue d p q m) \<Rightarrow> 1 | _ \<Rightarrow> status good_env t c,
     burst := \<lambda>t c. case c of Evd (Evd_dequeue d p n) \<Rightarrow> [12345] | _ \<Rightarrow> []\<rparr>"

lemma beginner_delivers:
  "result (beginner_main event_env (Suc n)) [] = Some 0"
  "Printf ''Received event! data=%lu'' [PU 12345] \<in> set (final (beginner_main event_env (Suc n)) [])"
  by (simp_all add: beginner_main_def event_env_def send_round_def receive_event_round_def good_env_def)

end
