(* ===== verification/Event_Setup.thy ===== *)
theory Event_Setup
  imports Event_Ipc Eventdev_Workers Eventdev_Parsing
begin

text \<open>
  The life cycle of the event device (\<open>Event_Ipc\<close>) in all programs that set one up: besides
  \<open>beginner_eventdev\<close> and the two pairs of processes these are \<open>eventdev/\<close> and
  \<open>eventdev_packet_parsing/\<close>.
\<close>

section \<open>eventdev\<close>

lemma exit_is_exit_some: "rte_exit msg [] \<bind> (\<lambda>x. ret (Some x)) = exit_some msg"
  by (simp add: exit_some_def)

lemma setup_ports_life:
  assumes "wanted s = Some (1, 8)" and "\<not> running s"
  shows "follows life_monitor (s\<lparr>ports_up := []\<rparr>) (setup_ports E)
    (\<lambda>r s'. case r of None \<Rightarrow> \<exists>k. [] = [k..<8] \<and> k \<le> 8 \<and> s' = s\<lparr>ports_up := rev [0..<k]\<rparr> | Some v \<Rightarrow> True)"
  unfolding setup_ports_def exit_is_exit_some
proof (rule follows_for_return [where I = "\<lambda>xs s'. \<exists>k. xs = [k..<8] \<and> k \<le> 8 \<and> s' = s\<lparr>ports_up := rev [0..<k]\<rparr>"])
  show "\<exists>k. [0..<8] = [k..<8] \<and> k \<le> 8 \<and> s\<lparr>ports_up := []\<rparr> = s\<lparr>ports_up := rev [0..<k]\<rparr>"
    by (rule exI [of _ 0]) simp
next
  fix i :: nat and xs s'
  assume "\<exists>k. i # xs = [k..<8] \<and> k \<le> 8 \<and> s' = s\<lparr>ports_up := rev [0..<k]\<rparr>"
  then have i: "i < 8" "xs = [Suc i..<8]" "s' = s\<lparr>ports_up := rev [0..<i]\<rparr>"
    by (auto simp: upt_eq_Cons_conv dest!: sym [of "_ # _"])
  then have rest: "\<exists>k. xs = [k..<8] \<and> k \<le> 8 \<and> s\<lparr>ports_up := i # rev [0..<i]\<rparr> = s\<lparr>ports_up := rev [0..<k]\<rparr>"
    by (intro exI [of _ "Suc i"]) simp
  show "follows life_monitor s' (ask_status E (Evd (Evd_port_setup 0 i)) \<bind>
      (\<lambda>r. if r < 0 then exit_some ''Port setup failed'' else ret None))
    (\<lambda>r s'. case r of None \<Rightarrow> \<exists>k. xs = [k..<8] \<and> k \<le> 8 \<and> s' = s\<lparr>ports_up := rev [0..<k]\<rparr> | Some v \<Rightarrow> True)"
    using assms rest i(3) by (intro follows_intros appends_intros appends_event_rounds) simp_all
qed (intro appends_intros appends_event_rounds)

lemma link_ports_life:
  assumes "\<And>i. i < 8 \<Longrightarrow> i \<in> set (ports_up s)" and "0 \<in> set (queues_up s)"
  shows "follows life_monitor s (link_ports E) (\<lambda>r s'. case r of None \<Rightarrow> set ([] :: nat list) \<subseteq> {..<8} \<and> s' = s | Some v \<Rightarrow> True)"
  unfolding link_ports_def exit_is_exit_some
proof (rule follows_for_return [where I = "\<lambda>xs s'. set xs \<subseteq> {..<8} \<and> s' = s"])
  fix i :: nat and xs s'
  assume "set (i # xs) \<subseteq> {..<8} \<and> s' = s"
  then show "follows life_monitor s' (ask_status E (Evd (Evd_port_link 0 i [0])) \<bind>
      (\<lambda>r. if r \<noteq> 1 then exit_some ''Port link failed'' else ret None))
    (\<lambda>r s'. case r of None \<Rightarrow> set xs \<subseteq> {..<8} \<and> s' = s | Some v \<Rightarrow> True)"
    using assms by (intro follows_intros appends_intros appends_event_rounds) simp_all
qed (auto intro: appends_intros appends_event_rounds)

text \<open>The state of the device after each part of \<open>workers_init\<close>.\<close>

definition one_queue :: evd_life where
  "one_queue = \<lparr>wanted = Some (1, 8), queues_up = [0], ports_up = [], running = False\<rparr>"

lemma one_queue_sel [simp]:
  "wanted one_queue = Some (1, 8)" "queues_up one_queue = [0]" "ports_up one_queue = []" "\<not> running one_queue"
  by (simp_all add: one_queue_def)

lemma appends_port_loops [simp, appends_intros]: "appends (setup_ports E)" "appends (link_ports E)"
  unfolding setup_ports_def link_ports_def by (intro appends_intros)+

lemma workers_ports_life:
  assumes "follows life_monitor (one_queue\<lparr>ports_up := rev [0..<8]\<rparr>) k Q"
    and "\<And>x s. Q (Some x) s" and "appends k"
  shows "follows life_monitor one_queue (do { stop \<leftarrow> setup_ports E;
     case stop of Some x \<Rightarrow> ret (Some x) | None \<Rightarrow> do {
     stop \<leftarrow> link_ports E;
     case stop of Some x \<Rightarrow> ret (Some x) | None \<Rightarrow> k } }) Q"
proof -
  let ?s = "one_queue\<lparr>ports_up := rev [0..<8]\<rparr>"
  have "follows life_monitor ?s (link_ports E) (\<lambda>r s'. case r of None \<Rightarrow> s' = ?s | Some x \<Rightarrow> True)"
    by (rule follows_weaken [OF link_ports_life]) (auto split: option.splits)
  then have link: "follows life_monitor ?s (link_ports E \<bind> (\<lambda>stop. case stop of Some x \<Rightarrow> ret (Some x) | None \<Rightarrow> k)) Q"
    by (rule follows_unless) (use assms in simp_all)
  have none: "one_queue\<lparr>ports_up := []\<rparr> = one_queue" by (simp add: one_queue_def)
  have "follows life_monitor one_queue (setup_ports E) (\<lambda>r s'. case r of None \<Rightarrow>
      \<exists>k. [] = [k..<8] \<and> k \<le> 8 \<and> s' = one_queue\<lparr>ports_up := rev [0..<k]\<rparr> | Some v \<Rightarrow> True)"
    using setup_ports_life [of one_queue E] by (simp only: none one_queue_sel)  simp
  then have "follows life_monitor one_queue (setup_ports E) (\<lambda>r s'. case r of None \<Rightarrow> s' = ?s | Some x \<Rightarrow> True)"
    by (rule follows_weaken) (auto simp: upt_eq_Nil_conv split: option.splits dest: sym)
  then show ?thesis
    by (rule follows_unless) (use link assms in \<open>auto intro!: appends_intros\<close>)
qed

lemma workers_start_life:
  assumes "s = one_queue\<lparr>ports_up := rev [0..<8]\<rparr>"
  shows "follows life_monitor s (do {
     r \<leftarrow> ask_status E (Evd (Evd_start 0));
     if r < 0 then exit_some ''Device start failed'' else do {
     say ''Event device started'' [];
     for_each (\<lambda>c. rte_eal_remote_launch ''worker'' c) cores;
     say ''Total workers: %u'' [PU (length cores)];
     ret None } }) (\<lambda>r s. r = None \<longrightarrow> s = workers_dev)"
  unfolding assms
  by (intro follows_status follows_if follows_exit_some follows_say follows_eal_loop [OF refl] follows_ret
      appends_intros appends_event_rounds) (auto simp: device_ready_def list_all_iff workers_dev_def one_queue_def)

lemma workers_life:
  "follows life_monitor no_device (workers_init E cores) (\<lambda>r s. r = None \<longrightarrow> s = workers_dev)"
proof -
  have eq: "no_device\<lparr>wanted := Some (Suc 0, 8), queues_up := [0]\<rparr> = one_queue"
    by (simp add: no_device_def one_queue_def)
  show ?thesis
    unfolding workers_init_def exit_is_exit_some
    by (intro follows_status follows_if follows_exit_some follows_say follows_act appends_intros appends_event_rounds;
        simp add: eq; intro workers_ports_life workers_start_life refl appends_intros appends_event_rounds; simp)
qed

section \<open>eventdev\_packet\_parsing\<close>

lemma evp_port_init_life: "follows life_monitor s (evp_port_init E) (\<lambda>r s'. s' = s)"
  unfolding evp_port_init_def by (intro follows_intros appends_intros) simp_all

lemma appends_evp_port_init [simp, appends_intros]: "appends (evp_port_init E)"
  using evp_port_init_life by (rule follows_appends)

text \<open>The device as the set-up leaves it: two queues, three ports, running.\<close>

definition evp_dev :: evd_life where
  "evp_dev = \<lparr>wanted = Some (2, 3), queues_up = [1, 0], ports_up = [2, 1, 0], running = True\<rparr>"

lemma evp_dev_sel [simp]: "queues_up evp_dev = [1, 0]" "ports_up evp_dev = [2, 1, 0]" "running evp_dev"
  by (simp_all add: evp_dev_def)

lemma follows_leave [follows_intros]:
  "allows M s (Printf msg []) \<Longrightarrow> Q (Some 1) (moves M s (Printf msg [])) \<Longrightarrow> follows M s (leave msg) Q"
  by (simp add: follows_def emitted_def leave_def appends_bind)

lemma appends_leave [simp, appends_intros]: "appends (leave msg)"
  by (simp add: leave_def appends_bind)

lemma evp_setup_life:
  "follows life_monitor no_device (evp_setup E) (\<lambda>r s. case r of None \<Rightarrow> s = evp_dev | Some x \<Rightarrow> x \<noteq> 0)"
  unfolding evp_setup_def exit_is_exit_some
  by (intro follows_status follows_if follows_exit_some follows_leave follows_say follows_act follows_note follows_last
      follows_ret follows_bind_rule [OF evp_port_init_life] appends_intros appends_event_rounds appends_leave)
    (auto simp: device_ready_def list_all_iff evp_dev_def no_device_def)

lemma evp_finish_life: "running s \<Longrightarrow> follows life_monitor s evp_finish (\<lambda>r s'. r = Some 0 \<and> s' = no_device)"
  unfolding evp_finish_def by (intro follows_act follows_say follows_ret appends_intros) simp_all

text \<open>
  Every event of a round of a handler is allowed while the device runs and leaves its state alone, so
  the order in which the handlers get to run does not matter.
\<close>

lemma life_prints: "list_all is_print es \<Longrightarrow> mon_safe life_monitor s es \<and> mon_after life_monitor s es = s"
  by (rule mon_prints) simp_all

lemma life_reading:
  "mon_safe life_monitor s (reading m (map_option fst (parsing_logic C d tf)))"
  "mon_after life_monitor s (reading m (map_option fst (parsing_logic C d tf))) = s"
  using life_prints [OF parsing_logic_prints, of C d tf]
  by (cases "parsing_logic C d tf"; simp add: reading_def)+

lemma receive_handler_life:
  assumes "running s" and "0 \<in> set (ports_up s)" and "0 \<in> set (queues_up s)"
  shows "follows life_monitor s (receive_handler_round E k) (\<lambda>r s'. s' = s)"
proof -
  have body: "follows life_monitor s (do {
         r \<leftarrow> rte_event_enqueue E 0 0 0 m;
         (if r \<le> 0 then rte_pause else ret ());
         say ''Event enqueued'' [] }) (\<lambda>_ s'. s' = s)" for m
    using assms by (auto simp: follows_def emitted_def appends_bind)
  show ?thesis
    unfolding receive_handler_round_def
    by (intro follows_burst follows_if follows_ret follows_for_each_bind [where I = "\<lambda>_ s'. s' = s"] appends_intros)
      (use body in \<open>auto intro: appends_intros\<close>)
qed

lemma transmit_handler_life:
  assumes "running s" and "1 \<in> set (ports_up s)"
  shows "follows life_monitor s (transmit_handler_round E C D u) (\<lambda>r s'. s' = s)"
  unfolding transmit_handler_round_def
  by (intro follows_burst appends_intros)
    (use assms in \<open>auto simp: life_reading split: list.split
      intro!: follows_say follows_emit follows_status follows_note follows_act follows_ret appends_intros\<close>)

lemma drop_handler_life:
  assumes "running s" and "1 \<in> set (ports_up s)" and "2 \<in> set (ports_up s)"
  shows "follows life_monitor s (drop_handler_round E k) (\<lambda>r s'. s' = s)"
  unfolding drop_handler_round_def
  by (intro follows_burst appends_intros)
    (use assms in \<open>auto split: list.split
      intro!: follows_say follows_status follows_note follows_act follows_ret appends_intros\<close>)

lemma appends_handler_rounds [simp, appends_intros]: "appends (receive_handler_round E k)"
  unfolding receive_handler_round_def by (intro appends_intros)

lemma appends_evp_serve [simp, appends_intros]: "appends (evp_serve E C D cs k d)"
  by (induction cs arbitrary: k d) (auto intro!: appends_intros)

lemma evp_serve_life: "follows life_monitor evp_dev (evp_serve E C D cs k d) (\<lambda>_ s. s = evp_dev)"
proof (induction cs arbitrary: k d)
  case Nil
  show ?case by (simp add: follows_ret)
next
  case (Cons c cs)
  have "follows life_monitor evp_dev (receive_handler_round E k) (\<lambda>r s. s = evp_dev)"
    "follows life_monitor evp_dev (transmit_handler_round E C D ()) (\<lambda>r s. s = evp_dev)"
    "follows life_monitor evp_dev (drop_handler_round E d) (\<lambda>r s. s = evp_dev)"
    by (rule receive_handler_life transmit_handler_life drop_handler_life; simp)+
  note rounds = this [THEN follows_bind_rule]
  show ?case unfolding evp_serve.simps
    by (intro follows_if rounds Cons.IH) (simp_all add: Cons.IH)
qed

lemma evp_main_life:
  "follows life_monitor no_device (evp_main E C D workers sched)
     (\<lambda>r s. case r of None \<Rightarrow> s = evp_dev | Some x \<Rightarrow> x = 0 \<longrightarrow> s = no_device)"
  unfolding evp_main_def
proof (rule follows_bind_rule [OF evp_setup_life])
  let ?Q = "\<lambda>r s. case r of None \<Rightarrow> s = evp_dev | Some x \<Rightarrow> x = 0 \<longrightarrow> s = no_device"
  let ?wait = "for_each (\<lambda>lcore. act (Eal (Wait_lcore lcore))) (takeWhile (\<lambda>c. \<not> runs_handler c) workers)"
  let ?rest = "if list_ex runs_handler workers
     then do { evp_serve E C D (filter (\<lambda>c. c \<in> set workers) sched) 0 0; ret None } else evp_finish"
  have rest: "follows life_monitor evp_dev ?rest ?Q"
    by (intro follows_if follows_bind_rule [OF evp_serve_life] follows_ret appends_intros
        follows_weaken [OF evp_finish_life]) (auto intro: follows_ret)
  have run: "follows life_monitor evp_dev (?wait \<bind> (\<lambda>_. ?rest)) ?Q"
    by (rule follows_eal_loop [OF refl rest]) (simp add: evp_finish_def appends_bind)
  fix r :: "int option" and s
  assume "case r of None \<Rightarrow> s = evp_dev | Some x \<Rightarrow> x \<noteq> 0"
  then show "follows life_monitor s (case r of Some x \<Rightarrow> ret (Some x) | None \<Rightarrow> ?wait \<bind> (\<lambda>_. ?rest)) ?Q"
    using run by (cases r) (simp_all add: follows_ret)
qed (auto simp: evp_finish_def intro!: appends_intros)

section \<open>Properties\<close>

text \<open>
  C16. Whatever the library answers, four programs keep to the life cycle of an event device from their
  first call to their last: they set up queues and ports only after the device is configured, link
  only what is set up, start it only when all its queues and ports are, send, receive and release only
  on ports of a running device, and stop it before they close it.  \<open>beginner_eventdev\<close>: when \<open>main\<close>
  ends with 0 the device is closed.  \<open>eventdev\<close>: \<open>workers_init\<close> ends in the state in which the threads
  start, no thread ever makes a call that is not allowed if there are at most eight worker cores, and
  at the end of \<open>main\<close> the device is closed.  \<open>eventdev_packet_parsing\<close>, with its handlers in any
  order: the device is closed if \<open>main\<close> ends with 0, and runs for ever if it does not end.  The primary
  process of \<open>ipc_eventdev2\<close> leaves its device running.
\<close>
theorem event_device_life_cycle:
  "mon_safe life_monitor no_device (emitted (beginner_main E n) h) \<and>
   (result (beginner_main E n) h = Some 0 \<longrightarrow>
     mon_after life_monitor no_device (emitted (beginner_main E n) h) = no_device) \<and>
   mon_safe life_monitor no_device (emitted (workers_init E cores) h) \<and>
   (result (workers_init E cores) h = None \<longrightarrow>
     mon_after life_monitor no_device (emitted (workers_init E cores) h) = dev evd_start) \<and>
   (runs (evd_threads cores m) evd_start k t \<and> length cores \<le> 8 \<longrightarrow>
     producer t \<noteq> E_undefined \<and> worker t c \<noteq> V_undefined \<and> (producer t = E_done \<longrightarrow> dev t = no_device)) \<and>
   mon_safe life_monitor no_device (emitted (evp_main E C D cores sched) h) \<and>
   (result (evp_main E C D cores sched) h = Some 0 \<longrightarrow>
     mon_after life_monitor no_device (emitted (evp_main E C D cores sched) h) = no_device) \<and>
   (result (evp_main E C D cores sched) h = None \<longrightarrow>
     mon_after life_monitor no_device (emitted (evp_main E C D cores sched) h) = evp_dev) \<and>
   mon_safe life_monitor no_device (emitted (ipc2_primary_main E n) h) \<and>
   (result (ipc2_primary_main E n) h \<noteq> Some (-1) \<longrightarrow>
     mon_after life_monitor no_device (emitted (ipc2_primary_main E n) h) = one_port)"
proof -
  have "producer t \<noteq> E_undefined \<and> worker t c \<noteq> V_undefined \<and> (producer t = E_done \<longrightarrow> dev t = no_device)"
    if "runs (evd_threads cores m) evd_start k t" "length cores \<le> 8"
  proof -
    have t: "phase_ok cores t" "dev_ok cores t"
      using evd.reachable_inv [OF that(1)] by (simp_all add: evd_inv_def)
    show ?thesis using all_defined [OF t(2,1) that(2)] t(2) by (simp add: dev_ok_def)
  qed
  moreover have "dev evd_start = workers_dev" by (simp add: evd_start_def)
  moreover note follows_safe [OF evp_main_life [of E C D cores sched], of h]
    follows_post [OF evp_main_life [of E C D cores sched], of h]
  ultimately show ?thesis
    using beginner_life [of E n] workers_life [of E cores] ipc2_primary_life [of E n]
    by (auto simp: follows_def)
qed

theorem event_device_life_cycle_witness:
  "mon_after life_monitor no_device (emitted (beginner_main event_env 1) []) = no_device \<and>
   mon_after life_monitor no_device (emitted (evp_main event_env demo_parse_ctx (\<lambda>_. []) [3] [3, 3]) []) = evp_dev"
proof -
  have "result (evp_main event_env demo_parse_ctx (\<lambda>_. []) [3] [3, 3]) [] = None"
    by (simp add: evp_main_def evp_setup_def leave_def runs_handler_def event_env_def good_env_def evp_port_init_def
        split: option.split)
  then show ?thesis
    using event_device_life_cycle [of event_env 1 "[]" "[3]" 128 0 evd_start 3 demo_parse_ctx "\<lambda>_. []" "[3, 3]"]
      beginner_delivers(1) [of 0] by simp
qed

text \<open>
  C20. The programs that do not keep to it.  The set-up in \<open>ipc_eventdev/prim.c\<close> ignores what its calls return
  and breaks the rules exactly when the configuration, a queue or a port is refused: it uses what it could not
  set up.  The secondary process of \<open>ipc_eventdev2\<close> never sets up the device it uses: it is in order,
  and leaves the device as it was, while the device runs with port 0 and queue 0; if there is none,
  its first poll is already wrong.
\<close>
theorem ipc_eventdev_life_cycle:
  "(mon_safe life_monitor no_device (emitted (ipc_evd_init E) h) \<longleftrightarrow>
     \<not> list_ex setup_refused (emitted (ipc_evd_init E) h)) \<and>
   (running s \<and> 0 \<in> set (ports_up s) \<and> 0 \<in> set (queues_up s) \<longrightarrow>
     mon_safe life_monitor s (emitted (ipc2_secondary_main E n) h) \<and>
     mon_after life_monitor s (emitted (ipc2_secondary_main E n) h) = s) \<and>
   (\<not> status E (length h) (Eal Eal_init) < 0 \<longrightarrow>
     \<not> mon_safe life_monitor no_device (emitted (ipc2_secondary_main E (Suc n)) h))"
  using ipc_evd_life [of E h] ipc2_secondary_life [of s E n] ipc2_secondary_unready [of E h n]
  by (simp add: follows_def)

text \<open>A device whose configuration is refused.\<close>

definition unconfigured_env :: env where
  "unconfigured_env = good_env\<lparr>status := \<lambda>t c. case c of Evd (Evd_configure d k p) \<Rightarrow> -22 | _ \<Rightarrow> status good_env t c\<rparr>"

theorem ipc_eventdev_life_cycle_witness:
  "\<not> mon_safe life_monitor no_device (emitted (ipc_evd_init unconfigured_env) []) \<and>
   \<not> mon_safe life_monitor no_device (emitted (ipc2_secondary_main good_env 1) [])"
  using ipc_eventdev_life_cycle [of unconfigured_env "[]" one_port 0] ipc_eventdev_life_cycle [of good_env "[]" one_port 0]
  by (simp add: ipc_evd_init_def unconfigured_env_def NULL_def emitted_def setup_refused_def good_env_def)

end
