(* ===== verification/Event_Exchange.thy ===== *)
theory Event_Exchange
  imports Event_Ipc "HOL-Library.Multiset"
begin

text \<open>
  The two pairs of processes that talk over one event device, after their set-up.

  In both programs the processes do not have a direction of their own: in \<open>ipc_eventdev2\<close> both poll
  the same port, in \<open>ipc_eventdev\<close> both ports are linked to both queues.  The device gives an event
  to whichever process asks first, so a process can be handed its own request.  A refused enqueue
  is not noticed by the code; \<open>lossy\<close> says whether the device may refuse.
\<close>

section \<open>ipc\_eventdev2: one number\<close>

definition REPLY :: string where "REPLY = ''Primary: reply received = %lu''"
definition VALUE :: string where "VALUE = ''Secondary: received value = %lu''"

datatype asker_pc = A_send | A_poll | A_show | A_done
datatype replier_pc = B_poll | B_show | B_send | B_said | B_done

record ipc2 =
  pending :: "u64 list"
  asker :: asker_pc
  reply :: u64
  replier :: replier_pc
  request :: u64
  ipc2_out :: "ipc_event list"

definition asker_step :: "answer \<Rightarrow> ipc2 \<Rightarrow> ipc2" where
  "asker_step a s = (case asker s of
     A_send \<Rightarrow> s\<lparr>pending := (if fails a then pending s else pending s @ [100]),
       ipc2_out := ipc2_out s @ [Line ''Primary: waiting for reply...''], asker := A_poll\<rparr>
   | A_poll \<Rightarrow> if fails a then s else s\<lparr>pending := tl (pending s), reply := hd (pending s), asker := A_show\<rparr>
   | A_show \<Rightarrow> s\<lparr>ipc2_out := ipc2_out s @ [Said REPLY (uint (reply s))], asker := A_done\<rparr>
   | A_done \<Rightarrow> s)"

definition replier_step :: "answer \<Rightarrow> ipc2 \<Rightarrow> ipc2" where
  "replier_step a s = (case replier s of
     B_poll \<Rightarrow> if fails a then s else s\<lparr>pending := tl (pending s), request := hd (pending s), replier := B_show\<rparr>
   | B_show \<Rightarrow> s\<lparr>ipc2_out := ipc2_out s @ [Said VALUE (uint (request s))], request := request s + 1, replier := B_send\<rparr>
   | B_send \<Rightarrow> s\<lparr>pending := (if fails a then pending s else pending s @ [request s]), replier := B_said\<rparr>
   | B_said \<Rightarrow> s\<lparr>ipc2_out := ipc2_out s @ [Line ''Secondary: reply sent''], replier := B_done\<rparr>
   | B_done \<Rightarrow> s)"

text \<open>The device delivers only what it holds, and refuses only if it is \<open>lossy\<close>.\<close>

definition asker_ok :: "bool \<Rightarrow> ipc2 \<Rightarrow> answer \<Rightarrow> bool" where
  "asker_ok lossy s a = (case asker s of
     A_send \<Rightarrow> fails a \<longrightarrow> lossy | A_poll \<Rightarrow> pending s = [] \<longrightarrow> fails a | _ \<Rightarrow> True)"

definition replier_ok :: "bool \<Rightarrow> ipc2 \<Rightarrow> answer \<Rightarrow> bool" where
  "replier_ok lossy s a = (case replier s of
     B_send \<Rightarrow> fails a \<longrightarrow> lossy | B_poll \<Rightarrow> pending s = [] \<longrightarrow> fails a | _ \<Rightarrow> True)"

definition ipc2_threads :: "bool \<Rightarrow> ipc2 thread list" where
  "ipc2_threads lossy = [(asker_ok lossy, asker_step), (replier_ok lossy, replier_step)]"

definition ipc2_start :: ipc2 where
  "ipc2_start = \<lparr>pending = [], asker = A_send, reply = 0, replier = B_poll, request = 0, ipc2_out = []\<rparr>"

text \<open>Where the one event is, and what has been printed.\<close>

definition event_place :: "bool \<Rightarrow> ipc2 \<Rightarrow> bool" where
  "event_place lossy s = (case asker s of
     A_send \<Rightarrow> pending s = [] \<and> replier s = B_poll
   | A_poll \<Rightarrow> (case replier s of
         B_poll \<Rightarrow> pending s = [100] \<or> pending s = [] \<and> lossy
       | B_show \<Rightarrow> pending s = [] \<and> request s = 100
       | B_send \<Rightarrow> pending s = [] \<and> request s = 101
       | _ \<Rightarrow> pending s = [101] \<or> pending s = [] \<and> lossy)
   | _ \<Rightarrow> pending s = [] \<and> (reply s = 100 \<and> replier s = B_poll \<or>
       reply s = 101 \<and> (replier s = B_said \<or> replier s = B_done)))"

definition ipc2_printed :: "ipc2 \<Rightarrow> bool" where
  "ipc2_printed s \<longleftrightarrow>
     said REPLY (ipc2_out s) = (if asker s = A_done then [uint (reply s)] else []) \<and>
     said VALUE (ipc2_out s) = (if replier s = B_poll \<or> replier s = B_show then [] else [100])"

definition ipc2_inv :: "bool \<Rightarrow> ipc2 \<Rightarrow> bool" where
  "ipc2_inv lossy s \<longleftrightarrow> event_place lossy s \<and> ipc2_printed s"

definition ipc2_left :: "ipc2 \<Rightarrow> nat" where
  "ipc2_left s = (case asker s of A_send \<Rightarrow> 3 | A_poll \<Rightarrow> 2 | A_show \<Rightarrow> 1 | A_done \<Rightarrow> 0) +
     (case replier s of B_poll \<Rightarrow> 4 | B_show \<Rightarrow> 3 | B_send \<Rightarrow> 2 | B_said \<Rightarrow> 1 | B_done \<Rightarrow> 0)"

text \<open>Nothing more can happen: each process has ended or polls a device that holds nothing.\<close>

definition ipc2_over :: "ipc2 \<Rightarrow> bool" where
  "ipc2_over s \<longleftrightarrow> (asker s = A_done \<or> asker s = A_poll \<and> pending s = []) \<and>
     (replier s = B_done \<or> replier s = B_poll \<and> pending s = [])"

lemmas ipc2_defs = ipc2_inv_def event_place_def ipc2_printed_def REPLY_def VALUE_def

lemma ipc2_inv_asker:
  "ipc2_inv lossy s \<Longrightarrow> asker_ok lossy s a \<Longrightarrow> ipc2_inv lossy (asker_step a s)"
  by (cases "asker s"; cases "replier s") (auto simp: ipc2_defs asker_step_def asker_ok_def)

lemma ipc2_inv_replier:
  "ipc2_inv lossy s \<Longrightarrow> replier_ok lossy s a \<Longrightarrow> ipc2_inv lossy (replier_step a s)"
  by (cases "asker s"; cases "replier s") (auto simp: ipc2_defs replier_step_def replier_ok_def)

lemma ipc2_left_asker: "asker_step a s \<noteq> s \<Longrightarrow> ipc2_left (asker_step a s) < ipc2_left s"
  by (cases "asker s") (auto simp: ipc2_left_def asker_step_def)

lemma ipc2_left_replier: "replier_step a s \<noteq> s \<Longrightarrow> ipc2_left (replier_step a s) < ipc2_left s"
  by (cases "replier s") (auto simp: ipc2_left_def replier_step_def)

lemma ipc2_moves:
  assumes "\<not> ipc2_over s"
  shows "\<exists>a. asker_ok lossy s a \<and> asker (asker_step a s) \<noteq> asker s \<or>
     replier_ok lossy s a \<and> replier (replier_step a s) \<noteq> replier s"
  using assms by (intro exI [of _ "\<lparr>addr = NULL, fails = False\<rparr>"]; cases "asker s"; cases "replier s")
    (auto simp: ipc2_over_def asker_step_def asker_ok_def replier_step_def replier_ok_def)

lemma ipc2_step_cases:
  assumes "(ok, g) \<in> set (ipc2_threads lossy)" and "ok s a"
  shows "asker_ok lossy s a \<and> g a s = asker_step a s \<or> replier_ok lossy s a \<and> g a s = replier_step a s"
  using assms by (auto simp: ipc2_threads_def)

interpretation two: draining "ipc2_threads lossy" ipc2_start "ipc2_inv lossy" ipc2_left ipc2_over for lossy
proof unfold_locales
  show "ipc2_inv lossy ipc2_start" by (simp add: ipc2_defs ipc2_start_def)
next
  fix s ok g a
  assume *: "ipc2_inv lossy s" "(ok, g) \<in> set (ipc2_threads lossy)" "ok s a"
  show "ipc2_inv lossy (g a s)"
    using ipc2_step_cases [OF *(2,3)] *(1) ipc2_inv_asker ipc2_inv_replier by metis
  show "ipc2_left (g a s) < ipc2_left s" if "g a s \<noteq> s"
    using ipc2_step_cases [OF *(2,3)] that ipc2_left_asker ipc2_left_replier by metis
next
  fix s
  assume "ipc2_inv lossy s" "\<not> ipc2_over s"
  then obtain a where "asker_ok lossy s a \<and> asker (asker_step a s) \<noteq> asker s \<or>
      replier_ok lossy s a \<and> replier (replier_step a s) \<noteq> replier s"
    using ipc2_moves by blast
  then have "asker_ok lossy s a \<and> asker_step a s \<noteq> s \<or> replier_ok lossy s a \<and> replier_step a s \<noteq> s"
    by auto
  then show "\<exists>(ok, g) \<in> set (ipc2_threads lossy). \<exists>a. ok s a \<and> g a s \<noteq> s"
    by (auto simp: ipc2_threads_def)
qed

text \<open>The three ways it can end.\<close>

lemma ipc2_ends:
  assumes "ipc2_inv lossy s" and "ipc2_over s"
  shows "asker s = A_done \<and> replier s = B_done \<and> said REPLY (ipc2_out s) = [101] \<and> said VALUE (ipc2_out s) = [100] \<or>
     asker s = A_done \<and> replier s = B_poll \<and> said REPLY (ipc2_out s) = [100] \<and> said VALUE (ipc2_out s) = [] \<or>
     lossy \<and> asker s = A_poll \<and> said REPLY (ipc2_out s) = []"
  using assms by (cases "asker s"; cases "replier s") (auto simp: ipc2_defs ipc2_over_def)

text \<open>
  C15. \<open>ipc_eventdev2\<close>, in every interleaving: after at most seven steps other than waiting nothing more
  can happen, and such a state can always be reached.  Then either the exchange has worked, the secondary process
  has printed 100 and the primary process 101; or the primary process has taken its own event from
  the port both poll, has printed 100 as the reply and ended, and the secondary process waits for
  ever; or, only if the device has refused an event, the primary process waits for ever.  The first
  two do happen on a device that refuses nothing.
\<close>
theorem ipc2_outcomes:
  assumes "runs (ipc2_threads lossy) ipc2_start n s"
  shows "n \<le> 7 \<and> (\<exists>m t. runs (ipc2_threads lossy) s m t \<and> ipc2_over t) \<and>
    (ipc2_over s \<longrightarrow>
     asker s = A_done \<and> replier s = B_done \<and> said REPLY (ipc2_out s) = [101] \<and> said VALUE (ipc2_out s) = [100] \<or>
     asker s = A_done \<and> replier s = B_poll \<and> said REPLY (ipc2_out s) = [100] \<and> said VALUE (ipc2_out s) = [] \<or>
     lossy \<and> asker s = A_poll \<and> said REPLY (ipc2_out s) = [])"
proof -
  have "ipc2_left ipc2_start = 7" by (simp add: ipc2_left_def ipc2_start_def)
  then show ?thesis
    using two.reachable_steps_bounded [OF assms] two.reachable_can_finish [OF assms]
      ipc2_ends [OF two.reachable_inv [OF assms]] by simp
qed

text \<open>Both outcomes, as runs: the secondary process gets the event, or the primary process does.\<close>

definition works_run :: "(nat \<times> answer) list" where
  "works_run = map (\<lambda>k. (k, \<lparr>addr = NULL, fails = False\<rparr>)) [0, 1, 1, 1, 1, 0, 0]"

definition own_event_run :: "(nat \<times> answer) list" where
  "own_event_run = map (\<lambda>k. (k, \<lparr>addr = NULL, fails = False\<rparr>)) [0, 0, 0]"

lemmas two_runs = works_run_def own_event_run_def ipc2_threads_def ipc2_start_def ipc2_over_def
  asker_ok_def replier_ok_def asker_step_def replier_step_def

lemma two_outcomes:
  "steps_ok (ipc2_threads False) works_run ipc2_start"
  "ipc2_over (steps (ipc2_threads False) works_run ipc2_start)"
  "replier (steps (ipc2_threads False) works_run ipc2_start) = B_done"
  "steps_ok (ipc2_threads False) own_event_run ipc2_start"
  "ipc2_over (steps (ipc2_threads False) own_event_run ipc2_start)"
  "replier (steps (ipc2_threads False) own_event_run ipc2_start) = B_poll"
  by (simp_all add: two_runs)

theorem ipc2_outcomes_witness:
  "\<exists>n s m t. runs (ipc2_threads False) ipc2_start n s \<and> said REPLY (ipc2_out s) = [101] \<and>
     runs (ipc2_threads False) ipc2_start m t \<and> said REPLY (ipc2_out t) = [100] \<and> said VALUE (ipc2_out t) = []"
proof -
  obtain n where n: "runs (ipc2_threads False) ipc2_start n (steps (ipc2_threads False) works_run ipc2_start)"
    using runs_steps [OF two_outcomes(1)] by (elim exE)
  obtain m where m: "runs (ipc2_threads False) ipc2_start m (steps (ipc2_threads False) own_event_run ipc2_start)"
    using runs_steps [OF two_outcomes(4)] by (elim exE)
  note r = n m
  have "said REPLY (ipc2_out (steps (ipc2_threads False) works_run ipc2_start)) = [101]"
    using ipc2_outcomes [OF r(1), THEN conjunct2, THEN conjunct2] two_outcomes(2,3) by simp
  moreover have "said REPLY (ipc2_out (steps (ipc2_threads False) own_event_run ipc2_start)) = [100] \<and>
      said VALUE (ipc2_out (steps (ipc2_threads False) own_event_run ipc2_start)) = []"
    using ipc2_outcomes [OF r(2), THEN conjunct2, THEN conjunct2] two_outcomes(5,6) by simp
  ultimately show ?thesis
    using r by (intro exI [of _ n] exI [of _ "steps (ipc2_threads False) works_run ipc2_start"] exI [of _ m]
        exI [of _ "steps (ipc2_threads False) own_event_run ipc2_start"] conjI) simp_all
qed

section \<open>ipc\_eventdev: requests and replies as buffers\<close>

datatype requester_pc = P_alloc | P_enqueue | P_dequeue | P_report
datatype answerer_pc = S_dequeue | S_send

text \<open>
  \<open>in_use\<close> are the buffers taken from the pool, \<open>on_device\<close> the events with their queue; \<open>lost\<close> are the
  buffers of refused events, which no process has a pointer to any more.
\<close>

record evipc =
  in_use :: "mbuf set"
  on_device :: "(nat \<times> mbuf) list"
  lost :: "mbuf list"
  requester :: requester_pc
  new_mbuf :: mbuf
  got_mbuf :: mbuf
  answerer :: answerer_pc
  ans_mbuf :: mbuf
  evipc_out :: "ipc_event list"

definition take_event :: "mbuf \<Rightarrow> (nat \<times> mbuf) list \<Rightarrow> (nat \<times> mbuf) list" where
  "take_event m es = filter (\<lambda>e. snd e \<noteq> m) es"

definition requester_step :: "answer \<Rightarrow> evipc \<Rightarrow> evipc" where
  "requester_step a s = (case requester s of
     P_alloc \<Rightarrow> if addr a = NULL then s
       else s\<lparr>in_use := insert (addr a) (in_use s), new_mbuf := addr a, requester := P_enqueue\<rparr>
   | P_enqueue \<Rightarrow> (if fails a then s\<lparr>lost := lost s @ [new_mbuf s], requester := P_dequeue\<rparr>
       else s\<lparr>on_device := on_device s @ [(0, new_mbuf s)], requester := P_dequeue\<rparr>)
   | P_dequeue \<Rightarrow> if fails a then s\<lparr>requester := P_alloc\<rparr>
       else s\<lparr>on_device := take_event (addr a) (on_device s), got_mbuf := addr a, requester := P_report\<rparr>
   | P_report \<Rightarrow> s\<lparr>evipc_out := evipc_out s @ [Line ''Primary received reply from secondary'',
         if got_mbuf s \<in> in_use s then Freed (got_mbuf s) else Bad_free (got_mbuf s)],
       in_use := in_use s - {got_mbuf s}, requester := P_alloc\<rparr>)"

definition answerer_step :: "answer \<Rightarrow> evipc \<Rightarrow> evipc" where
  "answerer_step a s = (case answerer s of
     S_dequeue \<Rightarrow> if fails a then s
       else s\<lparr>on_device := take_event (addr a) (on_device s), ans_mbuf := addr a,
         evipc_out := evipc_out s @ [Line ''Secondary received request''], answerer := S_send\<rparr>
   | S_send \<Rightarrow> (if fails a then s\<lparr>lost := lost s @ [ans_mbuf s], answerer := S_dequeue\<rparr>
       else s\<lparr>on_device := on_device s @ [(1, ans_mbuf s)], answerer := S_dequeue\<rparr>))"

text \<open>The pool gives out a free buffer or NULL; both ports are linked to both queues.\<close>

definition requester_ok :: "evipc \<Rightarrow> answer \<Rightarrow> bool" where
  "requester_ok s a = (case requester s of
     P_alloc \<Rightarrow> addr a \<notin> in_use s
   | P_dequeue \<Rightarrow> \<not> fails a \<longrightarrow> addr a \<in> snd ` set (on_device s)
   | _ \<Rightarrow> True)"

definition answerer_ok :: "evipc \<Rightarrow> answer \<Rightarrow> bool" where
  "answerer_ok s a = (case answerer s of
     S_dequeue \<Rightarrow> \<not> fails a \<longrightarrow> addr a \<in> snd ` set (on_device s)
   | _ \<Rightarrow> True)"

definition evipc_threads :: "evipc thread list" where
  "evipc_threads = [(requester_ok, requester_step), (answerer_ok, answerer_step)]"

definition evipc_start :: evipc where
  "evipc_start = \<lparr>in_use = {}, on_device = [], lost = [], requester = P_alloc, new_mbuf = NULL, got_mbuf = NULL,
     answerer = S_dequeue, ans_mbuf = NULL, evipc_out = []\<rparr>"

text \<open>Every buffer in use is in exactly one place.\<close>

definition places :: "evipc \<Rightarrow> mbuf list" where
  "places s = (if requester s = P_enqueue then [new_mbuf s] else []) @
     (if requester s = P_report then [got_mbuf s] else []) @
     (if answerer s = S_send then [ans_mbuf s] else []) @ map snd (on_device s) @ lost s"

definition placed :: "evipc \<Rightarrow> bool" where
  "placed s \<longleftrightarrow> distinct (places s) \<and> set (places s) = in_use s \<and> (\<forall>m. Bad_free m \<notin> set (evipc_out s))"

lemma mset_deliver:
  assumes "m \<in> snd ` set es" and "distinct (map snd es)"
  shows "add_mset m (mset (map snd (take_event m es))) = mset (map snd es)"
  using assms
proof (induction es)
  case (Cons e es)
  have "take_event m es = es" if "m \<notin> snd ` set es"
    unfolding take_event_def using that by (intro filter_True) auto
  with Cons show ?case by (auto simp: take_event_def simp del: mset_filter)
qed simp

lemma placed_same:
  assumes "placed s" and "mset (places t) = mset (places s)" and "in_use t = in_use s"
    and "\<And>m. Bad_free m \<in> set (evipc_out t) \<Longrightarrow> Bad_free m \<in> set (evipc_out s)"
  shows "placed t"
  using assms mset_eq_setD [OF assms(2)] mset_eq_imp_distinct_iff [OF assms(2)] by (auto simp: placed_def)

lemma placed_device: "placed s \<Longrightarrow> distinct (map snd (on_device s))"
  by (simp add: placed_def places_def)

lemma placed_requester:
  assumes "placed s" and "requester_ok s a"
  shows "placed (requester_step a s)"
proof (cases "requester s")
  case P_alloc
  then show ?thesis using assms by (auto simp: placed_def places_def requester_step_def requester_ok_def)
next
  case P_enqueue
  show ?thesis by (rule placed_same [OF assms(1)])
      (use P_enqueue in \<open>simp_all add: places_def requester_step_def split: if_splits\<close>)
next
  case P_dequeue
  show ?thesis
  proof (rule placed_same [OF assms(1)])
    show "mset (places (requester_step a s)) = mset (places s)"
      using assms(2) P_dequeue mset_deliver [OF _ placed_device [OF assms(1)], of "addr a"]
      by (simp add: places_def requester_step_def requester_ok_def)
  qed (use P_dequeue in \<open>simp_all add: requester_step_def split: if_splits\<close>)
next
  case P_report
  then show ?thesis using assms(1) by (auto simp: placed_def places_def requester_step_def)
qed

lemma placed_answerer:
  assumes "placed s" and "answerer_ok s a"
  shows "placed (answerer_step a s)"
proof (rule placed_same [OF assms(1)])
  show "mset (places (answerer_step a s)) = mset (places s)"
    using assms(2) mset_deliver [OF _ placed_device [OF assms(1)], of "addr a"]
    by (cases "answerer s") (simp_all add: places_def answerer_step_def answerer_ok_def)
qed (cases "answerer s"; simp add: answerer_step_def split: if_splits)+

interpretation exchange: machine evipc_threads evipc_start placed
proof unfold_locales
  show "placed evipc_start" by (simp add: placed_def places_def evipc_start_def)
next
  fix s ok g a
  assume "placed s" "(ok, g) \<in> set evipc_threads" "ok s a"
  then show "placed (g a s)" by (auto simp: evipc_threads_def intro: placed_requester placed_answerer)
qed

text \<open>
  In every interleaving each buffer in use is in exactly one place (with a process, on the device,
  or lost to a refused enqueue), and nothing is freed that is not in use.
\<close>

lemma ipc_eventdev_places:
  assumes "runs evipc_threads evipc_start n s"
  shows "distinct (places s)" and "set (places s) = in_use s" and "Bad_free m \<notin> set (evipc_out s)"
  using exchange.reachable_inv [OF assms] by (simp_all add: placed_def)

text \<open>The primary process can report a reply although the secondary process has done nothing: its own request.\<close>

lemma ipc_eventdev_own_request:
  "\<exists>n s. runs evipc_threads evipc_start n s \<and> answerer s = S_dequeue \<and>
     evipc_out s = [Line ''Primary received reply from secondary'', Freed 1]"
proof -
  have ok: "steps_ok evipc_threads (map (\<lambda>k. (0, \<lparr>addr = 1, fails = False\<rparr>)) [0..<4]) evipc_start"
    and out: "answerer (steps evipc_threads (map (\<lambda>k. (0, \<lparr>addr = 1, fails = False\<rparr>)) [0..<4]) evipc_start) = S_dequeue"
      "evipc_out (steps evipc_threads (map (\<lambda>k. (0, \<lparr>addr = 1, fails = False\<rparr>)) [0..<4]) evipc_start)
       = [Line ''Primary received reply from secondary'', Freed 1]"
    by (simp_all add: upt_rec evipc_threads_def evipc_start_def requester_ok_def requester_step_def NULL_def)
  show ?thesis using runs_steps [OF ok] out by blast
qed

end
