(* ===== verification/Rely_Logic.thy ===== *)
theory Rely_Logic
  imports Trace_Logic
begin

text \<open>
  Programs that are right as long as the library keeps its word.  A contract follows the trace with a
  state and says two things of each event: what the library promises when it answers (\<open>relies\<close>) and
  what the program may do (\<open>keeps\<close>).  \<open>under C s m Q\<close>: started in state \<open>s\<close>, as long as every answer
  is as promised, \<open>m\<close> does allowed things only and ends in a result and a state that satisfy \<open>Q\<close>.
  As a promise speaks of the answers actually given, it can be met by a concrete environment.
\<close>

section \<open>Contracts\<close>

record 's contract =
  relies :: "'s \<Rightarrow> event \<Rightarrow> bool"
  keeps :: "'s \<Rightarrow> event \<Rightarrow> bool"
  becomes :: "'s \<Rightarrow> event \<Rightarrow> 's"
  origin :: 's

definition library :: "'s contract \<Rightarrow> 's monitor" where
  "library C = \<lparr>allows = relies C, moves = becomes C\<rparr>"

definition client :: "'s contract \<Rightarrow> 's monitor" where
  "client C = \<lparr>allows = keeps C, moves = becomes C\<rparr>"

lemma contract_monitors [simp]:
  "allows (library C) = relies C" "moves (library C) = becomes C"
  "allows (client C) = keeps C" "moves (client C) = becomes C"
  by (simp_all add: library_def client_def)

lemma mon_after_client [simp]: "mon_after (client C) s es = mon_after (library C) s es"
  by (induction es arbitrary: s) simp_all

text \<open>The state after a whole history.\<close>

definition seen :: "'s contract \<Rightarrow> event list \<Rightarrow> 's" where
  "seen C h = mon_after (library C) (origin C) h"

lemma seen_simps [simp]:
  "seen C [] = origin C" "seen C (h @ es) = mon_after (library C) (seen C h) es"
  by (simp_all add: seen_def)

section \<open>The logic\<close>

definition under :: "'s contract \<Rightarrow> 's \<Rightarrow> 'a io \<Rightarrow> ('a \<Rightarrow> 's \<Rightarrow> bool) \<Rightarrow> bool" where
  "under C s m Q \<longleftrightarrow> appends m \<and>
     (\<forall>h. seen C h = s \<longrightarrow> mon_safe (library C) s (emitted m h) \<longrightarrow>
       mon_safe (client C) s (emitted m h) \<and> Q (result m h) (mon_after (library C) s (emitted m h)))"

lemma under_appends: "under C s m Q \<Longrightarrow> appends m"
  by (simp add: under_def)

lemma underD:
  assumes "under C (origin C) m Q" and "mon_safe (library C) (origin C) (final m [])"
  shows "mon_safe (client C) (origin C) (final m [])" "Q (result m []) (seen C (final m []))"
proof -
  have "emitted m [] = final m []" by (simp add: emitted_def)
  then have "mon_safe (client C) (origin C) (final m []) \<and> Q (result m []) (seen C (final m []))"
    using assms unfolding under_def seen_def by (metis mon_after.simps(1))
  then show "mon_safe (client C) (origin C) (final m [])" "Q (result m []) (seen C (final m []))" by simp_all
qed

lemma under_weaken: "under C s m P \<Longrightarrow> (\<And>r s'. P r s' \<Longrightarrow> Q r s') \<Longrightarrow> under C s m Q"
  by (auto simp: under_def)

lemma under_bind:
  assumes "under C s m P" and "\<And>r s'. P r s' \<Longrightarrow> under C s' (f r) Q" and "\<And>r. appends (f r)"
  shows "under C s (m \<bind> f) Q"
proof -
  have m: "appends m" using assms(1) by (rule under_appends)
  have "mon_safe (client C) s (emitted (m \<bind> f) h) \<and>
      Q (result (m \<bind> f) h) (mon_after (library C) s (emitted (m \<bind> f) h))"
    if h: "seen C h = s" "mon_safe (library C) s (emitted (m \<bind> f) h)" for h
  proof -
    let ?s = "mon_after (library C) s (emitted m h)"
    let ?f = "f (result m h)" and ?h = "h @ emitted m h"
    have split: "emitted (m \<bind> f) h = emitted m h @ emitted ?f ?h" "result (m \<bind> f) h = result ?f ?h"
      using emitted_bind [OF m assms(3)] final_emitted [OF m] by simp_all
    have 1: "mon_safe (client C) s (emitted m h)" "P (result m h) ?s"
      using assms(1) h unfolding under_def split by auto
    have "seen C ?h = ?s" using h(1) by simp
    then have "mon_safe (client C) ?s (emitted ?f ?h)" "Q (result ?f ?h) (mon_after (library C) ?s (emitted ?f ?h))"
      using assms(2) [OF 1(2)] h(2) unfolding under_def split by auto
    then show ?thesis using 1(1) unfolding split by simp
  qed
  then show ?thesis using m assms(3) by (simp add: under_def appends_bind)
qed

lemma under_ret: "Q x s \<Longrightarrow> under C s (ret x) Q"
  by (simp add: under_def emitted_def)

lemma under_if: "(b \<Longrightarrow> under C s m Q) \<Longrightarrow> (\<not> b \<Longrightarrow> under C s m' Q) \<Longrightarrow> under C s (if b then m else m') Q"
  by simp

lemma under_case_option:
  "(r = None \<Longrightarrow> under C s m Q) \<Longrightarrow> (\<And>x. r = Some x \<Longrightarrow> under C s (f x) Q)
   \<Longrightarrow> under C s (case r of None \<Rightarrow> m | Some x \<Rightarrow> f x) Q"
  by (cases r) auto

text \<open>One call, then the rest of the function.  The promise about the answer is an assumption.\<close>

lemma under_status:
  assumes "\<And>r. relies C s (Status c r) \<Longrightarrow> keeps C s (Status c r)"
    and "\<And>r. relies C s (Status c r) \<Longrightarrow> under C (becomes C s (Status c r)) (f r) Q" and "\<And>r. appends (f r)"
  shows "under C s (ask_status E c \<bind> f) Q"
  by (rule under_bind [where P = "\<lambda>r s'. s' = becomes C s (Status c r) \<and> relies C s (Status c r)"])
    (use assms in \<open>auto simp: under_def emitted_def\<close>)

lemma under_pointer:
  assumes "\<And>r. relies C s (Pointer c r) \<Longrightarrow> keeps C s (Pointer c r)"
    and "\<And>r. relies C s (Pointer c r) \<Longrightarrow> under C (becomes C s (Pointer c r)) (f r) Q" and "\<And>r. appends (f r)"
  shows "under C s (ask_pointer E c \<bind> f) Q"
  by (rule under_bind [where P = "\<lambda>r s'. s' = becomes C s (Pointer c r) \<and> relies C s (Pointer c r)"])
    (use assms in \<open>auto simp: under_def emitted_def\<close>)

lemma under_burst:
  assumes "\<And>r. relies C s (Burst c r) \<Longrightarrow> keeps C s (Burst c r)"
    and "\<And>r. relies C s (Burst c r) \<Longrightarrow> under C (becomes C s (Burst c r)) (f r) Q" and "\<And>r. appends (f r)"
  shows "under C s (ask_burst E c \<bind> f) Q"
  by (rule under_bind [where P = "\<lambda>r s'. s' = becomes C s (Burst c r) \<and> relies C s (Burst c r)"])
    (use assms in \<open>auto simp: under_def emitted_def\<close>)

lemma under_emit:
  assumes "mon_safe (client C) s es" and "under C (mon_after (library C) s es) (f ()) Q" and "appends (f ())"
  shows "under C s (emit es \<bind> f) Q"
  by (rule under_bind [where P = "\<lambda>r s'. s' = mon_after (library C) s es"])
    (use assms in \<open>auto simp: under_def emitted_def\<close>)

lemma under_say:
  assumes "keeps C s (Printf msg as)" and "under C (becomes C s (Printf msg as)) (f ()) Q" and "appends (f ())"
  shows "under C s (say msg as \<bind> f) Q"
  by (rule under_bind [where P = "\<lambda>r s'. s' = becomes C s (Printf msg as)"])
    (use assms in \<open>auto simp: under_def emitted_def\<close>)

lemma under_act:
  assumes "keeps C s (Did c)" and "under C (becomes C s (Did c)) (f ()) Q" and "appends (f ())"
  shows "under C s (act c \<bind> f) Q"
  by (rule under_bind [where P = "\<lambda>r s'. s' = becomes C s (Did c)"])
    (use assms in \<open>auto simp: under_def emitted_def\<close>)

lemma under_last_act: "keeps C s (Did c) \<Longrightarrow> Q () (becomes C s (Did c)) \<Longrightarrow> under C s (act c) Q"
  by (simp add: under_def emitted_def)

text \<open>The ways a program ends early.\<close>

lemma under_exit_some:
  assumes "mon_safe (client C) s [Printf msg as, Did (Eal (Exit 1))]"
    and "Q (Some 1) (mon_after (library C) s [Printf msg as, Did (Eal (Exit 1))])"
  shows "under C s (rte_exit msg as \<bind> (\<lambda>x. ret (Some x))) Q"
  using assms by (simp add: under_def emitted_def appends_bind)

lemma under_panic:
  assumes "mon_safe (client C) s [Printf msg as, Did (Eal Abort)]"
    and "Q (-1) (mon_after (library C) s [Printf msg as, Did (Eal Abort)])"
  shows "under C s (rte_panic msg as) Q"
  using assms by (simp add: under_def emitted_def)

section \<open>Loops\<close>

text \<open>A loop over an array that is never left early; the invariant is on the elements still to come.\<close>

lemma under_for_return:
  assumes "\<And>x xs s. I (x # xs) s \<Longrightarrow> under C s (f x) (\<lambda>r s'. r = None \<and> I xs s')" and "\<And>x. appends (f x)"
    and "I xs s"
  shows "under C s (for_return f xs) (\<lambda>r s'. r = None \<and> I [] s')"
  using assms(3)
proof (induction xs arbitrary: s)
  case Nil
  then show ?case by (simp add: under_ret)
next
  case (Cons x xs)
  have "under C s (f x \<bind> (\<lambda>r. case r of None \<Rightarrow> for_return f xs | Some v \<Rightarrow> ret (Some v))) (\<lambda>r s'. r = None \<and> I [] s')"
    by (rule under_bind [OF assms(1) [OF Cons.prems]]) (auto intro: Cons.IH intro!: appends_intros assms(2))
  then show ?case by simp
qed

lemma under_for_each:
  assumes "\<And>x xs s. I (x # xs) s \<Longrightarrow> under C s (f x) (\<lambda>_ s'. I xs s')" and "\<And>x. appends (f x)" and "I xs s"
  shows "under C s (for_each f xs) (\<lambda>_ s'. I [] s')"
  using assms(3)
proof (induction xs arbitrary: s)
  case Nil
  then show ?case by (simp add: under_ret)
next
  case (Cons x xs)
  have "under C s (f x \<bind> (\<lambda>_. for_each f xs)) (\<lambda>_ s'. I [] s')"
    by (rule under_bind [OF assms(1) [OF Cons.prems]]) (auto intro: Cons.IH intro!: appends_intros assms(2))
  then show ?case by simp
qed

end
