(* ===== verification/Reorder_Demo.thy ===== *)
theory Reorder_Demo
  imports Rely_Logic Packet_Data "HOL-Library.Multiset"
begin

text \<open>
  The three programs that put packets with sequence numbers into a reorder buffer and take them
  out again: \<open>reorder_packet/\<close>, \<open>reorder_packet2/\<close>, \<open>reorder_2/\<close>.

  The reorder library is not part of the repository, its answers come from the environment.  What its
  documentation promises of them is \<open>reorder_promise\<close>, a contract on the answers of the run
  (\<open>Rely_Logic\<close>): an allocation gives a packet that is not in use, as long as the pool of 1024 has one;
  the first number inserted starts the window; a packet whose number lies in the window is taken,
  one that lies two windows ahead (or behind) is refused; a drain hands out the packets with
  consecutive numbers from the one expected next, as many as are there and asked for.  All three
  programs store the number where the library looks for it: at \<open>rte_reorder_seqn_dynfield_offset\<close>,
  which \<open>rte_reorder_create\<close> sets (also over the offset \<open>reorder_2\<close> has put there).
\<close>

section \<open>The packets' own memory\<close>

text \<open>
  A sequence number is written into the packet and read back after the drain; the memory of a
  packet is what was last stored there.
\<close>

definition last_seqn :: "mbuf \<Rightarrow> event list \<Rightarrow> u32" where
  "last_seqn m h = fold (\<lambda>e v. case e of
     Did c \<Rightarrow> (case c of Mem mc \<Rightarrow> (case mc of Seqn_set k w \<Rightarrow> if k = m then w else v | _ \<Rightarrow> v) | _ \<Rightarrow> v)
   | _ \<Rightarrow> v) h 0"

text \<open>The word at the start of the data, written and read in the byte order \<open>e\<close> of the machine.\<close>

definition last_data :: "endian \<Rightarrow> mbuf \<Rightarrow> event list \<Rightarrow> u32" where
  "last_data e m h = fold (\<lambda>ev v. case ev of
     Did c \<Rightarrow> (case c of Mem mc \<Rightarrow> (case mc of Store k i bs \<Rightarrow>
       if k = m \<and> i = 0 then (case get32 e bs 0 of None \<Rightarrow> v | Some w \<Rightarrow> w) else v | _ \<Rightarrow> v) | _ \<Rightarrow> v)
   | _ \<Rightarrow> v) h 0"

lemma get32_st32 [simp]: "get32 e (st32 e v) 0 = Some v"
proof -
  obtain a b c d where "v = ld32 e a b c d" using word32_raw by blast
  then show ?thesis by (simp add: st32_ld32 get32_def)
qed

definition read_data :: "endian \<Rightarrow> mbuf \<Rightarrow> u32 io" where
  "read_data e m = State (\<lambda>h. (last_data e m h, h @ [Access m]))"

definition read_seqn :: "mbuf \<Rightarrow> u32 io" where
  "read_seqn m = State (\<lambda>h. (last_seqn m h, h @ [Access m]))"

lemma run_read_seqn [simp, io_simps]:
  "result (read_data e m) h = last_data e m h" "final (read_data e m) h = h @ [Access m]"
  "result (read_seqn m) h = last_seqn m h" "final (read_seqn m) h = h @ [Access m]"
  by (simp_all add: result_def final_def read_seqn_def read_data_def)

lemma appends_read_seqn [simp, appends_intros]: "appends (read_seqn m)" "appends (read_data e m)"
  by (simp_all add: appends_def)

section \<open>The programs\<close>

definition BURST :: nat where "BURST = 32"

text \<open>
  The two programs \<open>reorder_packet\<close> and \<open>reorder_packet2\<close> (\<open>second\<close>) differ in what they store in a
  packet and print of it: the first writes the number into the data, too, and prints the data.
\<close>

definition create_packet :: "bool \<Rightarrow> endian \<Rightarrow> env \<Rightarrow> ptr \<Rightarrow> u32 \<Rightarrow> mbuf io" where
  "create_packet second e E mp seq = do {
     m \<leftarrow> rte_pktmbuf_alloc E mp;
     if m = NULL then ret NULL else do {
     emit (if second then [] else [Did (Mem (Store m 0 (st32 e seq)))]);
     act (Mem (Mbuf_set_len m 4));
     act (Mem (Seqn_set m seq));
     ret m } }"

text \<open>
  One packet of the arrival loop.  The library dereferences the packet it is given: after a failed
  allocation the program has no meaning any more, and the model stops there.
\<close>

definition insert_one :: "bool \<Rightarrow> endian \<Rightarrow> env \<Rightarrow> ptr \<Rightarrow> ptr \<Rightarrow> u32 \<Rightarrow> int option io" where
  "insert_one second e E buf mp seq = do {
     m \<leftarrow> create_packet second e E mp seq;
     say ''Insert seq=%u'' [PU (unat seq)];
     if m = NULL then do { emit [Undefined]; ret (Some (-1)) } else do {
     r \<leftarrow> rte_reorder_insert E buf m;
     if r < 0 then do { say ''Insert failed for seq=%u'' [PU (unat seq)]; rte_pktmbuf_free m; ret None }
     else ret None } }"

definition output_one :: "bool \<Rightarrow> endian \<Rightarrow> mbuf \<Rightarrow> unit io" where
  "output_one second e m = do {
     seq \<leftarrow> (if second then read_seqn m else read_data e m);
     say ''Output seq=%u'' [PU (unat seq)];
     rte_pktmbuf_free m }"

text \<open>One round of the drain loop; \<open>reorder_packet2\<close> reports the count before the test, too.\<close>

definition drain_round :: "bool \<Rightarrow> endian \<Rightarrow> env \<Rightarrow> ptr \<Rightarrow> nat \<Rightarrow> (nat + nat) io" where
  "drain_round second e E buf total_drained = do {
     ms \<leftarrow> rte_reorder_drain E buf BURST;
     emit (if second then [Printf ''nb_drains:%d'' [PD (int (length ms))]] else []);
     if ms = [] then ret (Inl total_drained) else do {
     emit (if second then [] else [Printf ''nb_drains:%d'' [PD (int (length ms))]]);
     say ''nb_drain:%d'' [PD (int (length ms))];
     for_each (output_one second e) ms;
     ret (Inr (total_drained + length ms)) } }"

definition reorder_demo :: "bool \<Rightarrow> endian \<Rightarrow> nat \<Rightarrow> u32 list \<Rightarrow> env \<Rightarrow> nat \<Rightarrow> int option io" where
  "reorder_demo second e window arrival_seq E n = do {
     r \<leftarrow> rte_eal_init E;
     if r < 0 then rte_exit ''EAL init failed'' [] \<bind> (\<lambda>x. ret (Some x)) else do {
     mp \<leftarrow> rte_pktmbuf_pool_create E ''MBUF_POOL'' 1024 32;
     if mp = NULL then rte_exit ''Cannot create mbuf pool'' [] \<bind> (\<lambda>x. ret (Some x)) else do {
     buf \<leftarrow> rte_reorder_create E ''REORDER_BUF'' window;
     if buf = NULL then rte_exit ''Cannot create reorder buffer'' [] \<bind> (\<lambda>x. ret (Some x)) else do {
     say ''Simulating out-of-order packet arrival:'' [];
     stop \<leftarrow> for_return (insert_one second e E buf mp) arrival_seq;
     case stop of Some x \<Rightarrow> ret (Some x) | None \<Rightarrow> do {
     say ''Draining reordered packets:'' [];
     over \<leftarrow> rounds n (drain_round second e E buf) 0;
     case over of Inr total_drained \<Rightarrow> ret None | Inl total_drained \<Rightarrow> do {
     say ''Total packets drained: %d'' [PD (int total_drained)];
     ret (Some 0) } } } } } }"

definition reorder_main :: "endian \<Rightarrow> env \<Rightarrow> nat \<Rightarrow> int option io" where
  "reorder_main e = reorder_demo False e 16 [0, 2, 1, 4, 3]"

definition reorder2_main :: "endian \<Rightarrow> env \<Rightarrow> nat \<Rightarrow> int option io" where
  "reorder2_main e = reorder_demo True e 4 [10, 35, 11, 12]"

text \<open>
  \<open>reorder_2/main.c\<close> registers the field for the sequence number itself, ignores the answer of the
  insertion, drains once and frees the buffer.
\<close>

definition seq_list :: "u32 list" where "seq_list = [0, 2, 1, 4, 3, 6, 5, 7]"

definition insert_two :: "endian \<Rightarrow> env \<Rightarrow> ptr \<Rightarrow> ptr \<Rightarrow> u32 \<Rightarrow> int option io" where
  "insert_two e E buf mp seq = do {
     m \<leftarrow> rte_pktmbuf_alloc E mp;
     if m = NULL then rte_panic ''alloc failed'' [] \<bind> (\<lambda>x. ret (Some x)) else do {
     act (Mem (Store m 0 (st32 e seq)));
     act (Mem (Seqn_set m seq));
     say ''Insert seq = %u'' [PU (unat seq)];
     r \<leftarrow> rte_reorder_insert E buf m;
     ret None } }"

definition drained_one :: "mbuf \<Rightarrow> unit io" where
  "drained_one m = do {
     seq \<leftarrow> read_seqn m;
     say ''Drained seq = %u'' [PU (unat seq)];
     rte_pktmbuf_free m }"

definition reorder_2_main :: "endian \<Rightarrow> env \<Rightarrow> int io" where
  "reorder_2_main e E = do {
     r \<leftarrow> rte_eal_init E;
     if r < 0 then rte_panic ''EAL failed'' [] else do {
     mp \<leftarrow> rte_pktmbuf_pool_create E ''POOL'' 1024 32;
     if mp = NULL then rte_panic ''mempool failed'' [] else do {
     seq_offset \<leftarrow> ask_status E (Mem (Dynfield_register ''example_seq_no'' 4));
     if seq_offset < 0 then rte_panic ''Failed to register dynamic field'' [] else do {
     buf \<leftarrow> rte_reorder_create E ''reorder'' 8;
     if buf = NULL then rte_panic ''reorder create failed'' [] else do {
     stop \<leftarrow> for_return (insert_two e E buf mp) seq_list;
     case stop of Some x \<Rightarrow> ret x | None \<Rightarrow> do {
     ms \<leftarrow> rte_reorder_drain E buf 8;
     for_each drained_one ms;
     act (Reorder (Reorder_free buf));
     ret 0 } } } } } }"

section \<open>What the library promises and what the program may do\<close>

text \<open>
  The state follows the trace: the window and the number expected next, the packets in the buffer by
  their numbers, the packets allocated and not freed, those the program left to \<open>rte_reorder_free\<close>,
  what is stored in each packet, and the numbers printed of drained packets.  \<open>known\<close> ends when the
  library was given something the promise does not speak of.
\<close>

record reorder_view =
  known :: bool
  window :: nat
  expected :: "u32 option"
  kept :: "u32 \<rightharpoonup> mbuf"
  used :: "mbuf list"
  leftover :: "mbuf list"
  seqn :: "mbuf \<Rightarrow> u32"
  word :: "mbuf \<Rightarrow> u32"
  shown :: "parg list"

definition untouched :: reorder_view where
  "untouched = \<lparr>known = True, window = 0, expected = None, kept = Map.empty, used = [], leftover = [],
     seqn = (\<lambda>m. 0), word = (\<lambda>m. 0), shown = []\<rparr>"

text \<open>How far ahead of the expected number a packet is, modulo \<open>2\<^sup>3\<^sup>2\<close>.\<close>

definition ahead :: "reorder_view \<Rightarrow> mbuf \<Rightarrow> nat" where
  "ahead s m = (case expected s of None \<Rightarrow> 0 | Some b \<Rightarrow> unat (seqn s m - b))"

text \<open>The packets with consecutive numbers from \<open>b\<close>, at most \<open>n\<close>.\<close>

fun run_from :: "(u32 \<rightharpoonup> mbuf) \<Rightarrow> u32 \<Rightarrow> nat \<Rightarrow> mbuf list" where
  "run_from K b 0 = []"
| "run_from K b (Suc n) = (case K b of None \<Rightarrow> [] | Some m \<Rightarrow> m # run_from K (b + 1) n)"

definition next_run :: "reorder_view \<Rightarrow> nat \<Rightarrow> mbuf list" where
  "next_run s n = (case expected s of None \<Rightarrow> [] | Some b \<Rightarrow> run_from (kept s) b n)"

definition reorder_promise :: "reorder_view \<Rightarrow> event \<Rightarrow> bool" where
  "reorder_promise s e = (case e of
     Pointer (Mem (Mbuf_alloc mp)) m \<Rightarrow> (length (used s) < 1024 \<longrightarrow> m \<noteq> NULL) \<and> m \<notin> set (used s)
   | Status (Reorder (Reorder_insert b m)) r \<Rightarrow> known s \<longrightarrow>
       (ahead s m < window s \<longrightarrow> 0 \<le> r) \<and> (2 * window s \<le> ahead s m \<longrightarrow> r < 0)
   | Burst (Reorder (Reorder_drain b n)) ms \<Rightarrow> known s \<longrightarrow> ms = next_run s n
   | _ \<Rightarrow> True)"

text \<open>The program may touch, insert and free a packet only while it is allocated and not in the buffer.\<close>

definition holds :: "reorder_view \<Rightarrow> mbuf \<Rightarrow> bool" where
  "holds s m \<longleftrightarrow> m \<in> set (used s) \<and> m \<notin> ran (kept s)"

definition reorder_allowed :: "reorder_view \<Rightarrow> event \<Rightarrow> bool" where
  "reorder_allowed s e = (case e of
     Status (Reorder (Reorder_insert b m)) r \<Rightarrow> holds s m
   | Did (Mem (Mbuf_free m)) \<Rightarrow> holds s m
   | Did (Mem (Seqn_set m v)) \<Rightarrow> holds s m
   | Did (Mem (Mbuf_set_len m k)) \<Rightarrow> holds s m
   | Did (Mem (Store m i bs)) \<Rightarrow> holds s m
   | Access m \<Rightarrow> holds s m
   | Undefined \<Rightarrow> False
   | _ \<Rightarrow> True)"

definition line_numbers :: "event \<Rightarrow> parg list" where
  "line_numbers e = (case e of
     Printf f as \<Rightarrow> if f = ''Output seq=%u'' \<or> f = ''Drained seq = %u'' then as else [] | _ \<Rightarrow> [])"

definition reorder_next :: "endian \<Rightarrow> reorder_view \<Rightarrow> event \<Rightarrow> reorder_view" where
  "reorder_next en s e = (case e of
     Pointer (Mem (Mbuf_alloc mp)) m \<Rightarrow> if m = NULL then s else s\<lparr>used := m # used s\<rparr>
   | Pointer (Reorder (Reorder_create nm w)) p \<Rightarrow> s\<lparr>window := w\<rparr>
   | Status (Reorder (Reorder_insert b m)) r \<Rightarrow>
       let s' = s\<lparr>expected := Some (case expected s of None \<Rightarrow> seqn s m | Some q \<Rightarrow> q)\<rparr>
       in if r < 0 then s'
          else s'\<lparr>known := (known s \<and> ahead s m < window s \<and> kept s (seqn s m) = None),
                 kept := (kept s)(seqn s m \<mapsto> m)\<rparr>
   | Burst (Reorder (Reorder_drain b n)) ms \<Rightarrow>
       s\<lparr>kept := (\<lambda>q. if kept s q \<in> Some ` set ms then None else kept s q),
         expected := map_option (\<lambda>q. q + of_nat (length ms)) (expected s)\<rparr>
   | Did (Reorder (Reorder_free b)) \<Rightarrow>
       s\<lparr>kept := Map.empty, used := filter (\<lambda>m. m \<notin> ran (kept s)) (used s),
         leftover := leftover s @ filter (\<lambda>m. m \<in> ran (kept s)) (used s)\<rparr>
   | Did (Mem (Mbuf_free m)) \<Rightarrow> s\<lparr>used := remove1 m (used s)\<rparr>
   | Did (Mem (Seqn_set m v)) \<Rightarrow> s\<lparr>seqn := (seqn s)(m := v)\<rparr>
   | Did (Mem (Store m i bs)) \<Rightarrow>
       if i = 0 then s\<lparr>word := (word s)(m := case get32 en bs 0 of None \<Rightarrow> word s m | Some w \<Rightarrow> w)\<rparr> else s
   | Printf f as \<Rightarrow> s\<lparr>shown := shown s @ line_numbers e\<rparr>
   | _ \<Rightarrow> s)"

definition reorder_contract :: "endian \<Rightarrow> reorder_view contract" where
  "reorder_contract en =
     \<lparr>relies = reorder_promise, keeps = reorder_allowed, becomes = reorder_next en, origin = untouched\<rparr>"

lemma reorder_contract_sel [simp]:
  "relies (reorder_contract en) = reorder_promise" "keeps (reorder_contract en) = reorder_allowed"
  "becomes (reorder_contract en) = reorder_next en" "origin (reorder_contract en) = untouched"
  by (simp_all add: reorder_contract_def)

lemma reorder_allowed_simps [simp]:
  "reorder_allowed s (Printf f as)" "reorder_allowed s (Status (Eal ec) r)" "reorder_allowed s (Status (Mem mc) r)"
  "reorder_allowed s (Pointer c p)" "reorder_allowed s (Burst c ms)" "reorder_allowed s (Did (Eal ec))"
  "reorder_allowed s (Did (Reorder rc))"
  "reorder_allowed s (Access m) = holds s m" "\<not> reorder_allowed s Undefined"
  "reorder_allowed s (Did (Mem (Mbuf_free m))) = holds s m"
  "reorder_allowed s (Did (Mem (Seqn_set m v))) = holds s m"
  "reorder_allowed s (Did (Mem (Mbuf_set_len m k))) = holds s m"
  "reorder_allowed s (Did (Mem (Store m k bs))) = holds s m"
  "reorder_allowed s (Status (Reorder (Reorder_insert b m)) r) = holds s m"
  by (simp_all add: reorder_allowed_def)

lemma line_numbers_simps [simp]:
  "f \<noteq> ''Output seq=%u'' \<Longrightarrow> f \<noteq> ''Drained seq = %u'' \<Longrightarrow> line_numbers (Printf f as) = []"
  "line_numbers (Printf ''Output seq=%u'' as) = as" "line_numbers (Printf ''Drained seq = %u'' as) = as"
  by (simp_all add: line_numbers_def)

lemma reorder_next_simps [simp]:
  "reorder_next en s (Printf f as) = s\<lparr>shown := shown s @ line_numbers (Printf f as)\<rparr>"
  "reorder_next en s (Access m) = s" "reorder_next en s Undefined = s"
  "reorder_next en s (Status (Eal ec) r) = s" "reorder_next en s (Status (Mem mc) r) = s"
  "reorder_next en s (Pointer (Mem (Pool_create nm k c)) m) = s"
  "reorder_next en s (Pointer (Reorder (Reorder_create nm w)) p) = s\<lparr>window := w\<rparr>"
  "reorder_next en s (Did (Eal ec)) = s" "reorder_next en s (Did (Mem (Mbuf_set_len m k))) = s"
  "reorder_next en s (Did (Mem (Seqn_set m v))) = s\<lparr>seqn := (seqn s)(m := v)\<rparr>"
  "reorder_next en s (Did (Mem (Store m 0 (st32 en v)))) = s\<lparr>word := (word s)(m := v)\<rparr>"
  "reorder_next en s (Did (Mem (Mbuf_free m))) = s\<lparr>used := remove1 m (used s)\<rparr>"
  "m \<noteq> NULL \<Longrightarrow> reorder_next en s (Pointer (Mem (Mbuf_alloc mp)) m) = s\<lparr>used := m # used s\<rparr>"
  by (simp_all add: reorder_next_def)

text \<open>What the program reads from a packet is what the state says.\<close>

lemma last_seen:
  "last_seqn m h = seqn (seen (reorder_contract en) h) m" "last_data en m h = word (seen (reorder_contract en) h) m"
proof -
  have "last_seqn m h = seqn (seen (reorder_contract en) h) m \<and> last_data en m h = word (seen (reorder_contract en) h) m"
  proof (induction h rule: rev_induct)
    case Nil
    show ?case by (simp add: last_seqn_def last_data_def untouched_def)
  next
    case (snoc e h)
    then show ?case
      by (cases e; simp add: last_seqn_def last_data_def reorder_next_def Let_def
          split: call.split mem_call.split reorder_call.split option.split)
  qed
  then show "last_seqn m h = seqn (seen (reorder_contract en) h) m"
    "last_data en m h = word (seen (reorder_contract en) h) m" by simp_all
qed

text \<open>Every packet allocated was freed, is still in use, or was left to the library.\<close>

definition allocated :: "event list \<Rightarrow> mbuf list" where
  "allocated es = concat (map (\<lambda>e. case e of
     Pointer (Mem (Mbuf_alloc mp)) m \<Rightarrow> if m = NULL then [] else [m] | _ \<Rightarrow> []) es)"

definition outputs :: "event list \<Rightarrow> parg list" where
  "outputs es = concat (map line_numbers es)"

lemma packets_balance:
  assumes "mon_safe (client (reorder_contract en)) s es"
  shows "mset (used s) + mset (leftover s) + mset (allocated es) =
    mset (used (mon_after (library (reorder_contract en)) s es)) +
    mset (leftover (mon_after (library (reorder_contract en)) s es)) + mset (freed es)"
  using assms
proof (induction es arbitrary: s)
  case Nil
  show ?case by (simp add: allocated_def)
next
  case (Cons e es)
  let ?s = "reorder_next en s e"
  have "mset (used s) + mset (leftover s) + mset (allocated [e]) = mset (used ?s) + mset (leftover ?s) + mset (freed [e])"
  proof -
    have "reorder_allowed s e" using Cons.prems by simp
    then show ?thesis
      by (cases e; simp add: allocated_def reorder_next_def reorder_allowed_def holds_def Let_def
          split: call.split mem_call.split reorder_call.split) (auto simp: holds_def insert_DiffM split: mem_call.splits)
  qed
  moreover have "allocated (e # es) = allocated [e] @ allocated es" "freed (e # es) = freed [e] @ freed es"
    by (simp_all add: allocated_def split: event.split call.split mem_call.split)
  moreover have "mset (used ?s) + mset (leftover ?s) + mset (allocated es) =
      mset (used (mon_after (library (reorder_contract en)) ?s es)) +
      mset (leftover (mon_after (library (reorder_contract en)) ?s es)) + mset (freed es)"
    using Cons.IH [of ?s] Cons.prems by simp
  ultimately show ?case by (simp add: ac_simps)
qed

lemma shown_outputs: "shown (mon_after (library (reorder_contract en)) s es) = shown s @ outputs es"
proof (induction es arbitrary: s)
  case Nil
  show ?case by (simp add: outputs_def)
next
  case (Cons e es)
  have "shown (reorder_next en s e) = shown s @ line_numbers e"
    by (cases e; simp add: reorder_next_def line_numbers_def Let_def split: call.split mem_call.split reorder_call.split)
  then show ?case by (simp add: Cons.IH outputs_def)
qed

section \<open>The arrival loops\<close>

lemma appends_reorder [appends_intros]:
  "appends (create_packet second e E mp seq)" "appends (insert_one second e E buf mp seq)"
  "appends (output_one second e m)"
  "appends (drain_round second e E buf t)" "appends (insert_two e E buf mp seq)" "appends (drained_one m)"
  unfolding create_packet_def insert_one_def output_one_def drain_round_def insert_two_def drained_one_def
    rte_panic_def
  by (intro appends_intros)+

text \<open>The numbers within the window \<open>w\<close> from \<open>b\<close>; the others are refused.\<close>

definition accepted :: "nat \<Rightarrow> u32 \<Rightarrow> u32 list \<Rightarrow> u32 list" where
  "accepted w b xs = filter (\<lambda>q. unat (q - b) < w) xs"

lemma accepted_snoc: "accepted w b (xs @ [q]) = accepted w b xs @ (if unat (q - b) < w then [q] else [])"
  by (simp add: accepted_def)

text \<open>
  After the numbers \<open>xs\<close>: the packets in use are those in the buffer, one for each accepted number,
  which is its sequence number and, where the program writes it there, in its data.
\<close>

definition arrived :: "bool \<Rightarrow> nat \<Rightarrow> u32 \<Rightarrow> u32 list \<Rightarrow> reorder_view \<Rightarrow> bool" where
  "arrived wd w b xs s \<longleftrightarrow> known s \<and> window s = w \<and> leftover s = [] \<and> shown s = [] \<and>
     expected s = (if xs = [] then None else Some b) \<and> dom (kept s) = set (accepted w b xs) \<and>
     (\<forall>q m. kept s q = Some m \<longrightarrow> seqn s m = q \<and> (wd \<longrightarrow> word s m = q)) \<and>
     distinct (used s) \<and> set (used s) = ran (kept s)"

lemma arrivedD:
  assumes "arrived wd w b xs s"
  shows "known s" "window s = w" "leftover s = []" "shown s = []" "expected s = (if xs = [] then None else Some b)"
    "dom (kept s) = set (accepted w b xs)" "distinct (used s)" "set (used s) = ran (kept s)"
    "kept s q = Some m \<Longrightarrow> seqn s m = q" "kept s q = Some m \<Longrightarrow> wd \<Longrightarrow> word s m = q"
  using assms by (auto simp: arrived_def)

lemma arrived_few:
  assumes "arrived wd w b xs s"
  shows "length (used s) \<le> length xs"
proof -
  have "length (used s) = card (ran (kept s))" using arrivedD(7,8) [OF assms] by (metis distinct_card)
  also have "ran (kept s) = (\<lambda>q. the (kept s q)) ` dom (kept s)" by (force simp: ran_def dom_def image_iff)
  also have "card \<dots> \<le> card (dom (kept s))" by (rule card_image_le) (simp add: arrivedD(6) [OF assms])
  also have "\<dots> \<le> length (accepted w b xs)" unfolding arrivedD(6) [OF assms] by (rule card_length)
  also have "\<dots> \<le> length xs" by (simp add: accepted_def)
  finally show ?thesis .
qed

text \<open>Between the allocation and the insertion the program holds one packet more.\<close>

definition loaded :: "bool \<Rightarrow> nat \<Rightarrow> u32 \<Rightarrow> u32 list \<Rightarrow> u32 \<Rightarrow> mbuf \<Rightarrow> reorder_view \<Rightarrow> bool" where
  "loaded wd w b xs q m s \<longleftrightarrow> seqn s m = q \<and> (wd \<longrightarrow> word s m = q) \<and> m \<notin> ran (kept s) \<and>
     (\<exists>us. used s = m # us \<and> arrived wd w b xs (s\<lparr>used := us\<rparr>))"

lemma loaded_new:
  assumes "arrived wd w b xs s" and "m \<notin> set (used s)" and "wd \<longrightarrow> v = q"
  shows "loaded wd w b xs q m (s\<lparr>used := m # used s, word := (word s)(m := v), seqn := (seqn s)(m := q)\<rparr>)"
  using assms ranI [of "kept s" _ m] by (auto simp: loaded_def arrived_def)

lemma loaded_holds: "loaded wd w b xs q m s \<Longrightarrow> holds s m"
  by (auto simp: loaded_def holds_def)

lemma loaded_refused:
  assumes "loaded wd w b xs q m s" and "\<not> unat (q - b) < w" and "xs \<noteq> []"
  shows "arrived wd w b (xs @ [q]) (s\<lparr>expected := Some b, used := remove1 m (used s)\<rparr>)"
  using assms by (auto simp: loaded_def arrived_def accepted_snoc)

lemma loaded_taken:
  assumes "loaded wd w b xs q m s" and "unat (q - b) < w" and "q \<notin> set xs"
  shows "kept s q = None"
    "arrived wd w b (xs @ [q]) (s\<lparr>expected := Some b, known := True, kept := (kept s)(q \<mapsto> m)\<rparr>)"
proof -
  have "dom (kept s) = set (accepted w b xs)" using assms(1) by (auto simp: loaded_def arrived_def)
  then show new: "kept s q = None" using assms(3) by (auto simp: accepted_def)
  show "arrived wd w b (xs @ [q]) (s\<lparr>expected := Some b, known := True, kept := (kept s)(q \<mapsto> m)\<rparr>)"
    using assms new by (auto simp: loaded_def arrived_def accepted_snoc ran_map_upd dest: ranI)
qed

text \<open>The insertion, with the promise about its answer.\<close>

definition fits :: "nat \<Rightarrow> u32 \<Rightarrow> u32 list \<Rightarrow> u32 \<Rightarrow> bool" where
  "fits w b xs q \<longleftrightarrow> 0 < w \<and> q \<notin> set xs \<and> (xs = [] \<longrightarrow> q = b) \<and> (unat (q - b) < w \<or> 2 * w \<le> unat (q - b))"

lemma loaded_ahead:
  assumes "loaded wd w b xs q m s" and "xs = [] \<longrightarrow> q = b"
  shows "ahead s m = unat (q - b)" "window s = w" "known s" "(case expected s of None \<Rightarrow> seqn s m | Some q \<Rightarrow> q) = b"
  using assms by (auto simp: loaded_def arrived_def ahead_def split: if_splits)

lemma insertion:
  assumes "loaded wd w b xs q m s" and "fits w b xs q"
    and "reorder_promise s (Status (Reorder (Reorder_insert buf m)) r)"
    and "s' = reorder_next en s (Status (Reorder (Reorder_insert buf m)) r)"
  shows "r < 0 \<longleftrightarrow> \<not> unat (q - b) < w"
    and "\<not> r < 0 \<Longrightarrow> arrived wd w b (xs @ [q]) s'"
    and "r < 0 \<Longrightarrow> holds s' m \<and> arrived wd w b (xs @ [q]) (s'\<lparr>used := remove1 m (used s')\<rparr>)"
proof -
  have q: "q \<notin> set xs" "xs = [] \<longrightarrow> q = b" "unat (q - b) < w \<or> 2 * w \<le> unat (q - b)" "0 < w"
    using assms(2) by (auto simp: fits_def)
  note at = loaded_ahead [OF assms(1) q(2)]
  show iff: "r < 0 \<longleftrightarrow> \<not> unat (q - b) < w"
    using assms(3) q(3,4) by (auto simp: reorder_promise_def at)
  have seq: "seqn s m = q" using assms(1) by (simp add: loaded_def)
  show "arrived wd w b (xs @ [q]) s'" if "\<not> r < 0"
  proof -
    have in_window: "unat (q - b) < w" using that iff by blast
    then have "s' = s\<lparr>expected := Some b, known := True, kept := (kept s)(q \<mapsto> m)\<rparr>"
      using that loaded_taken(1) [OF assms(1) in_window q(1)]
      by (simp add: assms(4) reorder_next_def Let_def at seq)
    then show ?thesis using loaded_taken(2) [OF assms(1) in_window q(1)] by simp
  qed
  show "holds s' m \<and> arrived wd w b (xs @ [q]) (s'\<lparr>used := remove1 m (used s')\<rparr>)" if "r < 0"
  proof -
    have out: "\<not> unat (q - b) < w" using that iff by blast
    then have "xs \<noteq> []" using q(2,4) by auto
    moreover have "s' = s\<lparr>expected := Some b\<rparr>" using that by (simp add: assms(4) reorder_next_def Let_def at)
    moreover have "holds s m" using loaded_holds [OF assms(1)] .
    ultimately show ?thesis using loaded_refused [OF assms(1) out] by (simp add: holds_def)
  qed
qed

lemma promise_alloc:
  "reorder_promise s (Pointer (Mem (Mbuf_alloc mp)) m) \<longleftrightarrow>
     (length (used s) < 1024 \<longrightarrow> m \<noteq> NULL) \<and> m \<notin> set (used s)"
  by (simp add: reorder_promise_def)

lemma alloc_new:
  assumes "arrived wd w b xs s" and "length xs < 1024" and "reorder_promise s (Pointer (Mem (Mbuf_alloc mp)) m)"
  shows "m \<noteq> NULL" "m \<notin> set (used s)" "holds (s\<lparr>used := m # used s\<rparr>) m"
  using assms arrived_few [OF assms(1)] arrivedD(8) [OF assms(1)] by (auto simp: promise_alloc holds_def)

lemma under_create_packet:
  assumes "arrived (\<not> second) w b xs s" and "length xs < 1024"
  shows "under (reorder_contract e) s (create_packet second e E mp q)
    (\<lambda>m s'. m \<noteq> NULL \<and> loaded (\<not> second) w b xs q m s')"
  unfolding create_packet_def
proof (rule under_pointer)
  fix m
  assume "relies (reorder_contract e) s (Pointer (Mem (Mbuf_alloc mp)) m)"
  then have new: "m \<noteq> NULL" "m \<notin> set (used s)" "holds (s\<lparr>used := m # used s\<rparr>) m"
    using alloc_new [OF assms] by simp_all
  then show "under (reorder_contract e) (becomes (reorder_contract e) s (Pointer (Mem (Mbuf_alloc mp)) m))
      (if m = NULL then ret NULL else do {
         emit (if second then [] else [Did (Mem (Store m 0 (st32 e q)))]);
         act (Mem (Mbuf_set_len m 4));
         act (Mem (Seqn_set m q));
         ret m }) (\<lambda>m s'. m \<noteq> NULL \<and> loaded (\<not> second) w b xs q m s')"
    using loaded_new [OF assms(1) new(2), of q q] loaded_new [OF assms(1) new(2), of "word s m" q]
    by (cases second) (auto intro!: under_emit under_act under_ret appends_intros simp: holds_def)
qed (auto intro!: appends_intros)

lemma under_insert_one:
  assumes "arrived (\<not> second) w b xs s" and "length xs < 1024" and "fits w b xs q"
  shows "under (reorder_contract e) s (insert_one second e E buf mp q)
    (\<lambda>r s'. r = None \<and> arrived (\<not> second) w b (xs @ [q]) s')"
  unfolding insert_one_def
proof (rule under_bind [OF under_create_packet [OF assms(1,2)]])
  fix m s'
  assume m: "m \<noteq> NULL \<and> loaded (\<not> second) w b xs q m s'"
  note ins = insertion [OF conjunct2 [OF m] assms(3) _ refl]
  have "under (reorder_contract e) s' (do {
       r \<leftarrow> rte_reorder_insert E buf m;
       if r < 0 then do { say ''Insert failed for seq=%u'' [PU (unat q)]; rte_pktmbuf_free m; ret None } else ret None })
    (\<lambda>r s'. r = None \<and> arrived (\<not> second) w b (xs @ [q]) s')"
  proof (rule under_status)
    fix r
    assume "relies (reorder_contract e) s' (Status (Reorder (Reorder_insert buf m)) r)"
    then have r: "reorder_promise s' (Status (Reorder (Reorder_insert buf m)) r)" by simp
    show "keeps (reorder_contract e) s' (Status (Reorder (Reorder_insert buf m)) r)"
      using loaded_holds [OF conjunct2 [OF m]] by simp
    show "under (reorder_contract e) (becomes (reorder_contract e) s' (Status (Reorder (Reorder_insert buf m)) r))
       (if r < 0 then do { say ''Insert failed for seq=%u'' [PU (unat q)]; rte_pktmbuf_free m; ret None } else ret None)
       (\<lambda>r s'. r = None \<and> arrived (\<not> second) w b (xs @ [q]) s')"
      using ins(2) [OF r, of e] ins(3) [OF r, of e]
      by (auto intro!: under_say under_act under_ret appends_intros simp: holds_def)
  qed (auto intro!: appends_intros)
  then show "under (reorder_contract e) s' (do {
       say ''Insert seq=%u'' [PU (unat q)];
       if m = NULL then do { emit [Undefined]; ret (Some (-1)) } else do {
       r \<leftarrow> rte_reorder_insert E buf m;
       if r < 0 then do { say ''Insert failed for seq=%u'' [PU (unat q)]; rte_pktmbuf_free m; ret None }
       else ret None } })
    (\<lambda>r s'. r = None \<and> arrived (\<not> second) w b (xs @ [q]) s')"
    using m by (auto intro!: under_say appends_intros)
qed (auto intro!: appends_intros)

lemma under_insert_two:
  assumes "arrived False w b xs s" and "length xs < 1024" and "fits w b xs q" and "unat (q - b) < w"
  shows "under (reorder_contract e) s (insert_two e E buf mp q)
    (\<lambda>r s'. r = None \<and> arrived False w b (xs @ [q]) s')"
  unfolding insert_two_def
proof (rule under_pointer)
  fix m
  assume "relies (reorder_contract e) s (Pointer (Mem (Mbuf_alloc mp)) m)"
  then have new: "m \<noteq> NULL" "m \<notin> set (used s)" "holds (s\<lparr>used := m # used s\<rparr>) m"
    using alloc_new [OF assms(1,2)] by simp_all
  let ?s = "s\<lparr>used := m # used s, word := (word s)(m := q), seqn := (seqn s)(m := q)\<rparr>"
  have l: "loaded False w b xs q m ?s" by (rule loaded_new [OF assms(1) new(2)]) simp
  note ins = insertion [OF l assms(3) _ refl]
  have "under (reorder_contract e) ?s (rte_reorder_insert E buf m \<bind> (\<lambda>r. ret None))
      (\<lambda>r s'. r = None \<and> arrived False w b (xs @ [q]) s')"
  proof (rule under_status)
    fix r
    assume "relies (reorder_contract e) ?s (Status (Reorder (Reorder_insert buf m)) r)"
    then have r: "reorder_promise ?s (Status (Reorder (Reorder_insert buf m)) r)" by simp
    show "keeps (reorder_contract e) ?s (Status (Reorder (Reorder_insert buf m)) r)"
      using loaded_holds [OF l] by simp
    show "under (reorder_contract e) (becomes (reorder_contract e) ?s (Status (Reorder (Reorder_insert buf m)) r)) (ret None)
        (\<lambda>r s'. r = None \<and> arrived False w b (xs @ [q]) s')"
      using ins(2) [OF r, of e] ins(1) [OF r] assms(4) by (auto intro!: under_ret)
  qed (auto intro!: appends_intros)
  then show "under (reorder_contract e) (becomes (reorder_contract e) s (Pointer (Mem (Mbuf_alloc mp)) m))
      (if m = NULL then rte_panic ''alloc failed'' [] \<bind> (\<lambda>x. ret (Some x)) else do {
         act (Mem (Store m 0 (st32 e q)));
         act (Mem (Seqn_set m q));
         say ''Insert seq = %u'' [PU (unat q)];
         r \<leftarrow> rte_reorder_insert E buf m;
         ret None }) (\<lambda>r s'. r = None \<and> arrived False w b (xs @ [q]) s')"
    using new by (auto intro!: under_act under_say appends_intros simp: holds_def)
qed (auto intro!: appends_intros)

text \<open>A whole list of arrivals.\<close>

lemma under_arrivals:
  assumes "\<And>xs q ys s. seqs = xs @ q # ys \<Longrightarrow> arrived wd w b xs s \<Longrightarrow>
      under C s (f q) (\<lambda>r s'. r = None \<and> arrived wd w b (xs @ [q]) s')"
    and "\<And>q. appends (f q)" and "arrived wd w b [] s"
  shows "under C s (for_return f seqs) (\<lambda>r s'. r = None \<and> arrived wd w b seqs s')"
proof -
  let ?I = "\<lambda>ys s. \<exists>xs. seqs = xs @ ys \<and> arrived wd w b xs s"
  have "under C s (for_return f seqs) (\<lambda>r s'. r = None \<and> ?I [] s')"
  proof (rule under_for_return [where I = ?I])
    fix q ys s'
    assume "?I (q # ys) s'"
    then obtain xs where xs: "seqs = xs @ q # ys" "arrived wd w b xs s'" by blast
    show "under C s' (f q) (\<lambda>r s'. r = None \<and> ?I ys s')"
      by (rule under_weaken [OF assms(1) [OF xs]]) (use xs(1) in auto)
  qed (use assms in auto)
  then show ?thesis by (rule under_weaken) auto
qed

section \<open>The drain\<close>

lemma run_from_upto:
  assumes "\<And>i. i < k \<Longrightarrow> K (b + of_nat i) \<noteq> None" and "k \<le> n" and "k < n \<Longrightarrow> K (b + of_nat k) = None"
  shows "run_from K b n = map (\<lambda>i. the (K (b + of_nat i))) [0..<k]"
  using assms
proof (induction n arbitrary: b k)
  case (Suc n)
  show ?case
  proof (cases k)
    case (Suc j)
    then obtain m where m: "K b = Some m" using Suc.prems(1) [of 0] by auto
    have "run_from K (b + 1) n = map (\<lambda>i. the (K (b + 1 + of_nat i))) [0..<j]"
      using Suc.prems Suc Suc.prems(1) [of "Suc i" for i] by (intro Suc.IH) (auto simp: add.assoc)
    then show ?thesis using m unfolding Suc upt_conv_Cons [OF zero_less_Suc] map_Suc_upt [symmetric]
      by (simp add: add.assoc comp_def)
  qed (use Suc.prems(3) in auto)
qed simp

text \<open>The numbers \<open>N\<close> the buffer holds, in a row from \<open>b\<close>; a drain hands out all their packets.\<close>

definition in_a_row :: "nat \<Rightarrow> u32 \<Rightarrow> u32 list \<Rightarrow> nat \<Rightarrow> u32 list \<Rightarrow> bool" where
  "in_a_row w b seqs n N \<longleftrightarrow> set (accepted w b seqs) = set N \<and> distinct N \<and> N \<noteq> [] \<and>
     map (\<lambda>i. b + of_nat i) [0..<length N] = N \<and> length N \<le> n \<and> (length N < n \<longrightarrow> b + of_nat (length N) \<notin> set N)"

lemma in_a_row_nonempty:
  assumes "in_a_row w b seqs n N"
  shows "seqs \<noteq> []"
proof
  assume "seqs = []"
  moreover have "set (accepted w b seqs) = set N" "N \<noteq> []" using assms unfolding in_a_row_def by blast+
  ultimately show False by (simp add: accepted_def)
qed

definition handed_out :: "(reorder_view \<Rightarrow> mbuf \<Rightarrow> u32) \<Rightarrow> u32 list \<Rightarrow> mbuf list \<Rightarrow> reorder_view \<Rightarrow> bool" where
  "handed_out num N ms s \<longleftrightarrow> known s \<and> kept s = Map.empty \<and> leftover s = [] \<and> distinct (used s) \<and>
     set (used s) = set ms \<and> distinct ms \<and>
     (\<exists>past. N = past @ map (num s) ms \<and> shown s = map (\<lambda>q. PU (unat q)) past)"

lemma drained_all:
  assumes "arrived wd w b seqs s" and "in_a_row w b seqs n N"
    and "reorder_promise s (Burst (Reorder (Reorder_drain buf n)) ms)"
    and "s' = reorder_next en s (Burst (Reorder (Reorder_drain buf n)) ms)"
  shows "ms \<noteq> []" and "handed_out seqn N ms s'" and "wd \<Longrightarrow> handed_out word N ms s'"
proof -
  have K: "dom (kept s) = set N" "expected s = Some b"
    using assms(1,2) in_a_row_nonempty [OF assms(2)] by (auto simp: arrived_def in_a_row_def)
  have N: "N \<noteq> []" "map (\<lambda>i. b + of_nat i) [0..<length N] = N" "length N \<le> n" "distinct N"
    "length N < n \<longrightarrow> b + of_nat (length N) \<notin> set N"
    using assms(2) by (auto simp: in_a_row_def)
  have nth: "N ! i = b + of_nat i" if "i < length N" for i
  proof -
    have "N ! i = map (\<lambda>i. b + of_nat i) [0..<length N] ! i" by (simp only: N(2))
    then show ?thesis using that by simp
  qed
  have "ms = run_from (kept s) b n"
    using assms(3) arrivedD(1) [OF assms(1)] by (simp add: reorder_promise_def next_run_def K(2))
  also have "\<dots> = map (\<lambda>i. the (kept s (b + of_nat i))) [0..<length N]"
  proof (rule run_from_upto)
    fix i assume "i < length N"
    then have "b + of_nat i \<in> dom (kept s)" unfolding K(1) using nth nth_mem by metis
    then show "kept s (b + of_nat i) \<noteq> None" by blast
  next
    show "kept s (b + of_nat (length N)) = None" if "length N < n"
      using that N(5) K(1) by (metis domIff)
  qed (rule N(3))
  also have "\<dots> = map (\<lambda>q. the (kept s q)) (map (\<lambda>i. b + of_nat i) [0..<length N])"
    by (simp only: map_map comp_def)
  also have "\<dots> = map (\<lambda>q. the (kept s q)) N" by (simp only: N(2))
  finally have ms: "ms = map (\<lambda>q. the (kept s q)) N" .
  then show "ms \<noteq> []" using N(1) by simp
  have the: "kept s q = Some (the (kept s q))" if "q \<in> set N" for q
    using that K(1) by (metis domD option.sel)
  have nums: "map (seqn s) ms = N" "wd \<Longrightarrow> map (word s) ms = N"
    unfolding ms map_map comp_def by (rule map_idI, erule arrivedD(9,10) [OF assms(1) the], assumption?)+
  have distinct: "distinct ms" using nums(1) N(4) by (metis distinct_map)
  have ran: "set ms = ran (kept s)" unfolding ms using K(1) by (force simp: ran_def dom_def image_iff)
  have "(if kept s q \<in> Some ` set ms then None else kept s q) = None" for q
    using ran by (cases "kept s q") (auto intro: ranI)
  then have s': "s' = s\<lparr>kept := Map.empty, expected := Some (b + of_nat (length ms))\<rparr>"
    by (simp add: assms(4) reorder_next_def K(2) fun_eq_iff)
  have "distinct (used s)" "set (used s) = set ms" "leftover s = []" "known s" "shown s = []"
    using assms(1) ran by (simp_all add: arrived_def)
  then show "handed_out seqn N ms s'" "wd \<Longrightarrow> handed_out word N ms s'"
    using nums distinct by (simp_all add: handed_out_def s')
qed

text \<open>Printing and freeing the packets of a drain.\<close>

lemma under_read_seqn:
  assumes "holds s m" and "under (reorder_contract e) s (f (seqn s m)) Q" and "\<And>v. appends (f v)"
  shows "under (reorder_contract e) s (read_seqn m \<bind> f) Q"
  by (rule under_bind [where P = "\<lambda>v s'. v = seqn s m \<and> s' = s"])
    (use assms in \<open>auto simp: under_def emitted_def last_seen(1) [where en = e]\<close>)

lemma under_read_data:
  assumes "holds s m" and "under (reorder_contract e) s (f (word s m)) Q" and "\<And>v. appends (f v)"
  shows "under (reorder_contract e) s (read_data e m \<bind> f) Q"
  by (rule under_bind [where P = "\<lambda>v s'. v = word s m \<and> s' = s"])
    (use assms in \<open>auto simp: under_def emitted_def last_seen(2)\<close>)

lemma handed_out_next:
  assumes "handed_out num N (m # ms) s" and "\<And>us ls. num (s\<lparr>shown := ls, used := us\<rparr>) = num s"
  shows "holds s m" "holds (s\<lparr>shown := ls\<rparr>) m"
    "handed_out num N ms (s\<lparr>shown := shown s @ [PU (unat (num s m))], used := remove1 m (used s)\<rparr>)"
proof -
  obtain past where past: "N = past @ num s m # map (num s) ms" "shown s = map (\<lambda>q. PU (unat q)) past"
    using assms(1) by (auto simp: handed_out_def)
  show "handed_out num N ms (s\<lparr>shown := shown s @ [PU (unat (num s m))], used := remove1 m (used s)\<rparr>)"
    unfolding handed_out_def assms(2)
    using assms(1) past by (intro conjI exI [of _ "past @ [num s m]"]) (auto simp: handed_out_def)
qed (use assms(1) in \<open>auto simp: handed_out_def holds_def\<close>)

lemma under_output_one:
  assumes "handed_out (if second then seqn else word) N (m # ms) s"
  shows "under (reorder_contract e) s (output_one second e m)
    (\<lambda>_. handed_out (if second then seqn else word) N ms)"
  unfolding output_one_def
  using handed_out_next [OF assms] by (cases second)
    (auto intro!: under_read_seqn under_read_data under_say under_last_act appends_intros)

lemma under_drained_one:
  assumes "handed_out seqn N (m # ms) s"
  shows "under (reorder_contract e) s (drained_one m) (\<lambda>_. handed_out seqn N ms)"
  unfolding drained_one_def
  using handed_out_next [OF assms] by (auto intro!: under_read_seqn under_say under_last_act appends_intros)

text \<open>The first round takes everything, the second finds nothing and ends the loop.\<close>

definition emptied :: "u32 list \<Rightarrow> reorder_view \<Rightarrow> bool" where
  "emptied N s \<longleftrightarrow> known s \<and> kept s = Map.empty \<and> leftover s = [] \<and> used s = [] \<and>
     shown s = map (\<lambda>q. PU (unat q)) N"

lemma handed_out_all: "handed_out num N [] s \<Longrightarrow> emptied N s"
  by (auto simp: handed_out_def emptied_def)

lemma under_first_drain:
  assumes "arrived (\<not> second) w b seqs s" and "in_a_row w b seqs BURST N"
  shows "under (reorder_contract e) s (drain_round second e E buf t) (\<lambda>r s'. (\<exists>t'. r = Inr t') \<and> emptied N s')"
  unfolding drain_round_def
proof (rule under_burst)
  fix ms
  assume "relies (reorder_contract e) s (Burst (Reorder (Reorder_drain buf BURST)) ms)"
  then have p: "reorder_promise s (Burst (Reorder (Reorder_drain buf BURST)) ms)" by simp
  let ?s = "reorder_next e s (Burst (Reorder (Reorder_drain buf BURST)) ms)"
  let ?num = "if second then seqn else word"
  note all = drained_all [OF assms p refl]
  have start: "handed_out ?num N ms ?s" using all(2,3) by simp
  have loop: "under (reorder_contract e) ?s (for_each (output_one second e) ms) (\<lambda>_. handed_out ?num N [])"
    by (rule under_for_each [where I = "handed_out ?num N", OF under_output_one _ start])
      (assumption, rule appends_reorder)
  have tail: "under (reorder_contract e) ?s (do { for_each (output_one second e) ms; ret (Inr (t + length ms)) })
      (\<lambda>r s'. (\<exists>t'. r = Inr t') \<and> emptied N s')"
    by (rule under_bind [OF loop]) (auto intro: handed_out_all intro!: under_ret)
  show "under (reorder_contract e) (becomes (reorder_contract e) s (Burst (Reorder (Reorder_drain buf BURST)) ms))
     (do {
       emit (if second then [Printf ''nb_drains:%d'' [PD (int (length ms))]] else []);
       if ms = [] then ret (Inl t) else do {
       emit (if second then [] else [Printf ''nb_drains:%d'' [PD (int (length ms))]]);
       say ''nb_drain:%d'' [PD (int (length ms))];
       for_each (output_one second e) ms;
       ret (Inr (t + length ms)) } }) (\<lambda>r s'. (\<exists>t'. r = Inr t') \<and> emptied N s')"
    using tail all(1) by (cases second) (auto intro!: under_emit under_say appends_intros)
qed (auto intro!: appends_intros)

lemma under_last_drain:
  assumes "emptied N s"
  shows "under (reorder_contract e) s (drain_round second e E buf t) (\<lambda>r s'. (\<exists>t'. r = Inl t') \<and> emptied N s')"
  unfolding drain_round_def
proof (rule under_burst)
  fix ms
  assume "relies (reorder_contract e) s (Burst (Reorder (Reorder_drain buf BURST)) ms)"
  moreover have "run_from Map.empty q n = []" for q n by (cases n) simp_all
  ultimately have "ms = []"
    using assms by (simp add: emptied_def reorder_promise_def next_run_def split: option.splits)
  moreover have "emptied N (reorder_next e s (Burst (Reorder (Reorder_drain buf BURST)) []))"
    using assms by (simp add: emptied_def reorder_next_def)
  ultimately show "under (reorder_contract e) (becomes (reorder_contract e) s (Burst (Reorder (Reorder_drain buf BURST)) ms))
     (do {
       emit (if second then [Printf ''nb_drains:%d'' [PD (int (length ms))]] else []);
       if ms = [] then ret (Inl t) else do {
       emit (if second then [] else [Printf ''nb_drains:%d'' [PD (int (length ms))]]);
       say ''nb_drain:%d'' [PD (int (length ms))];
       for_each (output_one second e) ms;
       ret (Inr (t + length ms)) } }) (\<lambda>r s'. (\<exists>t'. r = Inl t') \<and> emptied N s')"
    by (cases second) (auto intro!: under_emit under_ret appends_intros simp: emptied_def)
qed (auto intro!: appends_intros)

lemma under_drain_loop:
  assumes "arrived (\<not> second) w b seqs s" and "in_a_row w b seqs BURST N" and "2 \<le> n"
  shows "under (reorder_contract e) s (rounds n (drain_round second e E buf) 0)
    (\<lambda>r s'. (\<exists>t'. r = Inl t') \<and> emptied N s')"
proof -
  obtain k where n: "n = Suc (Suc k)" using assms(3) by (metis add_2_eq_Suc le_Suc_ex)
  have second: "under (reorder_contract e) s' (rounds (Suc k) (drain_round second e E buf) t)
      (\<lambda>r s'. (\<exists>t'. r = Inl t') \<and> emptied N s')" if "emptied N s'" for s' t
    unfolding rounds.simps
    by (rule under_bind [OF under_last_drain [OF that]]) (auto intro!: under_ret appends_intros)
  show ?thesis
    unfolding n rounds.simps(2) [of "Suc k"]
    by (rule under_bind [OF under_first_drain [OF assms(1,2)]])
      (auto simp del: rounds.simps intro!: second appends_intros)
qed

section \<open>The whole programs\<close>

definition all_fit :: "nat \<Rightarrow> u32 \<Rightarrow> u32 list \<Rightarrow> bool" where
  "all_fit w b seqs \<longleftrightarrow> length seqs < 1024 \<and> (\<forall>xs q ys. seqs = xs @ q # ys \<longrightarrow> fits w b xs q)"

lemma all_fitD:
  assumes "all_fit w b seqs" and "seqs = xs @ q # ys"
  shows "fits w b xs q" "length xs < 1024"
  using assms by (auto simp: all_fit_def)

lemma arrived_none: "known s \<Longrightarrow> window s = w \<Longrightarrow> leftover s = [] \<Longrightarrow> shown s = [] \<Longrightarrow> expected s = None \<Longrightarrow>
    kept s = Map.empty \<Longrightarrow> used s = [] \<Longrightarrow> arrived wd w b [] s"
  by (simp add: arrived_def accepted_def)

lemma under_reorder_demo:
  assumes "all_fit w b seqs" and "in_a_row w b seqs BURST N" and "2 \<le> n"
  shows "under (reorder_contract e) untouched (reorder_demo second e w seqs E n)
    (\<lambda>r s. r = Some 1 \<and> used s = [] \<and> leftover s = [] \<or> r = Some 0 \<and> emptied N s)"
  (is "under _ _ _ ?Q")
proof -
  have finish: "under (reorder_contract e) s (do {
      say ''Draining reordered packets:'' [];
      over \<leftarrow> rounds n (drain_round second e E buf) 0;
      case over of Inr total_drained \<Rightarrow> ret None | Inl total_drained \<Rightarrow> do {
      say ''Total packets drained: %d'' [PD (int total_drained)]; ret (Some 0) } }) ?Q"
    if "arrived (\<not> second) w b seqs s" for s buf
  proof (rule under_say)
    have "arrived (\<not> second) w b seqs (becomes (reorder_contract e) s (Printf ''Draining reordered packets:'' []))"
      using that by simp
    from under_drain_loop [OF this assms(2,3)]
    show "under (reorder_contract e) (becomes (reorder_contract e) s (Printf ''Draining reordered packets:'' [])) (do {
      over \<leftarrow> rounds n (drain_round second e E buf) 0;
      case over of Inr total_drained \<Rightarrow> ret None | Inl total_drained \<Rightarrow> do {
      say ''Total packets drained: %d'' [PD (int total_drained)]; ret (Some 0) } }) ?Q"
      by (rule under_bind) (auto intro!: under_say under_ret appends_intros simp: emptied_def)
  qed (auto intro!: appends_intros)
  have arrive: "under (reorder_contract e) s (do {
      stop \<leftarrow> for_return (insert_one second e E buf mp) seqs;
      case stop of Some x \<Rightarrow> ret (Some x) | None \<Rightarrow> do {
      say ''Draining reordered packets:'' [];
      over \<leftarrow> rounds n (drain_round second e E buf) 0;
      case over of Inr total_drained \<Rightarrow> ret None | Inl total_drained \<Rightarrow> do {
      say ''Total packets drained: %d'' [PD (int total_drained)]; ret (Some 0) } } }) ?Q"
    if "arrived (\<not> second) w b [] s" for s mp buf
    by (rule under_bind [OF under_arrivals [OF under_insert_one _ that]])
      (use all_fitD [OF assms(1)] finish in \<open>auto intro!: appends_intros\<close>)
  show ?thesis
    unfolding reorder_demo_def
    by (intro under_status under_if under_exit_some under_pointer under_say arrive arrived_none appends_intros)
      (simp_all add: untouched_def)
qed

lemma under_reorder_2:
  assumes "all_fit 8 b seq_list" and "in_a_row 8 b seq_list 8 N" and "accepted 8 b seq_list = seq_list"
  shows "under (reorder_contract e) untouched (reorder_2_main e E)
    (\<lambda>r s. r = -1 \<and> used s = [] \<and> leftover s = [] \<or> r = 0 \<and> emptied N s)"
  (is "under _ _ _ ?Q")
proof -
  have drain: "under (reorder_contract e) s (do {
       ms \<leftarrow> rte_reorder_drain E buf 8; for_each drained_one ms; act (Reorder (Reorder_free buf)); ret 0 }) ?Q"
    if "arrived False 8 b seq_list s" for s buf
  proof (rule under_burst)
    fix ms
    assume "relies (reorder_contract e) s (Burst (Reorder (Reorder_drain buf 8)) ms)"
    then have p: "reorder_promise s (Burst (Reorder (Reorder_drain buf 8)) ms)" by simp
    have "under (reorder_contract e) (reorder_next e s (Burst (Reorder (Reorder_drain buf 8)) ms)) (for_each drained_one ms)
        (\<lambda>_. handed_out seqn N [])"
      by (rule under_for_each [where I = "handed_out seqn N"])
        (auto intro!: under_drained_one appends_intros drained_all(2) [OF that assms(2) p refl])
    then have loop: "under (reorder_contract e) (reorder_next e s (Burst (Reorder (Reorder_drain buf 8)) ms))
        (for_each drained_one ms) (\<lambda>_. emptied N)"
      by (rule under_weaken) (rule handed_out_all)
    show "under (reorder_contract e) (becomes (reorder_contract e) s (Burst (Reorder (Reorder_drain buf 8)) ms))
        (do { for_each drained_one ms; act (Reorder (Reorder_free buf)); ret 0 }) ?Q"
      unfolding reorder_contract_sel
      by (rule under_bind [OF loop]) (auto intro!: under_act under_ret appends_intros simp: emptied_def reorder_next_def)
  qed (auto intro!: appends_intros)
  have small: "unat (q - b) < 8" if "seq_list = xs @ q # ys" for xs q ys
  proof -
    have "q \<in> set seq_list" using that by (metis in_set_conv_decomp)
    then have "q \<in> set (accepted 8 b seq_list)" by (simp only: assms(3))
    then show ?thesis by (simp add: accepted_def)
  qed
  have arrive: "under (reorder_contract e) s (do {
     stop \<leftarrow> for_return (insert_two e E buf mp) seq_list;
     case stop of Some x \<Rightarrow> ret x | None \<Rightarrow> do {
     ms \<leftarrow> rte_reorder_drain E buf 8;
     for_each drained_one ms;
     act (Reorder (Reorder_free buf));
     ret 0 } }) ?Q" if "arrived False 8 b [] s" for s mp buf
    by (rule under_bind [OF under_arrivals [OF under_insert_two _ that]])
      (use all_fitD [OF assms(1)] small drain in \<open>auto intro!: appends_intros\<close>)
  show ?thesis
    unfolding reorder_2_main_def
    by (intro under_status under_if under_panic under_pointer arrive arrived_none appends_intros)
      (simp_all add: untouched_def)
qed

section \<open>Properties\<close>

text \<open>The three lists of numbers: which are accepted, and in which order they come out.\<close>

lemma lists_fit:
  "all_fit 16 0 [0, 2, 1, 4, 3]" "all_fit 4 10 [10, 35, 11, 12]" "all_fit 8 0 seq_list"
  by (auto simp: all_fit_def fits_def seq_list_def Cons_eq_append_conv)

lemma lists_in_a_row:
  "in_a_row 16 0 [0, 2, 1, 4, 3] BURST [0, 1, 2, 3, 4]" "in_a_row 4 10 [10, 35, 11, 12] BURST [10, 11, 12]"
  "in_a_row 8 0 seq_list 8 [0, 1, 2, 3, 4, 5, 6, 7]"
  by (auto simp: in_a_row_def accepted_def seq_list_def BURST_def upt_rec)

lemma seq_list_accepted: "accepted 8 0 seq_list = seq_list"
  by (simp add: accepted_def seq_list_def)

text \<open>What the contract says of the whole run of a program.\<close>

definition keeps_promises :: "endian \<Rightarrow> event list \<Rightarrow> bool" where
  "keeps_promises en tr \<longleftrightarrow> mon_safe (library (reorder_contract en)) untouched tr"

definition touches_its_own :: "endian \<Rightarrow> event list \<Rightarrow> bool" where
  "touches_its_own en tr \<longleftrightarrow> mon_safe (client (reorder_contract en)) untouched tr"

lemma run_of_contract:
  assumes "under (reorder_contract e) untouched m (\<lambda>r s. P r \<and> used s = [] \<and> leftover s = [] \<or> R r \<and> emptied N s)"
    and "keeps_promises e (final m [])"
  shows "touches_its_own e (final m [])" "mset (freed (final m [])) = mset (allocated (final m []))"
    "P (result m []) \<or> R (result m []) \<and> outputs (final m []) = map (\<lambda>q. PU (unat q)) N"
proof -
  let ?s = "mon_after (library (reorder_contract e)) untouched (final m [])"
  have at: "mon_safe (client (reorder_contract e)) untouched (final m [])"
    "P (result m []) \<and> used ?s = [] \<and> leftover ?s = [] \<or> R (result m []) \<and> emptied N ?s"
    using underD [of "reorder_contract e" m] assms by (simp_all add: keeps_promises_def seen_def)
  then show "touches_its_own e (final m [])" by (simp add: touches_its_own_def)
  have "used ?s = [] \<and> leftover ?s = []" using at(2) by (auto simp: emptied_def)
  then show "mset (freed (final m [])) = mset (allocated (final m []))"
    using packets_balance [OF at(1)] by (simp add: untouched_def)
  show "P (result m []) \<or> R (result m []) \<and> outputs (final m []) = map (\<lambda>q. PU (unat q)) N"
    using at(2) shown_outputs [of e untouched "final m []"] by (auto simp: emptied_def untouched_def)
qed

text \<open>
  C11. As long as the library keeps its promises, the three reorder programs free every packet they
  allocate exactly once and touch none they do not hold: not after it is freed, nor while it is in
  the buffer.  Unless they end early because a set-up call failed, they print the numbers in order:
  \<open>reorder_packet\<close> 0 to 4, \<open>reorder_packet2\<close> 10, 11, 12 (35 is refused, and its packet freed at once) and
  \<open>reorder_2\<close> 0 to 7.  Two rounds are enough for the drain loops of the first two to end.
\<close>

theorem reorder_frees_once:
  assumes "2 \<le> n" and "one = reorder_main e E1 n" and "two = reorder2_main e E2 n" and "three = reorder_2_main e E3"
    and "keeps_promises e (final one [])" and "keeps_promises e (final two [])" and "keeps_promises e (final three [])"
  shows "mset (freed (final one [])) = mset (allocated (final one [])) \<and> touches_its_own e (final one []) \<and>
     (result one [] = Some 1 \<or> result one [] = Some 0 \<and> outputs (final one []) = map PU [0, 1, 2, 3, 4]) \<and>
     mset (freed (final two [])) = mset (allocated (final two [])) \<and> touches_its_own e (final two []) \<and>
     (result two [] = Some 1 \<or> result two [] = Some 0 \<and> outputs (final two []) = map PU [10, 11, 12]) \<and>
     mset (freed (final three [])) = mset (allocated (final three [])) \<and> touches_its_own e (final three []) \<and>
     (result three [] = -1 \<or> result three [] = 0 \<and> outputs (final three []) = map PU [0, 1, 2, 3, 4, 5, 6, 7])"
proof -
  have "under (reorder_contract e) untouched one
      (\<lambda>r s. r = Some 1 \<and> used s = [] \<and> leftover s = [] \<or> r = Some 0 \<and> emptied [0, 1, 2, 3, 4] s)"
    unfolding assms reorder_main_def by (rule under_reorder_demo [OF lists_fit(1) lists_in_a_row(1) assms(1)])
  note 1 = run_of_contract [OF this assms(5)]
  have "under (reorder_contract e) untouched two
      (\<lambda>r s. r = Some 1 \<and> used s = [] \<and> leftover s = [] \<or> r = Some 0 \<and> emptied [10, 11, 12] s)"
    unfolding assms reorder2_main_def by (rule under_reorder_demo [OF lists_fit(2) lists_in_a_row(2) assms(1)])
  note 2 = run_of_contract [OF this assms(6)]
  have "under (reorder_contract e) untouched three
      (\<lambda>r s. r = -1 \<and> used s = [] \<and> leftover s = [] \<or> r = 0 \<and> emptied [0, 1, 2, 3, 4, 5, 6, 7] s)"
    unfolding assms by (rule under_reorder_2 [OF lists_fit(3) lists_in_a_row(3) seq_list_accepted])
  note 3 = run_of_contract [OF this assms(7)]
  show ?thesis using 1 2 3 by simp
qed

text \<open>
  A library that keeps its promises to all three: each allocation has its own address, 35 is refused,
  and the drains hand the packets out in the order of their numbers.
\<close>

definition at_call :: "(nat \<times> 'a) list \<Rightarrow> 'a \<Rightarrow> nat \<Rightarrow> 'a" where
  "at_call xs d t = (case map_of xs t of None \<Rightarrow> d | Some x \<Rightarrow> x)"

definition reorder_env :: env where
  "reorder_env = good_env\<lparr>
     pointer := \<lambda>t c. at_call [(3, 98), (4, 101), (9, 102), (10, 103), (14, 104), (16, 105), (19, 106), (21, 107), (22, 108),
       (24, 109), (28, 110), (29, 111), (34, 112), (39, 113)] 99 t,
     status := \<lambda>t c. if c = Reorder (Reorder_insert 99 102) then -1 else 0,
     burst := \<lambda>t c. at_call [(27, [101, 105, 107]), (35, [101, 105, 103, 110, 108]),
       (44, [101, 104, 102, 109, 106, 112, 111, 113])] [] t\<rparr>"

lemmas reorder_run = reorder_main_def reorder2_main_def reorder_2_main_def reorder_demo_def insert_one_def insert_two_def
  create_packet_def drain_round_def output_one_def drained_one_def seq_list_def reorder_env_def NULL_def at_call_def last_seqn_def last_data_def

lemma two_rounds: "rounds 2 body v = rounds (Suc (Suc 0)) body v" by (simp only: numeral_2_eq_2)

lemma promise_simps:
  "reorder_promise s (Printf f as)" "reorder_promise s (Status (Eal ec) r)" "reorder_promise s (Status (Mem mc) r)"
  "reorder_promise s (Did c)" "reorder_promise s (Access m)" "reorder_promise s (Pointer (Mem (Pool_create nm k c')) p)"
  "reorder_promise s (Pointer (Reorder rc) p)"
  "reorder_promise s (Pointer (Mem (Mbuf_alloc mp)) m) = ((length (used s) < 1024 \<longrightarrow> m \<noteq> NULL) \<and> m \<notin> set (used s))"
  "reorder_promise s (Status (Reorder (Reorder_insert b m)) r) = (known s \<longrightarrow>
       (ahead s m < window s \<longrightarrow> 0 \<le> r) \<and> (2 * window s \<le> ahead s m \<longrightarrow> r < 0))"
  "reorder_promise s (Burst (Reorder (Reorder_drain b n)) ms) = (known s \<longrightarrow> ms = next_run s n)"
  by (simp_all add: reorder_promise_def)

lemma reorder_next_library:
  "reorder_next en s (Status (Reorder (Reorder_insert b m)) r) =
     (if r < 0 then s\<lparr>expected := Some (case expected s of None \<Rightarrow> seqn s m | Some q \<Rightarrow> q)\<rparr>
      else s\<lparr>expected := Some (case expected s of None \<Rightarrow> seqn s m | Some q \<Rightarrow> q),
        known := (known s \<and> ahead s m < window s \<and> kept s (seqn s m) = None), kept := (kept s)(seqn s m \<mapsto> m)\<rparr>)"
  "reorder_next en s (Burst (Reorder (Reorder_drain b n)) ms) =
     s\<lparr>kept := (\<lambda>q. if kept s q \<in> Some ` set ms then None else kept s q),
       expected := map_option (\<lambda>q. q + of_nat (length ms)) (expected s)\<rparr>"
  by (simp_all add: reorder_next_def)

lemma run_from_numeral:
  "run_from K b (numeral k) = (case K b of None \<Rightarrow> [] | Some m \<Rightarrow> m # run_from K (b + 1) (pred_numeral k))"
  by (simp add: numeral_eq_Suc)

lemmas promise_run = promise_simps reorder_next_library run_from_numeral next_run_def ahead_def BURST_def

lemma reorder_kept:
  "keeps_promises Little (final (reorder_main Little reorder_env 2) [])"
  "keeps_promises Little (final (reorder2_main Little reorder_env 2) [])"
  "keeps_promises Little (final (reorder_2_main Little reorder_env) [])"
  by (simp_all add: reorder_run two_rounds keeps_promises_def promise_run untouched_def)

theorem reorder_frees_once_witness:
  "outputs (final (reorder_main Little reorder_env 2) []) = map PU [0, 1, 2, 3, 4] \<and>
   mset (freed (final (reorder2_main Little reorder_env 2) [])) = {#101, 102, 105, 107#} \<and>
   outputs (final (reorder_2_main Little reorder_env) []) = map PU [0, 1, 2, 3, 4, 5, 6, 7]"
proof -
  have "result (reorder_main Little reorder_env 2) [] \<noteq> Some 1"
    "allocated (final (reorder2_main Little reorder_env 2) []) = [101, 102, 105, 107]"
    "result (reorder_2_main Little reorder_env) [] \<noteq> -1"
    by (simp_all add: reorder_run two_rounds allocated_def)
  then show ?thesis
    using reorder_frees_once [OF order_refl refl refl refl reorder_kept] by simp
qed

text \<open>
  \<open>reorder_2\<close> does not look at the answer of the insertion.  With its eight numbers that does no harm;
  if the library refuses one (here the third) all the same, its packet is never freed.
\<close>

lemma reorder_2_loses_refused:
  assumes "E = reorder_env\<lparr>status := \<lambda>t c. if c = Reorder (Reorder_insert 98 104) then -1 else 0, burst := \<lambda>t c. []\<rparr>"
  shows "104 \<in> set (allocated (final (reorder_2_main Little E) [])) \<and>
    104 \<notin> set (freed (final (reorder_2_main Little E) [])) \<and>
    Status (Reorder (Reorder_insert 98 104)) (-1) \<in> set (final (reorder_2_main Little E) [])"
  by (simp add: assms reorder_run allocated_def)

end
