(* ===== verification/Mp_Messages.thy ===== *)
theory Mp_Messages
  imports Trace_Logic
begin

text \<open>
  Requests and replies between processes: \<open>Message_Passing_DPDK/\<close>, \<open>Multiple_Msg_Passing/\<close> and
  \<open>Multiple_Sender_MP/\<close>.  The primary process registers a callback that answers each request, the
  secondary processes send requests and print the replies.

  The channel belongs to the DPDK library: a request returns a status and the parameters of the
  replies, both answers of the environment.  A C string in a buffer is modelled by its bytes.
\<close>

section \<open>C strings\<close>

definition NUL :: char where "NUL = CHR 0x00"

text \<open>\<open>snprintf(buf, n, \<dots>)\<close> writes at most \<open>n - 1\<close> characters and a NUL.\<close>

definition snprintf :: "nat \<Rightarrow> string \<Rightarrow> string" where
  "snprintf n s = take (n - 1) s"

text \<open>\<open>len_param = strlen(s) + 1; memcpy(param, s, len_param)\<close>, and \<open>%s\<close> on the other side.\<close>

definition param_of :: "string \<Rightarrow> string" where
  "param_of s = s @ [NUL]"

definition c_str :: "string \<Rightarrow> string" where
  "c_str bs = takeWhile (\<lambda>c. c \<noteq> NUL) bs"

definition digit :: "nat \<Rightarrow> char" where
  "digit n = char_of (48 + n)"

fun dec_nat :: "nat \<Rightarrow> string" where
  "dec_nat n = (if n < 10 then [digit n] else dec_nat (n div 10) @ [digit (n mod 10)])"

declare dec_nat.simps [simp del]

text \<open>\<open>%d\<close>.\<close>

definition dec :: "int \<Rightarrow> string" where
  "dec v = (if v < 0 then CHR ''-'' # dec_nat (nat (- v)) else dec_nat (nat v))"

lemma c_str_param: "NUL \<notin> set s \<Longrightarrow> c_str (param_of s) = s"
  by (induction s) (auto simp: c_str_def param_of_def)

lemma digit_not_NUL: "n < 10 \<Longrightarrow> digit n \<noteq> NUL"
proof -
  assume "n < 10"
  have "of_char (digit n) = (48 + n :: nat)" using \<open>n < 10\<close> by (simp add: digit_def of_char_of)
  then show ?thesis by (auto simp: NUL_def)
qed

lemma dec_nat_no_NUL: "NUL \<notin> set (dec_nat n)"
proof (induction n rule: dec_nat.induct)
  case (1 n)
  then show ?case using digit_not_NUL [of n] digit_not_NUL [of "n mod 10"]
    by (subst dec_nat.simps) (auto simp: eq_commute)
qed

lemma dec_no_NUL: "NUL \<notin> set (dec v)"
  using dec_nat_no_NUL by (auto simp: dec_def NUL_def)

lemma dec_nat_length: "n < 10 ^ Suc k \<Longrightarrow> length (dec_nat n) \<le> Suc k"
proof (induction k arbitrary: n)
  case 0
  then show ?case by (simp add: dec_nat.simps)
next
  case (Suc k)
  show ?case
  proof (cases "n < 10")
    case False
    have "n div 10 < 10 ^ Suc k" using Suc.prems by (simp add: less_mult_imp_div_less mult.commute)
    then show ?thesis using Suc.IH [of "n div 10"] False by (subst dec_nat.simps) simp
  qed (simp add: dec_nat.simps)
qed

section \<open>The primary processes\<close>

definition INT_MAX :: int where "INT_MAX = 2 ^ 31 - 1"

definition response :: "int \<Rightarrow> string" where
  "response k = ''Response#'' @ dec k @ '': packets='' @ dec (k * 1024) @ '', bytes='' @ dec (k * 65536)"

text \<open>
  The callback of \<open>Multiple_Msg_Passing/prim.c\<close> and \<open>Multiple_Sender_MP/prim.c\<close>; the argument is
  the request counter, the result is the new counter with the return value.  A product that does
  not fit an \<open>int\<close> has no meaning in C.  The programs differ in the indentation
  of two lines, and the first of them sleeps.
\<close>

definition mp_callback :: "env \<Rightarrow> string \<Rightarrow> bool \<Rightarrow> string \<times> string \<Rightarrow> int \<Rightarrow> (int \<times> int) io" where
  "mp_callback E indent sleeps m count = (case m of (name, param) \<Rightarrow> do {
     let req_num = count + 1;
     say ''[PRIMARY] Request #%d received from secondary'' [PD req_num];
     say (indent @ ''Message: %s'') [PS (c_str name)];
     say (indent @ ''Payload: %s'') [PS (c_str param)];
     emit (if req_num * 65536 \<le> INT_MAX then [] else [Undefined]);
     let stats = snprintf 256 (response req_num);
     say ''[PRIMARY] Sending reply to secondary: %s'' [PS stats];
     r \<leftarrow> rte_mp_reply E (snprintf 64 ''get_stats'') (param_of stats);
     if r < 0 then do { say ''[PRIMARY] Failed to send reply'' []; ret (req_num, -1) } else do {
     emit (if sleeps then [Did (Eal (Sleep_us 5000000))] else []);
     ret (req_num, 0) } })"

definition multi_callback :: "env \<Rightarrow> string \<times> string \<Rightarrow> int \<Rightarrow> (int \<times> int) io" where
  "multi_callback E = mp_callback E [] True"

definition sender_callback :: "env \<Rightarrow> string \<times> string \<Rightarrow> int \<Rightarrow> (int \<times> int) io" where
  "sender_callback E = mp_callback E ''           '' False"

text \<open>The callback of \<open>Message_Passing_DPDK/prim.c\<close>, which has one answer for all.\<close>

definition mp_callback_tarun :: "env \<Rightarrow> string \<times> string \<Rightarrow> int io" where
  "mp_callback_tarun E m = do {
     say ''[PRIMARY] Received request: %s'' [PS (c_str (fst m))];
     r \<leftarrow> rte_mp_reply E (snprintf 64 ''tarun'') (param_of ''tarun'');
     emit (if r < 0 then [Printf ''[PRIMARY] Failed to send reply'' []] else []);
     say ''[PRIMARY] Sent Msg Successfully'' [];
     ret 0 }"

text \<open>The library calls the callback for each message as it arrives.\<close>

fun serve :: "env \<Rightarrow> string \<Rightarrow> bool \<Rightarrow> (string \<times> string) list \<Rightarrow> int \<Rightarrow> int io" where
  "serve E indent sleeps [] count = ret count"
| "serve E indent sleeps (m # ms) count = mp_callback E indent sleeps m count \<bind> (\<lambda>r. serve E indent sleeps ms (fst r))"

definition tarun_main :: "env \<Rightarrow> int option io" where
  "tarun_main E = do {
     r \<leftarrow> rte_eal_init E;
     if r < 0 then do { say ''Error in EAL Init'' []; ret (Some 1) } else do {
     say ''[PRIMARY] Started. Registering callback...'' [];
     r \<leftarrow> rte_mp_action_register E ''tarun'';
     if r < 0 then do { say ''Failed to register MP action'' []; ret (Some 1) } else do {
     say ''[PRIMARY] Waiting for messages...'' [];
     ret None } } }"

definition primary_main :: "env \<Rightarrow> int option io" where
  "primary_main E = do {
     r \<leftarrow> rte_eal_init E;
     if r < 0 then do { say ''Error in EAL Init'' []; ret (Some 1) } else do {
     say ''=============================================='' [];
     say ''[PRIMARY] Multi-Sender Receiver Started'' [];
     say ''=============================================='' [];
     say ''Registering callback for '%s'...'' [PS ''get_stats''];
     r \<leftarrow> rte_mp_action_register E ''get_stats'';
     if r < 0 then do { say ''Failed to register MP action'' []; ret (Some 1) } else do {
     say ''[PRIMARY] Ready to receive messages from multiple secondaries...'' [];
     say ''----------------------------------------------'' [];
     ret None } } }"

text \<open>The main functions of the two programs with a counter are the same.\<close>

definition multi_primary_main :: "env \<Rightarrow> int option io" where "multi_primary_main = primary_main"
definition sender_primary_main :: "env \<Rightarrow> int option io" where "sender_primary_main = primary_main"

section \<open>The secondary processes\<close>

definition print_replies :: "string \<Rightarrow> string list \<Rightarrow> unit io" where
  "print_replies fmt rs = for_each (\<lambda>(j, r). say fmt [PD (int j), PS (c_str r)]) (enumerate 0 rs)"

definition tarun_sec_main :: "env \<Rightarrow> int io" where
  "tarun_sec_main E = do {
     r \<leftarrow> rte_eal_init E;
     if r < 0 then do { say ''Error in EAL Init'' []; ret 1 } else do {
     say ''[SECONDARY-] Sending request to primary...'' [];
     r \<leftarrow> rte_mp_request_sync E (snprintf 64 ''tarun'') [];
     rs \<leftarrow> replies_to E (Mp (Mp_request_sync (snprintf 64 ''tarun'') []));
     if r < 0 then do { say ''[SECONDARY] Failed to send request or receive reply'' []; ret 1 } else do {
     sleep_us 10000000;
     say ''[SECONDARY] Received %d replies:'' [PD (int (length rs))];
     print_replies ''  Reply %d: %s'' rs;
     say ''[SECONDARY] Done!'' [];
     ret 0 } } }"

text \<open>One of the three requests of \<open>Multiple_Msg_Passing/sec.c\<close>.\<close>

definition payload1 :: "int \<Rightarrow> nat \<Rightarrow> string" where
  "payload1 sender_id i = snprintf 256 (''Request from SECONDARY-'' @ dec sender_id @ '', iteration '' @ dec (int i))"

definition send_request :: "env \<Rightarrow> int \<Rightarrow> nat \<Rightarrow> unit io" where
  "send_request E sender_id i = do {
     say ''[SECONDARY-%d] Sending request #%d to primary...'' [PD sender_id, PD (int i)];
     r \<leftarrow> rte_mp_request_sync E (snprintf 64 ''get_stats'') (param_of (payload1 sender_id i));
     rs \<leftarrow> replies_to E (Mp (Mp_request_sync (snprintf 64 ''get_stats'') (param_of (payload1 sender_id i))));
     if r < 0 then say ''[SECONDARY-%d] Failed to send request or receive reply'' [PD sender_id] else do {
     say ''[SECONDARY-%d] Received %d replies:'' [PD sender_id, PD (int (length rs))];
     print_replies ''  Reply %d: %s'' rs;
     act (Mp Mp_free_msgs);
     sleep_us 5000000 } }"

definition multi_sec_main :: "env \<Rightarrow> int io" where
  "multi_sec_main E = do {
     r \<leftarrow> rte_eal_init E;
     if r < 0 then do { say ''Error in EAL Init'' []; ret 1 } else do {
     pid \<leftarrow> ask_count E (Eal Getpid);
     let sender_id = int (pid mod 1000);
     say ''=============================================='' [];
     say ''[SECONDARY-%d] Started'' [PD sender_id];
     say ''=============================================='' [];
     for_each (send_request E sender_id) [1, 2, 3];
     say ''[SECONDARY-%d] All requests completed. Exiting.'' [PD sender_id];
     say ''=============================================='' [];
     ret 0 } }"

text \<open>
  \<open>Multiple_Sender_MP/sec.c\<close> tries each request up to three times and looks at the flag
  \<open>force_quit\<close>, which its signal handler sets: \<open>q\<close> gives the flag at each point of the trace.
\<close>

definition MAX_RETRIES :: nat where "MAX_RETRIES = 3"

definition sender_signal_handler :: "int \<Rightarrow> event list \<times> bool" where
  "sender_signal_handler signum =
     (if signum = SIGINT \<or> signum = SIGTERM
      then ([Printf ''Signal %d received, preparing to exit...'' [PD signum]], True) else ([], False))"

definition read_quit :: "(nat \<Rightarrow> bool) \<Rightarrow> bool io" where
  "read_quit q = State (\<lambda>h. (q (length h), h))"

lemma run_read_quit [simp, io_simps]:
  "result (read_quit q) h = q (length h)" "final (read_quit q) h = h"
  by (simp_all add: result_def final_def read_quit_def)

lemma appends_read_quit [simp, appends_intros]: "appends (read_quit q)"
  by (simp add: appends_def)

definition payload2 :: "int \<Rightarrow> nat \<Rightarrow> nat \<Rightarrow> string" where
  "payload2 sender_id lcore_id i = snprintf 256 (''Request from SECONDARY-'' @ dec sender_id @
     '' (lcore '' @ dec (int lcore_id) @ ''), iteration '' @ dec (int i))"

definition retry_note :: "int \<Rightarrow> nat \<Rightarrow> event list" where
  "retry_note sender_id retry = (if retry > 0 then [Printf ''[SECONDARY-%d] Retry attempt %d/%d...''
     [PD sender_id, PD (int retry), PD (int MAX_RETRIES)], Did (Eal (Sleep_us 1000000))] else [])"

text \<open>The retry loop with \<open>k\<close> attempts left of \<open>retry + k\<close>; the replies, or nothing.\<close>

fun try_request :: "env \<Rightarrow> (nat \<Rightarrow> bool) \<Rightarrow> int \<Rightarrow> string \<Rightarrow> nat \<Rightarrow> nat \<Rightarrow> string list option io" where
  "try_request E q sender_id payload retry 0 = ret None"
| "try_request E q sender_id payload retry (Suc k) = do {
     quit \<leftarrow> read_quit q;
     if quit then ret None else do {
     emit (retry_note sender_id retry);
     r \<leftarrow> rte_mp_request_sync E (snprintf 64 ''get_stats'') (param_of payload);
     rs \<leftarrow> replies_to E (Mp (Mp_request_sync (snprintf 64 ''get_stats'') (param_of payload)));
     if r < 0 then do {
       say ''[SECONDARY-%d] Failed to send request (attempt %d)'' [PD sender_id, PD (int (retry + 1))];
       try_request E q sender_id payload (retry + 1) k }
     else ret (Some rs) } }"

definition sender_request :: "env \<Rightarrow> (nat \<Rightarrow> bool) \<Rightarrow> int \<Rightarrow> nat \<Rightarrow> nat \<Rightarrow> unit io" where
  "sender_request E q sender_id lcore_id i = do {
     say ''[SECONDARY-%d] Sending request #%d to primary...'' [PD sender_id, PD (int i)];
     success \<leftarrow> try_request E q sender_id (payload2 sender_id lcore_id i) 0 MAX_RETRIES;
     case success of
       None \<Rightarrow> say ''[SECONDARY-%d] All retries failed for request #%d'' [PD sender_id, PD (int i)]
     | Some rs \<Rightarrow> do {
       say ''[SECONDARY-%d] Received %d replies:'' [PD sender_id, PD (int (length rs))];
       print_replies ''  Reply %d: %s'' rs;
       emit (if rs \<noteq> [] then [Did (Mp Mp_free_msgs)] else []);
       d \<leftarrow> ask_count E (Eal Rand);
       sleep_us (1000000 * (1 + d mod 3)) } }"

definition sender_main :: "env \<Rightarrow> (nat \<Rightarrow> bool) \<Rightarrow> int io" where
  "sender_main E q = do {
     d \<leftarrow> ask_count E (Eal Rand);
     sleep_us (d mod 500 * 1000);
     install_signal ''SIGINT'';
     install_signal ''SIGTERM'';
     r \<leftarrow> rte_eal_init E;
     if r < 0 then do { say ''Error in EAL Init'' []; ret 1 } else do {
     pid \<leftarrow> ask_count E (Eal Getpid);
     lcore_id \<leftarrow> rte_lcore_id E;
     let sender_id = int (pid mod 1000);
     say ''=============================================='' [];
     say ''[SECONDARY-%d] Started on lcore %u'' [PD sender_id, PU lcore_id];
     say ''=============================================='' [];
     sleep_us 1000000;
     stop \<leftarrow> for_return (\<lambda>i. do {
       quit \<leftarrow> read_quit q;
       if quit then ret (Some ()) else do { sender_request E q sender_id lcore_id i; ret None } }) [1, 2, 3];
     say ''[SECONDARY-%d] All requests completed. Cleaning up...'' [PD sender_id];
     sleep_us 1000000;
     act (Mp (Mp_unregister ''get_stats''));
     say ''[SECONDARY-%d] Exiting cleanly.'' [PD sender_id];
     say ''=============================================='' [];
     ret 0 } }"

section \<open>What the primary process answers\<close>

definition replies_sent :: "event list \<Rightarrow> (string \<times> string) list" where
  "replies_sent es = concat (map (\<lambda>e. case e of
     Status c r \<Rightarrow> (case c of Mp m \<Rightarrow> (case m of Mp_reply n p \<Rightarrow> [(n, p)] | _ \<Rightarrow> []) | _ \<Rightarrow> []) | _ \<Rightarrow> []) es)"

lemma replies_sent_simps [simp]:
  "replies_sent [] = []" "replies_sent (xs @ ys) = replies_sent xs @ replies_sent ys"
  "replies_sent (Status (Mp (Mp_reply n p)) r # es) = (n, p) # replies_sent es"
  "replies_sent (Printf f as # es) = replies_sent es" "replies_sent (Undefined # es) = replies_sent es"
  "replies_sent (Did c # es) = replies_sent es"
  by (simp_all add: replies_sent_def)

lemma appends_serve [appends_intros]: "appends (mp_callback E indent sleeps m count)" "appends (serve E indent sleeps ms count)"
proof -
  show "appends (mp_callback E indent sleeps m count)" for m count
    unfolding mp_callback_def Let_def by (cases m) (simp only: prod.case, intro appends_intros)
  then show "appends (serve E indent sleeps ms count)"
    by (induction ms arbitrary: count) (simp_all add: appends_bind)
qed

lemma callback:
  "fst (result (mp_callback E indent sleeps m count) h) = count + 1"
  "replies_sent (emitted (mp_callback E indent sleeps m count) h) =
     [(''get_stats'', param_of (snprintf 256 (response (count + 1))))]"
  "Undefined \<in> set (emitted (mp_callback E indent sleeps m count) h) \<longleftrightarrow> INT_MAX < (count + 1) * 65536"
  by (cases m; simp add: mp_callback_def Let_def emitted_def snprintf_def)+

lemma emitted_serve:
  "emitted (serve E indent sleeps (m # ms) count) h = emitted (mp_callback E indent sleeps m count) h @
     emitted (serve E indent sleeps ms (count + 1)) (h @ emitted (mp_callback E indent sleeps m count) h)"
  by (simp add: emitted_bind appends_serve callback(1) final_emitted [OF appends_serve(1)])

lemma serve_replies:
  "replies_sent (emitted (serve E indent sleeps ms count) h) =
     map (\<lambda>k. (''get_stats'', param_of (snprintf 256 (response (count + int k))))) [1..<Suc (length ms)]"
proof (induction ms arbitrary: count h)
  case (Cons m ms)
  have "[1..<Suc (length (m # ms))] = 1 # map Suc [1..<Suc (length ms)]"
    by (simp add: map_Suc_upt upt_conv_Cons del: upt_Suc)
  then show ?case by (simp add: emitted_serve callback(2) Cons.IH comp_def algebra_simps del: upt_Suc serve.simps)
qed (simp add: emitted_def)

lemma serve_undefined:
  "Undefined \<in> set (emitted (serve E indent sleeps ms count) h) \<longleftrightarrow> ms \<noteq> [] \<and> INT_MAX < (count + int (length ms)) * 65536"
proof (induction ms arbitrary: count h)
  case (Cons m ms)
  have "Undefined \<in> set (emitted (serve E indent sleeps (m # ms) count) h) \<longleftrightarrow>
      INT_MAX < (count + 1) * 65536 \<or> ms \<noteq> [] \<and> INT_MAX < (count + 1 + int (length ms)) * 65536"
    by (simp only: emitted_serve callback(3) Cons.IH set_append Un_iff)
  then show ?case by (cases ms) (auto simp: algebra_simps)
qed (simp add: emitted_def)

lemma length_dec: "0 \<le> v \<Longrightarrow> v < 10 ^ 10 \<Longrightarrow> length (dec v) \<le> 10"
  using dec_nat_length [of "nat v" 9] by (simp add: dec_def nat_less_iff)

lemma response_fits:
  assumes "0 \<le> k" and "k * 65536 \<le> INT_MAX"
  shows "snprintf 256 (response k) = response k" and "NUL \<notin> set (response k)"
proof -
  have "length (response k) \<le> 60"
    using length_dec [of k] length_dec [of "k * 1024"] length_dec [of "k * 65536"] assms
    by (simp add: response_def INT_MAX_def)
  then show "snprintf 256 (response k) = response k" by (simp add: snprintf_def)
  show "NUL \<notin> set (response k)"
    using dec_no_NUL by (simp add: response_def) (simp add: NUL_def)
qed

section \<open>The retries of a request\<close>

text \<open>The answers to the requests sent, and how often the replies were released.\<close>

definition attempts :: "event list \<Rightarrow> int list" where
  "attempts es = concat (map (\<lambda>e. case e of
     Status c r \<Rightarrow> (case c of Mp m \<Rightarrow> (case m of Mp_request_sync n p \<Rightarrow> [r] | _ \<Rightarrow> []) | _ \<Rightarrow> []) | _ \<Rightarrow> []) es)"

definition releases :: "event list \<Rightarrow> nat" where
  "releases es = length (filter (\<lambda>e. e = Did (Mp Mp_free_msgs)) es)"

lemma attempts_simps [simp]:
  "attempts [] = []" "attempts (xs @ ys) = attempts xs @ attempts ys"
  "attempts (Status (Mp (Mp_request_sync n p)) r # es) = r # attempts es"
  "attempts (Printf f as # es) = attempts es" "attempts (Did c # es) = attempts es"
  "attempts (Count c k # es) = attempts es"
  "attempts (map (\<lambda>z. Printf f (g z)) zs) = []"
  by (simp_all add: attempts_def comp_def)

lemma releases_simps [simp]:
  "releases [] = 0" "releases (xs @ ys) = releases xs + releases ys"
  "releases (Status c r # es) = releases es" "releases (Printf f as # es) = releases es"
  "releases (Did c # es) = (if c = Mp Mp_free_msgs then 1 else 0) + releases es"
  "releases (Count c k # es) = releases es" "releases (map (\<lambda>z. Printf f (g z)) zs) = 0"
  by (simp_all add: releases_def filter_empty_conv)

lemma final_print_replies: "final (print_replies fmt rs) h =
    h @ map (\<lambda>x. Printf fmt [PD (int (fst x)), PS (c_str (snd x))]) (enumerate 0 rs)"
proof -
  have "final (for_each (\<lambda>(j, r). say fmt [PD (int j), PS (c_str r)]) xs) h =
      h @ map (\<lambda>x. Printf fmt [PD (int (fst x)), PS (c_str (snd x))]) xs" for xs
    by (induction xs arbitrary: h) (auto split: prod.split)
  then show ?thesis by (simp add: print_replies_def)
qed

lemma appends_try [appends_intros]: "appends (try_request E q sid p retry k)"
proof (induction k arbitrary: retry)
  case (Suc k)
  show ?case unfolding try_request.simps by (intro appends_intros Suc.IH)
qed simp

text \<open>A try ends with the first success; without a signal a failure is a failure of all attempts.\<close>

definition tried :: "(nat \<Rightarrow> bool) \<Rightarrow> nat \<Rightarrow> int list \<Rightarrow> bool \<Rightarrow> bool" where
  "tried q k rs ok \<longleftrightarrow> length rs \<le> k \<and> (\<forall>r \<in> set (butlast rs). r < 0) \<and>
     (if ok then rs \<noteq> [] \<and> 0 \<le> last rs else (\<forall>r \<in> set rs. r < 0) \<and> ((\<forall>t. \<not> q t) \<longrightarrow> length rs = k))"

lemma tried_Cons: "r < 0 \<Longrightarrow> tried q k rs ok \<Longrightarrow> tried q (Suc k) (r # rs) ok"
  by (auto simp: tried_def)

lemma emitted_continue:
  assumes "final m h = final m' (h @ es)" and "appends m'"
  shows "emitted m h = es @ emitted m' (h @ es)"
proof -
  obtain ks where "emitted m' (h @ es) = ks" "final m' (h @ es) = (h @ es) @ ks"
    using final_emitted [OF assms(2)] by blast
  then show ?thesis using assms(1) by (simp add: emitted_def)
qed

lemma try_request:
  "tried q k (attempts (emitted (try_request E q sid p retry k) h)) (result (try_request E q sid p retry k) h \<noteq> None) \<and>
   releases (emitted (try_request E q sid p retry k) h) = 0"
proof (induction k arbitrary: retry h)
  case 0
  then show ?case by (simp add: tried_def emitted_def)
next
  case (Suc k)
  let ?c = "Mp (Mp_request_sync (snprintf 64 ''get_stats'') (param_of p))"
  let ?pre = "retry_note sid retry"
  let ?r = "status E (length (h @ ?pre)) ?c"
  let ?es = "?pre @ [Status ?c ?r, Printf ''[SECONDARY-%d] Failed to send request (attempt %d)'' [PD sid, PD (int (retry + 1))]]"
  have pre: "attempts ?pre = []" "releases ?pre = 0" by (simp_all add: retry_note_def)
  consider (quit) "q (length h)" | (ok) "\<not> q (length h)" "0 \<le> ?r" | (again) "\<not> q (length h)" "?r < 0" by linarith
  then show ?case
  proof cases
    case quit
    then have "emitted (try_request E q sid p retry (Suc k)) h = []" "result (try_request E q sid p retry (Suc k)) h = None"
      by (simp_all add: emitted_def)
    then show ?thesis using quit by (auto simp: tried_def)
  next
    case ok
    then have "emitted (try_request E q sid p retry (Suc k)) h = ?pre @ [Status ?c ?r]"
      and "result (try_request E q sid p retry (Suc k)) h \<noteq> None"
      by (simp_all add: emitted_def)
    then show ?thesis using ok pre by (simp add: tried_def)
  next
    case again
    then have fin: "final (try_request E q sid p retry (Suc k)) h = final (try_request E q sid p (retry + 1) k) (h @ ?es)"
      and res: "result (try_request E q sid p retry (Suc k)) h = result (try_request E q sid p (retry + 1) k) (h @ ?es)"
      by simp_all
    have "emitted (try_request E q sid p retry (Suc k)) h = ?es @ emitted (try_request E q sid p (retry + 1) k) (h @ ?es)"
      by (rule emitted_continue [OF fin appends_try])
    moreover obtain ks where "emitted (try_request E q sid p (retry + 1) k) (h @ ?es) = ks" by simp
    ultimately have "attempts (emitted (try_request E q sid p retry (Suc k)) h) =
        ?r # attempts (emitted (try_request E q sid p (retry + 1) k) (h @ ?es))"
      and "releases (emitted (try_request E q sid p retry (Suc k)) h) =
        releases (emitted (try_request E q sid p (retry + 1) k) (h @ ?es))"
      using pre by simp_all
    then show ?thesis
      using Suc.IH [of "retry + 1" "h @ ?es"] tried_Cons [OF again(2)] unfolding res by metis
  qed
qed

text \<open>The replies of a try that succeeds are those of its last request.\<close>

abbreviation request_call :: "string \<Rightarrow> call" where
  "request_call p \<equiv> Mp (Mp_request_sync (snprintf 64 ''get_stats'') (param_of p))"

lemma try_replies:
  assumes "result (try_request E q sid p retry k) h = Some rs"
  shows "\<exists>ks r. emitted (try_request E q sid p retry k) h = ks @ [Status (request_call p) r] \<and> 0 \<le> r \<and>
    rs = replies E (length (h @ ks)) (request_call p)"
  using assms
proof (induction k arbitrary: retry h)
  case (Suc k)
  let ?pre = "retry_note sid retry"
  let ?r = "status E (length (h @ ?pre)) (request_call p)"
  let ?es = "?pre @ [Status (request_call p) ?r, Printf ''[SECONDARY-%d] Failed to send request (attempt %d)'' [PD sid, PD (int (retry + 1))]]"
  have quit: "\<not> q (length h)" using Suc.prems by auto
  show ?case
  proof (cases "?r < 0")
    case True
    then have fin: "final (try_request E q sid p retry (Suc k)) h = final (try_request E q sid p (retry + 1) k) (h @ ?es)"
      and res: "result (try_request E q sid p (retry + 1) k) (h @ ?es) = Some rs"
      using Suc.prems quit by simp_all
    obtain ks r where "emitted (try_request E q sid p (retry + 1) k) (h @ ?es) = ks @ [Status (request_call p) r]"
      "0 \<le> r" "rs = replies E (length ((h @ ?es) @ ks)) (request_call p)"
      using Suc.IH [OF res] by blast
    then show ?thesis
      unfolding emitted_continue [OF fin appends_try]
      by (intro exI [of _ "?es @ ks"] exI [of _ r]) simp
  next
    case False
    then show ?thesis using Suc.prems quit
      by (intro exI [of _ ?pre] exI [of _ ?r]) (auto simp: emitted_def)
  qed
qed simp

section \<open>Properties\<close>

text \<open>
  C18. The primary process of \<open>Multiple_Msg_Passing\<close> and \<open>Multiple_Sender_MP\<close> answers the \<open>k\<close>th
  request, whatever it says, with the line for \<open>k\<close>; the line always fits the buffer, and a
  secondary process that prints the parameter of the reply prints that line.  This holds up to
  request 32767: from 32768 on the number of bytes does not fit an \<open>int\<close>.
\<close>

theorem primary_answers:
  "(Undefined \<in> set (emitted (serve E indent sleeps ms 0) h) \<longleftrightarrow> 32768 \<le> length ms) \<and>
   (length ms < 32768 \<longrightarrow>
     replies_sent (emitted (serve E indent sleeps ms 0) h) =
       map (\<lambda>k. (''get_stats'', param_of (response (int k)))) [1..<Suc (length ms)] \<and>
     (\<forall>k \<in> {1..length ms}. c_str (param_of (response (int k))) = response (int k)))"
proof -
  have fits: "int k * 65536 \<le> INT_MAX \<longleftrightarrow> k < 32768" for k by (auto simp: INT_MAX_def)
  have "Undefined \<in> set (emitted (serve E indent sleeps ms 0) h) \<longleftrightarrow>
      ms \<noteq> [] \<and> \<not> int (length ms) * 65536 \<le> INT_MAX"
    unfolding serve_undefined not_le by simp
  also have "\<dots> \<longleftrightarrow> 32768 \<le> length ms" unfolding fits by (cases "ms = []") (simp_all add: not_less)
  finally have "Undefined \<in> set (emitted (serve E indent sleeps ms 0) h) \<longleftrightarrow> 32768 \<le> length ms" .
  moreover have "snprintf 256 (response (int k)) = response (int k) \<and> c_str (param_of (response (int k))) = response (int k)"
    if "length ms < 32768" "k \<le> length ms" for k
    using response_fits [of "int k"] fits [of k] that by (simp add: c_str_param)
  moreover from this have "length ms < 32768 \<Longrightarrow> replies_sent (emitted (serve E indent sleeps ms 0) h) =
      map (\<lambda>k. (''get_stats'', param_of (response (int k)))) [1..<Suc (length ms)]"
    unfolding serve_replies by (intro map_cong refl) (simp del: upt_Suc)
  ultimately show ?thesis by simp
qed

theorem primary_answers_witness:
  "replies_sent (emitted (serve good_env [] True [(''get_stats'', ''a''), (''get_stats'', ''b'')] 0) []) =
     [(''get_stats'', param_of (response 1)), (''get_stats'', param_of (response 2))]"
  using primary_answers [of good_env "[]" True "[(''get_stats'', ''a''), (''get_stats'', ''b'')]" "[]"]
  by (simp add: upt_rec)

text \<open>
  C19. A request of \<open>Multiple_Sender_MP/sec.c\<close> is sent at most three times, again only after a
  failure; when no signal arrives it is given up only after three failures.  After a success, and
  only then, the replies to that last request are counted, printed one by one in their order, and
  their array is released afterwards: exactly once if there are replies, and never otherwise.
\<close>

theorem sender_request_retries:
  assumes "tr = emitted (sender_request E q sender_id lcore_id i) h" and "a = attempts tr"
    and "c = request_call (payload2 sender_id lcore_id i)"
  shows "length a \<le> 3 \<and> (\<forall>r \<in> set (butlast a). r < 0) \<and>
     ((\<forall>t. \<not> q t) \<longrightarrow> a \<noteq> [] \<and> (0 \<le> last a \<or> length a = 3)) \<and>
     (if a \<noteq> [] \<and> 0 \<le> last a
      then \<exists>ks rs d. rs = replies E (length (h @ ks)) c \<and>
        tr = ks @ [Status c (last a), Printf ''[SECONDARY-%d] Received %d replies:'' [PD sender_id, PD (int (length rs))]] @
          map (\<lambda>(j, r). Printf ''  Reply %d: %s'' [PD (int j), PS (c_str r)]) (enumerate 0 rs) @
          (if rs = [] then [] else [Did (Mp Mp_free_msgs)]) @
          [Count (Eal Rand) d, Did (Eal (Sleep_us (1000000 * (1 + d mod 3))))] \<and>
        releases tr = (if rs = [] then 0 else 1)
      else releases tr = 0 \<and>
        last tr = Printf ''[SECONDARY-%d] All retries failed for request #%d'' [PD sender_id, PD (int i)])"
proof -
  let ?p = "Printf ''[SECONDARY-%d] Sending request #%d to primary...'' [PD sender_id, PD (int i)]"
  let ?h = "h @ [?p]"
  let ?m = "try_request E q sender_id (payload2 sender_id lcore_id i) 0 MAX_RETRIES"
  have t: "tried q 3 (attempts (emitted ?m ?h)) (result ?m ?h \<noteq> None)" "releases (emitted ?m ?h) = 0"
    using try_request [of q MAX_RETRIES E sender_id "payload2 sender_id lcore_id i" 0 ?h] by (simp_all add: MAX_RETRIES_def)
  obtain es where es: "emitted ?m ?h = es" "final ?m ?h = ?h @ es"
    using final_emitted [OF appends_try] by blast
  show ?thesis
  proof (cases "result ?m ?h")
    case None
    then have tr: "tr = ?p # es @ [Printf ''[SECONDARY-%d] All retries failed for request #%d'' [PD sender_id, PD (int i)]]"
      using es(2) unfolding assms(1) by (simp add: sender_request_def emitted_def)
    then have "a = attempts es" "releases tr = 0" using t(2) es(1) by (simp_all add: assms(2))
    then have all: "tried q 3 a False" "\<forall>r \<in> set a. r < 0" using t(1) None unfolding es(1) by (simp_all add: tried_def)
    have "\<not> (a \<noteq> [] \<and> 0 \<le> last a)" by (meson all(2) last_in_set not_le)
    then show ?thesis using all(1) \<open>releases tr = 0\<close> by (auto simp: tried_def tr)
  next
    case (Some rs)
    obtain ks r where ks: "es = ks @ [Status c r]" "0 \<le> r" "rs = replies E (length (?h @ ks)) c"
      using try_replies [OF Some] unfolding es(1) assms(3) by blast
    have "\<exists>d. tr = (?p # es) @ [Printf ''[SECONDARY-%d] Received %d replies:'' [PD sender_id, PD (int (length rs))]] @
          map (\<lambda>(j, r). Printf ''  Reply %d: %s'' [PD (int j), PS (c_str r)]) (enumerate 0 rs) @
          (if rs = [] then [] else [Did (Mp Mp_free_msgs)]) @
          [Count (Eal Rand) d, Did (Eal (Sleep_us (1000000 * (1 + d mod 3))))]"
      using Some es(2) unfolding assms(1)
      by (auto simp: sender_request_def emitted_def final_print_replies split_def)
    then obtain d where tr: "tr = (?p # es) @ [Printf ''[SECONDARY-%d] Received %d replies:'' [PD sender_id, PD (int (length rs))]] @
          map (\<lambda>(j, r). Printf ''  Reply %d: %s'' [PD (int j), PS (c_str r)]) (enumerate 0 rs) @
          (if rs = [] then [] else [Did (Mp Mp_free_msgs)]) @
          [Count (Eal Rand) d, Did (Eal (Sleep_us (1000000 * (1 + d mod 3))))]" by blast
    then have a: "a = attempts es" "releases tr = (if rs = [] then 0 else 1)"
      using t(2) es(1) by (simp_all add: assms(2) split_def)
    have c: "attempts [Status c r] = [r]" by (simp add: assms(3))
    then have "last a = r" "a \<noteq> []" unfolding a(1) ks(1) attempts_simps(2) c by simp_all
    moreover have "rs = replies E (length (h @ ?p # ks)) c" using ks(3) by simp
    ultimately have "\<exists>ks rs d. rs = replies E (length (h @ ks)) c \<and>
        tr = ks @ [Status c (last a), Printf ''[SECONDARY-%d] Received %d replies:'' [PD sender_id, PD (int (length rs))]] @
          map (\<lambda>(j, r). Printf ''  Reply %d: %s'' [PD (int j), PS (c_str r)]) (enumerate 0 rs) @
          (if rs = [] then [] else [Did (Mp Mp_free_msgs)]) @
          [Count (Eal Rand) d, Did (Eal (Sleep_us (1000000 * (1 + d mod 3))))] \<and>
        releases tr = (if rs = [] then 0 else 1)"
      using a(2) by (intro exI [of _ "?p # ks"] exI [of _ rs] exI [of _ d]) (simp add: tr ks(1))
    then show ?thesis using t(1) Some ks(2) \<open>last a = r\<close> \<open>a \<noteq> []\<close> unfolding es(1) a(1) [symmetric]
      by (simp add: tried_def)
  qed
qed

text \<open>A primary process that answers with two lines.\<close>

definition answering_env :: env where
  "answering_env = good_env\<lparr>replies := \<lambda>t c. [''a'', ''b'']\<rparr>"

theorem sender_request_retries_witness:
  "releases (emitted (sender_request answering_env (\<lambda>t. False) 7 1 1) []) = 1"
proof -
  let ?tr = "emitted (sender_request answering_env (\<lambda>t. False) 7 1 1) []"
  have max: "MAX_RETRIES = Suc 2" by (simp add: MAX_RETRIES_def)
  have env: "status answering_env t (request_call p) = 0" "replies answering_env t (request_call p) = [''a'', ''b'']" for t p
    by (simp_all add: answering_env_def good_env_def)
  have first_try: "result (try_request answering_env (\<lambda>t. False) 7 p 0 MAX_RETRIES) h = Some [''a'', ''b'']"
    "final (try_request answering_env (\<lambda>t. False) 7 p 0 MAX_RETRIES) h = h @ [Status (request_call p) 0]" for p h
    unfolding max try_request.simps(2) by (simp_all add: env retry_note_def)
  have a: "attempts ?tr = [0]"
    by (simp add: sender_request_def emitted_def first_try final_print_replies)
  have zero: "[0 :: int] \<noteq> [] \<and> 0 \<le> last [0 :: int]" by simp
  have "\<exists>(ks :: event list) rs. rs = replies answering_env (length ([] @ ks)) (request_call (payload2 7 1 1)) \<and>
      releases ?tr = (if rs = [] then 0 else 1)"
    using sender_request_retries [where E = answering_env and q = "\<lambda>t. False" and sender_id = 7 and lcore_id = 1
        and i = 1 and h = "[]", OF refl refl refl]
    unfolding a if_P [OF zero]
    by (elim conjE exE) (rule exI, rule exI, rule conjI, assumption, assumption)
  then show ?thesis by (auto simp: answering_env_def)
qed

end
