(* ===== verification/Mem_Info.thy ===== *)
theory Mem_Info
  imports Mbuf_Ownership Port_Setup
begin

text \<open>
  The programs about packet buffers: \<open>mem_info2/\<close> (append, trim, prepend, remove), \<open>mem_info/\<close>
  (the fields of received packets), \<open>mem_pool/\<close> (pools and a first buffer).

  The fields of a buffer are the library's; what the programs print of them is a parameter
  \<open>V h m\<close>, the fields of buffer \<open>m\<close> after the trace \<open>h\<close>.  \<open>fields_documented\<close> states what the
  reference says of them: a new buffer has no data, \<open>append\<close> and \<open>trim\<close> move the end of the data,
  \<open>prepend\<close> and \<open>adj\<close> its start, a call that fails changes nothing, and it fails exactly when
  there is not enough room, or data.
\<close>

section \<open>The fields of a buffer\<close>

record fields =
  f_pkt_len :: nat
  f_data_len :: nat
  f_headroom :: nat
  f_tailroom :: nat
  f_buf_addr :: nat

text \<open>\<open>data_off\<close> is the headroom; addresses are printed as \<open>int\<close>, the low 32 bits with sign.\<close>

definition as_int :: "nat \<Rightarrow> int" where
  "as_int a = sint (of_nat a :: 32 word)"

definition print_mbuf_info :: "fields \<Rightarrow> unit io" where
  "print_mbuf_info f = do {
     say ''pkt_len   = %u'' [PU (f_pkt_len f)];
     say ''data_len  = %u'' [PU (f_data_len f)];
     say ''headroom  = %u'' [PU (f_headroom f)];
     say ''tailroom  = %u'' [PU (f_tailroom f)];
     say ''Data offset=%u'' [PU (f_headroom f)];
     say ''Buffer addr: %d'' [PD (as_int (f_buf_addr f))];
     say ''Ethernet Header Address:%d'' [PD (as_int (f_buf_addr f + f_headroom f))];
     say ''Data BUffer :%d'' [PD (as_int (f_buf_addr f + f_headroom f))];
     say '' '' [] }"

type_synonym view = "event list \<Rightarrow> mbuf \<Rightarrow> fields"

text \<open>Reading the fields is an access to the buffer.\<close>

definition read_fields :: "view \<Rightarrow> mbuf \<Rightarrow> fields io" where
  "read_fields V m = State (\<lambda>h. (V h m, h @ [Access m]))"

lemma run_read_fields [simp, io_simps]:
  "result (read_fields V m) h = V h m" "final (read_fields V m) h = h @ [Access m]"
  by (simp_all add: result_def final_def read_fields_def)

lemma appends_read_fields [simp, appends_intros]: "appends (read_fields V m)"
  by (simp add: appends_def)

section \<open>mem\_info2\<close>

definition show_info :: "view \<Rightarrow> string \<Rightarrow> mbuf \<Rightarrow> unit io" where
  "show_info V msg m = do {
     f \<leftarrow> read_fields V m;
     say ''=== %s ==='' [PS msg];
     print_mbuf_info f }"

text \<open>\<open>for (i = 0; i < 100; i++) data[i] = i\<close> and \<open>pre[i] = 0xAA\<close>, as one write each.\<close>

definition ramp :: "u8 list" where "ramp = map of_nat [0..<100]"
definition marks :: "u8 list" where "marks = replicate 20 0xAA"

definition mem_info2_main :: "env \<Rightarrow> view \<Rightarrow> int io" where
  "mem_info2_main E V = do {
     r \<leftarrow> rte_eal_init E;
     if r < 0 then do { say ''EAL init failed'' []; ret (-1) } else do {
     mp \<leftarrow> rte_pktmbuf_pool_create E ''MBUF_POOL'' 1024 256;
     if mp = NULL then do { say ''Cannot create mbuf pool'' []; ret (-1) } else do {
     m \<leftarrow> rte_pktmbuf_alloc E mp;
     if m = NULL then do { say ''mbuf alloc failed'' []; ret (-1) } else do {
     show_info V ''After allocation'' m;
     p \<leftarrow> rte_pktmbuf_append E m 100;
     if p = NULL then do { say ''Append failed'' []; ret (-1) } else do {
     act (Mem (Store m 0 ramp));
     show_info V ''After append 100 bytes'' m;
     r \<leftarrow> rte_pktmbuf_trim E m 40;
     if r < 0 then do { say ''Trim failed'' []; ret (-1) } else do {
     show_info V ''After trim 40 bytes'' m;
     p \<leftarrow> rte_pktmbuf_prepend E m 20;
     if p = NULL then do { say ''Prepend failed (no headroom)'' []; ret (-1) } else do {
     act (Mem (Store m 0 marks));
     show_info V ''After prepend 20 bytes'' m;
     p \<leftarrow> rte_pktmbuf_adj E m 10;
     if p = NULL then do { say ''Adj failed'' []; ret (-1) } else do {
     show_info V ''After adj remove 10 bytes from start'' m;
     rte_pktmbuf_free m;
     say ''Demo completed successfully.'' [];
     ret 0 } } } } } } } }"

section \<open>mem\_info\<close>

definition show_received :: "view \<Rightarrow> mbuf \<Rightarrow> unit io" where
  "show_received V m = do { f \<leftarrow> read_fields V m; print_mbuf_info f }"

definition mem_info_round :: "view \<Rightarrow> env \<Rightarrow> unit \<Rightarrow> (int + unit) io" where
  "mem_info_round V E u = do {
     pkts \<leftarrow> rte_eth_rx_burst E 0 0 32;
     for_each (show_received V) pkts;
     ret (Inr ()) }"

definition mem_info_main :: "env \<Rightarrow> view \<Rightarrow> nat \<Rightarrow> int option io" where
  "mem_info_main E V n = do {
     r \<leftarrow> rte_eal_init E;
     if r < 0 then do { say ''EAL init failed'' []; ret (Some (-1)) } else do {
     valid \<leftarrow> rte_eth_dev_is_valid_port E 0;
     if valid = 0 then ret (Some (-1)) else do {
     say ''Port has been validated......'' [];
     r \<leftarrow> rte_eth_dev_configure E 0 1 1;
     mp \<leftarrow> rte_pktmbuf_pool_create E ''MBUF_POOL'' 1024 256;
     say ''Configured the NIC with the features......'' [];
     if r < 0 then ret (Some r) else do {
     r \<leftarrow> rte_eth_rx_queue_setup E 0 0 1024 (Port_socket 0) mp;
     if r < 0 then ret (Some r) else do {
     r \<leftarrow> rte_eth_tx_queue_setup E 0 0 1024 (Port_socket 0);
     if r < 0 then ret (Some r) else do {
     say ''Setup the tx and rx queue for packet processing'' [];
     r \<leftarrow> rte_eth_dev_start E 0;
     if mp = NULL then do { say ''Cannot create mbuf pool'' []; ret (Some (-1)) } else do {
     over \<leftarrow> rounds n (mem_info_round V E) ();
     ret (case over of Inl x \<Rightarrow> Some x | Inr u \<Rightarrow> None) } } } } } } }"

section \<open>mem\_pool\<close>

definition mem_pool_main :: "env \<Rightarrow> int io" where
  "mem_pool_main E = do {
     r \<leftarrow> rte_eal_init E;
     if r < 0 then do { say ''Something Went Wrong'' []; ret 1 } else do {
     mp \<leftarrow> rte_pktmbuf_pool_create E ''MEM_POOL'' 8192 250;
     say ''Size of Mem_Pool:%d'' [PD (int (size_of E ''rte_mempool''))];
     if mp = NULL then do { say ''Something Went Wrong in Mem Pool'' []; ret 1 } else do {
     say ''Memory Pool Created Successfully'' [];
     ret 0 } } }"

text \<open>\<open>mem_pool2.c\<close> puts "hello" with its NUL into a buffer and prints it character by character.\<close>

definition hello :: "u8 list" where "hello = map of_nat [104, 101, 108, 108, 111, 0]"

definition print_chars :: "u8 list \<Rightarrow> unit io" where
  "print_chars bs = for_each (\<lambda>b. say ''%c'' [PU (unat b)]) bs"

definition mem_pool2_main :: "env \<Rightarrow> int io" where
  "mem_pool2_main E = do {
     r \<leftarrow> rte_eal_init E;
     if r < 0 then do { say ''Something Went Wrong'' []; ret 1 } else do {
     mp \<leftarrow> ask_pointer E (Mem (Mempool_create ''MEM_POOL'' 8192
       (size_of E ''RTE_MBUF_DEFAULT_BUF_SIZE'' + size_of E ''rte_mbuf'') 250));
     say ''Size of Mem_Pool:%d && dfault : %d''
       [PD (int (size_of E ''rte_mempool'')), PD (int (size_of E ''RTE_MBUF_DEFAULT_BUF_SIZE''))];
     if mp = NULL then do { say ''Something Went Wrong in Mem Pool'' []; ret 1 } else do {
     say ''Memory Pool Created Successfully'' [];
     m \<leftarrow> rte_pktmbuf_alloc E mp;
     if m = NULL then do { say ''No free mbufs available'' []; ret 1 } else do {
     say ''Memory for the buffer is being allocated successfully'' [];
     act (Mem (Store m 0 hello));
     act (Mem (Mbuf_set_len m (length hello)));
     print_chars hello;
     say '''' [];
     ret 0 } } } }"

section \<open>What the reference says of the fields\<close>

text \<open>A call whose event is \<open>e\<close> changes the fields of the buffer like this.\<close>

definition fields_after :: "event \<Rightarrow> mbuf \<Rightarrow> fields \<Rightarrow> fields" where
  "fields_after e m f = (case e of
     Pointer (Mem c) p \<Rightarrow> (case c of
         Mbuf_alloc mp \<Rightarrow> if p = m \<and> p \<noteq> NULL then f\<lparr>f_pkt_len := 0, f_data_len := 0, f_headroom := 128, f_tailroom := 2048\<rparr> else f
       | Mbuf_append k n \<Rightarrow> if k = m \<and> p \<noteq> NULL
           then f\<lparr>f_pkt_len := f_pkt_len f + n, f_data_len := f_data_len f + n, f_tailroom := f_tailroom f - n\<rparr> else f
       | Mbuf_prepend k n \<Rightarrow> if k = m \<and> p \<noteq> NULL
           then f\<lparr>f_pkt_len := f_pkt_len f + n, f_data_len := f_data_len f + n, f_headroom := f_headroom f - n\<rparr> else f
       | Mbuf_adj k n \<Rightarrow> if k = m \<and> p \<noteq> NULL
           then f\<lparr>f_pkt_len := f_pkt_len f - n, f_data_len := f_data_len f - n, f_headroom := f_headroom f + n\<rparr> else f
       | _ \<Rightarrow> f)
   | Status (Mem c) r \<Rightarrow> (case c of
         Mbuf_trim k n \<Rightarrow> if k = m \<and> \<not> r < 0
           then f\<lparr>f_pkt_len := f_pkt_len f - n, f_data_len := f_data_len f - n, f_tailroom := f_tailroom f + n\<rparr> else f
       | _ \<Rightarrow> f)
   | _ \<Rightarrow> f)"

definition fields_documented :: "view \<Rightarrow> bool" where
  "fields_documented V \<longleftrightarrow> (\<forall>h e m. V (h @ [e]) m = fields_after e m (V h m))"

text \<open>A call fails exactly when there is too little room or data; of a trace, at each of its calls.\<close>

definition room_ok :: "view \<Rightarrow> event list \<Rightarrow> event \<Rightarrow> bool" where
  "room_ok V h e = (case e of
     Pointer (Mem c) p \<Rightarrow> (case c of
         Mbuf_append m n \<Rightarrow> (p = NULL) = (f_tailroom (V h m) < n)
       | Mbuf_prepend m n \<Rightarrow> (p = NULL) = (f_headroom (V h m) < n)
       | Mbuf_adj m n \<Rightarrow> (p = NULL) = (f_data_len (V h m) < n)
       | _ \<Rightarrow> True)
   | Status (Mem c) r \<Rightarrow> (case c of
         Mbuf_trim m n \<Rightarrow> (r < 0) = (f_data_len (V h m) < n)
       | _ \<Rightarrow> True)
   | _ \<Rightarrow> True)"

definition room_documented :: "view \<Rightarrow> event list \<Rightarrow> bool" where
  "room_documented V h \<longleftrightarrow> list_all (\<lambda>k. room_ok V (take k h) (h ! k)) [0..<length h]"

section \<open>The lemmas\<close>

lemma fields_step:
  "fields_documented V \<Longrightarrow> V (h @ [e]) m = fields_after e m (V h m)"
  by (simp add: fields_documented_def)

lemma fields_step2:
  "fields_documented V \<Longrightarrow> V (h @ [e, e']) m = fields_after e' m (fields_after e m (V h m))"
  using fields_step [of V "h @ [e]" e' m] by (simp add: fields_step)

lemma room_step:
  assumes "room_documented V (h @ e # es)"
  shows "room_ok V h e"
proof -
  have "length h \<in> set [0..<length (h @ e # es)]" by simp
  with assms show ?thesis unfolding room_documented_def list_all_iff by fastforce
qed

lemma room_stop:
  assumes "room_documented V H" and "H = h' @ es" and "h' = h @ [e]"
  shows "room_ok V h e"
  by (rule room_step [of V h e es]) (use assms in simp)

lemma room_ok_simps [simp]:
  "room_ok V h (Pointer (Mem (Mbuf_append m n)) p) = ((p = NULL) = (f_tailroom (V h m) < n))"
  "room_ok V h (Pointer (Mem (Mbuf_prepend m n)) p) = ((p = NULL) = (f_headroom (V h m) < n))"
  "room_ok V h (Pointer (Mem (Mbuf_adj m n)) p) = ((p = NULL) = (f_data_len (V h m) < n))"
  "room_ok V h (Status (Mem (Mbuf_trim m n)) r) = ((r < 0) = (f_data_len (V h m) < n))"
  "room_ok V h (Printf f as)" "room_ok V h (Did c)" "room_ok V h (Status (Eal ec) r)"
  "room_ok V h (Pointer (Mem (Pool_create nm k n)) p)" "room_ok V h (Pointer (Mem (Mbuf_alloc mp)) p)"
  by (simp_all add: room_ok_def)

text \<open>Printing and reading change no field.\<close>

lemma fields_after_quiet [simp]:
  "fields_after (Printf f as) m x = x" "fields_after (Access k) m x = x"
  "fields_after (Did c) m x = x"
  by (simp_all add: fields_after_def)

lemma appends_show [simp, appends_intros]:
  "appends (print_mbuf_info f)" "appends (show_info V msg m)" "appends (show_received V m)"
  unfolding print_mbuf_info_def show_info_def show_received_def by (intro appends_intros)+

text \<open>What one report prints.\<close>

definition info_lines :: "fields \<Rightarrow> event list" where
  "info_lines f = emitted (print_mbuf_info f) []"

lemma final_print_mbuf_info: "final (print_mbuf_info f) h = h @ info_lines f"
  by (simp add: info_lines_def emitted_def print_mbuf_info_def)

definition report :: "string \<Rightarrow> mbuf \<Rightarrow> fields \<Rightarrow> event list" where
  "report msg m f = Access m # Printf ''=== %s ==='' [PS msg] # info_lines f"

lemma final_show_info: "final (show_info V msg m) h = h @ report msg m (V h m)"
  by (simp add: show_info_def final_print_mbuf_info report_def)

lemma final_show_received: "final (show_received V m) h = h @ Access m # info_lines (V h m)"
  by (simp add: show_received_def final_print_mbuf_info)

lemma info_lines_prints [simp]: "list_all is_print (info_lines f)"
  by (simp add: info_lines_def emitted_def print_mbuf_info_def)

lemma fields_quiet:
  assumes "fields_documented V" and "\<And>e x. e \<in> set es \<Longrightarrow> fields_after e m x = x"
  shows "V (h @ es) m = V h m"
  using assms(2)
proof (induction es rule: rev_induct)
  case (snoc e es)
  then show ?case using fields_step [OF assms(1), of "h @ es" e] by simp
qed simp

lemma fields_report:
  assumes "fields_documented V"
  shows "V (h @ report msg k f) m = V h m"
proof (rule fields_quiet [OF assms])
  fix e x
  assume "e \<in> set (report msg k f)"
  then show "fields_after e m x = x"
    using info_lines_prints [of f] by (auto simp: report_def list_all_iff is_print_iff)
qed

section \<open>mem\_info2 prints the layouts its comments draw\<close>

text \<open>The fields of the five reports, for a buffer at address \<open>a\<close>.\<close>

definition layout :: "nat \<Rightarrow> nat \<Rightarrow> nat \<Rightarrow> nat \<Rightarrow> fields" where
  "layout a d x y = \<lparr>f_pkt_len = d, f_data_len = d, f_headroom = x, f_tailroom = y, f_buf_addr = a\<rparr>"

lemma layout_sel [simp]:
  "f_pkt_len (layout a d x y) = d" "f_data_len (layout a d x y) = d"
  "f_headroom (layout a d x y) = x" "f_tailroom (layout a d x y) = y"
  "f_buf_addr (layout a d x y) = a"
  by (simp_all add: layout_def)

lemma layout_after [simp]:
  "p \<noteq> NULL \<Longrightarrow> fields_after (Pointer (Mem (Mbuf_append m n)) p) m (layout a d x y) = layout a (d + n) x (y - n)"
  "p \<noteq> NULL \<Longrightarrow> fields_after (Pointer (Mem (Mbuf_prepend m n)) p) m (layout a d x y) = layout a (d + n) (x - n) y"
  "p \<noteq> NULL \<Longrightarrow> fields_after (Pointer (Mem (Mbuf_adj m n)) p) m (layout a d x y) = layout a (d - n) (x + n) y"
  "\<not> r < 0 \<Longrightarrow> fields_after (Status (Mem (Mbuf_trim m n)) r) m (layout a d x y) = layout a (d - n) x (y + n)"
  by (simp_all add: fields_after_def layout_def)

lemma layout_alloc:
  "m \<noteq> NULL \<Longrightarrow> fields_after (Pointer (Mem (Mbuf_alloc mp)) m) m f = layout (f_buf_addr f) 0 128 2048"
  by (cases f) (simp add: fields_after_def layout_def)

definition opened :: "env \<Rightarrow> ptr \<Rightarrow> mbuf \<Rightarrow> bool" where
  "opened E mp m \<longleftrightarrow> (\<forall>t. 0 \<le> status E t (Eal Eal_init) \<and> pointer E t (Mem (Mbuf_alloc mp)) = m \<and>
     pointer E t (Mem (Pool_create ''MBUF_POOL'' 1024 256)) = mp) \<and> mp \<noteq> NULL \<and> m \<noteq> NULL"

lemma mem_info2_runs:
  assumes V: "fields_documented V" and ok: "opened E mp m"
    and R: "room_documented V (final (mem_info2_main E V) [])"
  shows "\<exists>a r p1 i p2 p3. p1 \<noteq> NULL \<and> p2 \<noteq> NULL \<and> p3 \<noteq> NULL \<and> \<not> i < 0 \<and> run_state (mem_info2_main E V) [] =
    (0, [Status (Eal Eal_init) r, Pointer (Mem (Pool_create ''MBUF_POOL'' 1024 256)) mp,
             Pointer (Mem (Mbuf_alloc mp)) m]
       @ report ''After allocation'' m (layout a 0 128 2048)
       @ [Pointer (Mem (Mbuf_append m 100)) p1, Did (Mem (Store m 0 ramp))]
       @ report ''After append 100 bytes'' m (layout a 100 128 1948)
       @ [Status (Mem (Mbuf_trim m 40)) i]
       @ report ''After trim 40 bytes'' m (layout a 60 128 1988)
       @ [Pointer (Mem (Mbuf_prepend m 20)) p2, Did (Mem (Store m 0 marks))]
       @ report ''After prepend 20 bytes'' m (layout a 80 108 1988)
       @ [Pointer (Mem (Mbuf_adj m 10)) p3]
       @ report ''After adj remove 10 bytes from start'' m (layout a 70 118 1988)
       @ [Did (Mem (Mbuf_free m)), Printf ''Demo completed successfully.'' []])"
proof -
  note ok = ok [unfolded opened_def]
  define r where "r = status E 0 (Eal Eal_init)"
  define h1 where "h1 = [Status (Eal Eal_init) r]"
  define h2 where "h2 = h1 @ [Pointer (Mem (Pool_create ''MBUF_POOL'' 1024 256)) mp]"
  define h3 where "h3 = h2 @ [Pointer (Mem (Mbuf_alloc mp)) m]"
  define a where "a = f_buf_addr (V h2 m)"
  define h4 where "h4 = h3 @ report ''After allocation'' m (layout a 0 128 2048)"
  define p1 where "p1 = pointer E (length h4) (Mem (Mbuf_append m 100))"
  define h5 where "h5 = h4 @ [Pointer (Mem (Mbuf_append m 100)) p1]"
  define h6 where "h6 = h5 @ [Did (Mem (Store m 0 ramp))]"
  define h7 where "h7 = h6 @ report ''After append 100 bytes'' m (layout a 100 128 1948)"
  define i where "i = status E (length h7) (Mem (Mbuf_trim m 40))"
  define h8 where "h8 = h7 @ [Status (Mem (Mbuf_trim m 40)) i]"
  define h9 where "h9 = h8 @ report ''After trim 40 bytes'' m (layout a 60 128 1988)"
  define p2 where "p2 = pointer E (length h9) (Mem (Mbuf_prepend m 20))"
  define h10 where "h10 = h9 @ [Pointer (Mem (Mbuf_prepend m 20)) p2]"
  define h11 where "h11 = h10 @ [Did (Mem (Store m 0 marks))]"
  define h12 where "h12 = h11 @ report ''After prepend 20 bytes'' m (layout a 80 108 1988)"
  define p3 where "p3 = pointer E (length h12) (Mem (Mbuf_adj m 10))"
  define h13 where "h13 = h12 @ [Pointer (Mem (Mbuf_adj m 10)) p3]"
  note steps = r_def p1_def i_def p2_def p3_def h1_def h2_def h3_def h4_def h5_def h6_def h7_def
    h8_def h9_def h10_def h11_def h12_def h13_def
  note fold = mem_info2_main_def final_show_info steps [symmetric]
  have r: "\<not> r < 0" using ok by (simp add: r_def not_less)
  have f4: "V h3 m = layout a 0 128 2048" "V h4 m = layout a 0 128 2048"
    using ok by (simp_all add: h4_def h3_def a_def fields_step [OF V] fields_report [OF V] layout_alloc
        del: append_assoc append.assoc)
  have p1: "p1 \<noteq> NULL"
  proof
    assume "p1 = NULL"
    then have "final (mem_info2_main E V) [] = h5 @ [Printf ''Append failed'' []]"
      using ok by (simp add: fold r f4 del: append_assoc append.assoc) (simp add: h5_def)
    from room_stop [OF R this h5_def] show False using f4 \<open>p1 = NULL\<close> by simp
  qed
  have f7: "V h6 m = layout a 100 128 1948" "V h7 m = layout a 100 128 1948"
    by (simp_all add: h7_def h6_def h5_def fields_step [OF V] fields_report [OF V] f4 p1 del: append_assoc append.assoc)
  have i: "\<not> i < 0"
  proof
    assume "i < 0"
    then have "final (mem_info2_main E V) [] = h8 @ [Printf ''Trim failed'' []]"
      using ok by (simp add: fold r f4 p1 f7 del: append_assoc append.assoc)
    from room_stop [OF R this h8_def] show False using f7 \<open>i < 0\<close> by simp
  qed
  have f9: "V h8 m = layout a 60 128 1988" "V h9 m = layout a 60 128 1988"
    by (simp_all add: h9_def h8_def fields_step [OF V] fields_report [OF V] f7 i del: append_assoc append.assoc)
  have p2: "p2 \<noteq> NULL"
  proof
    assume "p2 = NULL"
    then have "final (mem_info2_main E V) [] = h10 @ [Printf ''Prepend failed (no headroom)'' []]"
      using ok by (simp add: fold r f4 p1 f7 i f9 del: append_assoc append.assoc) (simp add: h10_def)
    from room_stop [OF R this h10_def] show False using f9 \<open>p2 = NULL\<close> by simp
  qed
  have f12: "V h11 m = layout a 80 108 1988" "V h12 m = layout a 80 108 1988"
    by (simp_all add: h12_def h11_def h10_def fields_step [OF V] fields_report [OF V] f9 p2 del: append_assoc append.assoc)
  have p3: "p3 \<noteq> NULL"
  proof
    assume "p3 = NULL"
    then have "final (mem_info2_main E V) [] = h13 @ [Printf ''Adj failed'' []]"
      using ok by (simp add: fold r f4 p1 f7 i f9 p2 f12 del: append_assoc append.assoc) (simp add: h13_def)
    from room_stop [OF R this h13_def] show False using f12 \<open>p3 = NULL\<close> by simp
  qed
  have f13: "V h13 m = layout a 70 118 1988" by (simp add: h13_def fields_step [OF V] f12 p3)
  have "result (mem_info2_main E V) [] = 0"
    using ok by (simp add: fold r f4 p1 f7 i f9 p2 f12 p3 f13
        del: append_assoc append.assoc)
  moreover have "final (mem_info2_main E V) [] = h13 @ report ''After adj remove 10 bytes from start'' m (layout a 70 118 1988)
       @ [Did (Mem (Mbuf_free m)), Printf ''Demo completed successfully.'' []]"
    using ok by (simp add: fold r f4 p1 f7 i f9 p2 f12 p3 f13
        del: append_assoc append.assoc)
  ultimately show ?thesis
    using p1 p2 p3 i
    by (intro exI [of _ a] exI [of _ r] exI [of _ p1] exI [of _ i] exI [of _ p2] exI [of _ p3])
      (simp add: run_state_result_final h1_def h2_def h3_def h4_def h5_def h6_def h7_def h8_def h9_def
        h10_def h11_def h12_def h13_def)
qed

text \<open>The numbers printed with a format.\<close>

definition printed :: "string \<Rightarrow> event list \<Rightarrow> nat list" where
  "printed fmt es = concat (map (\<lambda>e. case e of
     Printf f [PU n] \<Rightarrow> if f = fmt then [n] else [] | _ \<Rightarrow> []) es)"

lemma printed_simps [simp]:
  "printed fmt [] = []" "printed fmt (xs @ ys) = printed fmt xs @ printed fmt ys"
  "printed fmt (Printf f [PU n] # es) = (if f = fmt then [n] else []) @ printed fmt es"
  "printed fmt (Printf f [PS t] # es) = printed fmt es" "printed fmt (Printf f [] # es) = printed fmt es"
  "printed fmt (Printf f (a # b # as) # es) = printed fmt es"
  "printed fmt (Printf f [PD i] # es) = printed fmt es"
  "printed fmt (Status c r # es) = printed fmt es" "printed fmt (Pointer c q # es) = printed fmt es"
  "printed fmt (Did c # es) = printed fmt es" "printed fmt (Access m # es) = printed fmt es"
  by (simp_all add: printed_def split: parg.split)

lemma printed_report [simp]:
  "printed ''pkt_len   = %u'' (report msg m f) = [f_pkt_len f]"
  "printed ''data_len  = %u'' (report msg m f) = [f_data_len f]"
  "printed ''headroom  = %u'' (report msg m f) = [f_headroom f]"
  "printed ''tailroom  = %u'' (report msg m f) = [f_tailroom f]"
  by (simp_all add: report_def info_lines_def emitted_def print_mbuf_info_def)

lemma own_report [simp]:
  "m \<in> S \<Longrightarrow> own_safe S (report msg m f)" "own_after S (report msg m f) = S"
  by (simp_all add: report_def)

lemma freed_report [simp]: "freed (report msg m f) = []"
  by (simp add: report_def info_lines_def emitted_def print_mbuf_info_def)

text \<open>
  C17. When initialisation, pool and allocation succeed and the library's calls do to the fields of
  the buffer what their documentation says, the program of \<open>mem_info2\<close> ends with 0, and its five
  reports print the layouts drawn in its comments: after allocation no data with 128 bytes of
  headroom and 2048 of tailroom, then 100 bytes appended, 40 trimmed, 20 prepended and 10 removed;
  the three numbers always add up to the 2176 bytes of the buffer.  It uses the buffer only while
  it holds it and frees it exactly once.
\<close>
theorem mem_info2_layouts:
  assumes "fields_documented V" and "opened E mp m"
    and "room_documented V (final (mem_info2_main E V) [])"
  shows "result (mem_info2_main E V) [] = 0 \<and>
    printed ''data_len  = %u'' (final (mem_info2_main E V) []) = [0, 100, 60, 80, 70] \<and>
    printed ''headroom  = %u'' (final (mem_info2_main E V) []) = [128, 128, 128, 108, 118] \<and>
    printed ''tailroom  = %u'' (final (mem_info2_main E V) []) = [2048, 1948, 1988, 1988, 1988] \<and>
    printed ''pkt_len   = %u'' (final (mem_info2_main E V) []) = [0, 100, 60, 80, 70] \<and>
    own_safe {} (final (mem_info2_main E V) []) \<and>
    own_after {} (final (mem_info2_main E V) []) = {} \<and>
    freed (final (mem_info2_main E V) []) = [m]"
proof -
  have "m \<noteq> NULL" using assms(2) by (simp add: opened_def)
  with mem_info2_runs [OF assms] show ?thesis by (auto simp: run_state_result_final)
qed

text \<open>The fields computed from the trace, for the example.\<close>

definition fields_of_trace :: view where
  "fields_of_trace h m = fold (\<lambda>e. fields_after e m) h (layout 4096 0 0 0)"

lemma fields_of_trace_ok: "fields_documented fields_of_trace"
  by (simp add: fields_documented_def fields_of_trace_def)

lemma room_snoc: "room_documented V (h @ [e]) \<longleftrightarrow> room_documented V h \<and> room_ok V h e"
proof -
  have "room_documented V (h @ [e]) \<longleftrightarrow>
      list_all (\<lambda>k. room_ok V (take k (h @ [e])) ((h @ [e]) ! k)) [0..<length h] \<and> room_ok V h e"
    by (simp add: room_documented_def)
  also have "list_all (\<lambda>k. room_ok V (take k (h @ [e])) ((h @ [e]) ! k)) [0..<length h] = room_documented V h"
    by (auto simp: room_documented_def list_all_iff nth_append)
  finally show ?thesis .
qed

lemma room_quiet: "(\<And>e H. e \<in> set es \<Longrightarrow> room_ok V H e) \<Longrightarrow> room_documented V (h @ es) = room_documented V h"
proof (induction es rule: rev_induct)
  case (snoc e es)
  then show ?case by (simp add: room_snoc append_assoc [symmetric] del: append_assoc)
qed simp

lemma room_report: "room_documented V (h @ report msg m f) = room_documented V h"
proof (rule room_quiet)
  fix e H
  assume "e \<in> set (report msg m f)"
  then show "room_ok V H e"
    using info_lines_prints [of f] by (auto simp: report_def list_all_iff is_print_iff room_ok_def)
qed

lemma room_example: "room_documented fields_of_trace (final (mem_info2_main good_env fields_of_trace) [])"
proof -
  note V = fields_of_trace_ok
  have start: "room_documented W []" "fields_of_trace [] m = layout 4096 0 0 0" for W m
    by (simp_all add: room_documented_def fields_of_trace_def)
  have one: "1 \<noteq> NULL" "(NULL = 1) = False" by (simp_all add: NULL_def)
  show ?thesis
    by (simp add: mem_info2_main_def final_show_info room_snoc room_report fields_step [OF V] fields_report [OF V]
        layout_alloc start one del: append_assoc append.assoc append.simps)
qed

theorem mem_info2_layouts_witness:
  "printed ''data_len  = %u'' (final (mem_info2_main good_env fields_of_trace) []) = [0, 100, 60, 80, 70]"
proof -
  have "opened good_env 1 1" by (simp add: opened_def good_env_def NULL_def)
  from mem_info2_layouts [OF fields_of_trace_ok this room_example] show ?thesis by blast
qed

section \<open>mem\_info keeps every packet it receives\<close>

lemma final_mem_info_round:
  "final (mem_info_round V E u) h = h @ Burst (Eth (Rx_burst 0 0 32)) (burst E (length h) (Eth (Rx_burst 0 0 32)))
     # emitted (for_each (show_received V) (burst E (length h) (Eth (Rx_burst 0 0 32))))
         (h @ [Burst (Eth (Rx_burst 0 0 32)) (burst E (length h) (Eth (Rx_burst 0 0 32)))])"
  by (simp add: mem_info_round_def final_emitted [OF appends_for_each])

text \<open>No iteration gives up a buffer: whatever was received is still held.\<close>

lemma mem_info_keeps:
  "follows own_monitor S (mem_info_round V E u) (\<lambda>r S'. S \<subseteq> S')"
proof -
  have "follows own_monitor T (show_received V m) (\<lambda>_ T'. T' = T)" if "m \<in> T" for m T
    using that by (simp add: follows_def emitted_def final_show_received)
  then have "follows own_monitor T (show_received V m) (\<lambda>_ T'. set ms \<subseteq> T' \<and> S \<subseteq> T')"
    if "set (m # ms) \<subseteq> T \<and> S \<subseteq> T" for m ms T
    by (rule follows_weaken) (use that in auto)
  then show ?thesis
    unfolding mem_info_round_def
    by (intro follows_burst follows_for_each_bind [where I = "\<lambda>xs T. set xs \<subseteq> T \<and> S \<subseteq> T"] follows_ret
        appends_intros appends_show) auto
qed

text \<open>\<open>mem_pool2\<close> writes a buffer it holds, prints what it wrote and never frees the buffer.\<close>

lemma final_print_chars: "final (print_chars bs) h = h @ map (\<lambda>b. Printf ''%c'' [PU (unat b)]) bs"
  by (induction bs arbitrary: h) (simp_all add: print_chars_def)

lemma mem_pool2_keeps:
  assumes "result (mem_pool2_main E) [] = 0"
  shows "own_safe {} (final (mem_pool2_main E) [])"
    and "freed (final (mem_pool2_main E) []) = []"
    and "printed ''%c'' (final (mem_pool2_main E) []) = [104, 101, 108, 108, 111, 0]"
  using assms by (auto simp: mem_pool2_main_def final_print_chars hello_def own_allowed_def own_next_def
      split: if_splits)

end
