(* ===== verification/Basics.thy ===== *)
theory Basics
  imports Trace_Logic
begin

text \<open>
  The introductory programs: \<open>lcore/\<close> and \<open>lcore_thread/\<close> (functions on worker cores),
  \<open>timer_dpdk/\<close> (a periodic timer), \<open>rte_ring_single/\<close> (a pointer through a ring) and
  \<open>fragmentation/\<close> (a reassembly table that is created and never used).
\<close>

section \<open>lcore and lcore\_thread\<close>

definition lcore_hello :: "env \<Rightarrow> int io" where
  "lcore_hello E = do {
     id \<leftarrow> rte_lcore_id E;
     say ''Hello from core %u'' [PU id];
     ret 0 }"

definition lcore_hello_main :: "env \<Rightarrow> nat list \<Rightarrow> int io" where
  "lcore_hello_main E workers = do {
     r \<leftarrow> rte_eal_init E;
     if r < 0 then do { say ''Something went wrong'' []; ret 1 } else do {
     say ''size of rte_mbuf %d'' [PD (int (size_of E ''rte_mbuf''))];
     say ''EAL Consumed Args:%d'' [PD r];
     lcore_hello E;
     for_each (\<lambda>c. rte_eal_remote_launch ''lcore_hello'' c) workers;
     rte_eal_mp_wait_lcore;
     ret 0 } }"

text \<open>The two worker functions of \<open>lcore_thread\<close>; the second waits five seconds between its lines.\<close>

definition thread_hello :: "env \<Rightarrow> int io" where
  "thread_hello E = do {
     id \<leftarrow> rte_lcore_id E;
     say ''Hello from core %u'' [PU id];
     say ''Lcore_hello'' [];
     ret 0 }"

definition thread_hello1 :: "env \<Rightarrow> int io" where
  "thread_hello1 E = do {
     id \<leftarrow> rte_lcore_id E;
     say ''Hello from core %u'' [PU id];
     sleep_us 5000000;
     say ''Lcore_hello1'' [];
     ret 0 }"

definition lcore_thread_main :: "env \<Rightarrow> int io" where
  "lcore_thread_main E = do {
     r \<leftarrow> rte_eal_init E;
     if r < 0 then rte_exit ''EAL Initialization Failed'' [] else do {
     id \<leftarrow> rte_lcore_id E;
     say ''Main lcore : %d'' [PD (int id)];
     rte_eal_remote_launch ''lcore_hello'' 2;
     rte_eal_remote_launch ''lcore_hello1'' 3;
     say ''Exit Main Thread....'' [];
     ret 0 } }"

text \<open>Every worker is started once, in order, and \<open>lcore\<close> waits for them; \<open>lcore_thread\<close> ends without waiting.\<close>

fun launched :: "event list \<Rightarrow> (string \<times> nat) list" where
  "launched [] = []"
| "launched (e # es) = (case e of Did (Eal (Remote_launch f c)) \<Rightarrow> (f, c) # launched es | _ \<Rightarrow> launched es)"

lemma launched_append [simp]: "launched (xs @ ys) = launched xs @ launched ys"
  by (induction xs) (auto split: event.splits call.splits eal_call.splits)

lemma launched_map [simp]: "launched (map (\<lambda>c. Did (Eal (Remote_launch f c))) cs) = map (Pair f) cs"
  by (induction cs) simp_all

lemma final_launch_loop [simp]:
  "final (for_each (\<lambda>c. rte_eal_remote_launch f c) cs) h = h @ map (\<lambda>c. Did (Eal (Remote_launch f c))) cs"
  by (induction cs arbitrary: h) simp_all

lemma lcore_waits:
  assumes "result (lcore_hello_main E workers) [] = 0"
  shows "launched (final (lcore_hello_main E workers) []) = map (Pair ''lcore_hello'') workers"
    and "last (final (lcore_hello_main E workers) []) = Did (Eal Mp_wait_lcore)"
  using assms by (auto simp: lcore_hello_main_def lcore_hello_def split: if_splits)

lemma lcore_thread_does_not_wait:
  assumes "result (lcore_thread_main E) [] = 0"
  shows "launched (final (lcore_thread_main E) []) = [(''lcore_hello'', 2), (''lcore_hello1'', 3)]"
    and "Did (Eal Mp_wait_lcore) \<notin> set (final (lcore_thread_main E) [])"
  using assms by (auto simp: lcore_thread_main_def split: if_splits)

section \<open>timer\_dpdk\<close>

text \<open>
  \<open>static int count\<close> is the state; it stays far below the range of \<open>int\<close>.  The emojis of the
  messages are left out.
\<close>

definition timer_callback :: "env \<Rightarrow> int \<Rightarrow> int io" where
  "timer_callback E count = do {
     id \<leftarrow> rte_lcore_id E;
     say ''Timer triggered! Count = %d on lcore %u'' [PD count, PU id];
     ret (count + 1) }"

text \<open>\<open>rte_timer_manage\<close> runs the callback of each expired timer; how often is the answer of the call.\<close>

fun callbacks :: "env \<Rightarrow> nat \<Rightarrow> int \<Rightarrow> int io" where
  "callbacks E 0 count = ret count"
| "callbacks E (Suc k) count = timer_callback E count \<bind> (\<lambda>count'. callbacks E k count')"

definition timer_round :: "env \<Rightarrow> int \<Rightarrow> (int + int) io" where
  "timer_round E count = do {
     say ''Processing packets...'' [];
     k \<leftarrow> ask_count E (Eal Timer_manage);
     count' \<leftarrow> callbacks E k count;
     ret (Inr count') }"

definition timer_main :: "env \<Rightarrow> nat \<Rightarrow> int option io" where
  "timer_main E n = do {
     r \<leftarrow> rte_eal_init E;
     if r < 0 then do { say ''Error initializing EAL'' []; ret (Some (-1)) } else do {
     say ''DPDK EAL Initialized'' [];
     act (Eal Timer_subsystem_init);
     act (Eal Timer_init);
     hz \<leftarrow> rte_get_timer_hz E;
     say ''Timer frequency = %lu cycles per second'' [PU hz];
     id \<leftarrow> rte_lcore_id E;
     act (Eal (Timer_reset (2 * of_nat hz) id));
     say ''Timer started (every 2 seconds)'' [];
     over \<leftarrow> rounds n (timer_round E) 0;
     ret (case over of Inl x \<Rightarrow> Some x | Inr c \<Rightarrow> None) } }"

text \<open>The counts printed, and how often the library ran the callback.\<close>

definition counts :: "event list \<Rightarrow> int list" where
  "counts es = concat (map (\<lambda>e. case e of Printf f [PD i, PU k] \<Rightarrow> [i] | _ \<Rightarrow> []) es)"

definition expiries :: "event list \<Rightarrow> nat" where
  "expiries es = sum_list (map (\<lambda>e. case e of Count (Eal Timer_manage) k \<Rightarrow> k | _ \<Rightarrow> 0) es)"

lemma counts_simps [simp]:
  "counts [] = []" "counts (xs @ ys) = counts xs @ counts ys"
  "counts (Printf f [PD i, PU k] # es) = i # counts es" "counts (Printf f [] # es) = counts es"
  "counts (Printf f [PU k] # es) = counts es" "counts (Count c k # es) = counts es"
  "counts (Did c # es) = counts es" "counts (Status c r # es) = counts es"
  by (simp_all add: counts_def)

lemma expiries_simps [simp]:
  "expiries [] = 0" "expiries (xs @ ys) = expiries xs + expiries ys"
  "expiries (Count (Eal Timer_manage) k # es) = k + expiries es" "expiries (Printf f as # es) = expiries es"
  "expiries (Count (Eal Lcore_id) k # es) = expiries es" "expiries (Count (Eal Timer_hz) k # es) = expiries es"
  "expiries (Did c # es) = expiries es" "expiries (Status c r # es) = expiries es"
  by (simp_all add: expiries_def)

lemma callbacks_count:
  assumes "counts h = map int [0..<n]"
  shows "counts (final (callbacks E k (int n)) h) = map int [0..<n + k]"
    and "result (callbacks E k (int n)) h = int (n + k)"
    and "expiries (final (callbacks E k (int n)) h) = expiries h"
proof -
  have "counts (final (callbacks E k (int n)) h) = map int [0..<n + k] \<and>
    result (callbacks E k (int n)) h = int (n + k) \<and> expiries (final (callbacks E k (int n)) h) = expiries h"
    using assms
  proof (induction k arbitrary: n h)
    case (Suc k)
    let ?h = "final (timer_callback E (int n)) h"
    have "counts ?h = map int [0..<Suc n]" "expiries ?h = expiries h" "result (timer_callback E (int n)) h = int (Suc n)"
      using Suc.prems by (simp_all add: timer_callback_def)
    with Suc.IH [of ?h "Suc n"] show ?case by simp
  qed simp
  then show "counts (final (callbacks E k (int n)) h) = map int [0..<n + k]"
    and "result (callbacks E k (int n)) h = int (n + k)"
    and "expiries (final (callbacks E k (int n)) h) = expiries h" by blast+
qed

text \<open>The numbers printed are 0, 1, \<open>\<dots>\<close>, one for each time the timer has expired; the loop never ends.\<close>

lemma timer_counts:
  assumes "0 \<le> status E 0 (Eal Eal_init)"
  shows "counts (final (timer_main E n) []) = map int [0..<expiries (final (timer_main E n) [])]"
    and "result (timer_main E n) [] = None"
proof -
  define I where "I h c \<longleftrightarrow> c = int (expiries h) \<and> counts h = map int [0..<expiries h]" for h and c :: int
  have round: "result (timer_round E c) h = Inr (result (callbacks E k c) h')"
      "final (timer_round E c) h = final (callbacks E k c) h'"
    if "k = counted E (Suc (length h)) (Eal Timer_manage)"
      "h' = h @ [Printf ''Processing packets...'' [], Count (Eal Timer_manage) k]" for c h k h'
    using that by (simp_all add: timer_round_def)
  have loop: "case result (rounds n (timer_round E) 0) h of
        Inl x \<Rightarrow> False | Inr c \<Rightarrow> I (final (rounds n (timer_round E) 0) h) c" if "I h 0" for h
  proof (rule rounds_invariant [where I = I and Q = "\<lambda>_ _. False", OF that])
    fix h c c'
    assume I: "I h c" and r: "result (timer_round E c) h = Inr c'"
    define k where "k = counted E (Suc (length h)) (Eal Timer_manage)"
    define h' where "h' = h @ [Printf ''Processing packets...'' [], Count (Eal Timer_manage) k]"
    have "counts h' = map int [0..<expiries h]" "expiries h' = k + expiries h" "c = int (expiries h)"
      using I by (simp_all add: h'_def I_def)
    with callbacks_count [of h' "expiries h" E k] r show "I (final (timer_round E c) h) c'"
      by (simp add: round [OF k_def h'_def] I_def add.commute)
  qed (simp add: round [OF refl refl])
  obtain h where h: "I h 0" "final (timer_main E n) [] = final (rounds n (timer_round E) 0) h"
    "result (timer_main E n) [] = (case result (rounds n (timer_round E) 0) h of Inl x \<Rightarrow> Some x | Inr c \<Rightarrow> None)"
  proof
    let ?r = "status E 0 (Eal Eal_init)" and ?hz = "counted E 4 (Eal Timer_hz)"
    let ?h = "[Status (Eal Eal_init) ?r, Printf ''DPDK EAL Initialized'' [], Did (Eal Timer_subsystem_init),
      Did (Eal Timer_init), Count (Eal Timer_hz) ?hz, Printf ''Timer frequency = %lu cycles per second'' [PU ?hz],
      Count (Eal Lcore_id) (counted E 6 (Eal Lcore_id)), Did (Eal (Timer_reset (2 * of_nat ?hz) (counted E 6 (Eal Lcore_id)))),
      Printf ''Timer started (every 2 seconds)'' []]"
    show "I ?h 0" by (simp add: I_def)
    show "final (timer_main E n) [] = final (rounds n (timer_round E) 0) ?h"
      "result (timer_main E n) [] = (case result (rounds n (timer_round E) 0) ?h of Inl x \<Rightarrow> Some x | Inr c \<Rightarrow> None)"
      using assms by (simp_all add: timer_main_def eval_nat_numeral)
  qed
  show "counts (final (timer_main E n) []) = map int [0..<expiries (final (timer_main E n) [])]"
    and "result (timer_main E n) [] = None"
    using loop [OF h(1)] h(2,3) by (auto simp: I_def split: sum.splits)
qed

text \<open>The interval is two seconds of cycles as long as the frequency is below \<open>2^63\<close>.\<close>

lemma timer_interval: "hz < 2 ^ 63 \<Longrightarrow> unat (2 * of_nat hz :: u64) = 2 * hz"
proof -
  assume hz: "hz < 2 ^ 63"
  have "2 * of_nat hz = (of_nat (2 * hz) :: u64)" by simp
  then show ?thesis using hz by (simp only: unat_of_nat) simp
qed

section \<open>rte\_ring\_single\<close>

text \<open>
  The address of the local variable \<open>data\<close> is \<open>data\<close> here; it holds 2.  A call on the NULL ring, and a
  read through a pointer that is not that address, have no meaning: the result is \<open>None\<close>, and nothing
  after it is modelled.
\<close>

definition create_ring :: "env \<Rightarrow> ptr io" where
  "create_ring E = do {
     ring \<leftarrow> rte_ring_create E ''my_ring'' 1024;
     if ring = NULL then do { say ''Ring Creation Failed'' []; ret ring } else do {
     say ''Ring Created Successfully'' [];
     ret ring } }"

definition ring_single_main :: "env \<Rightarrow> ptr \<Rightarrow> int option io" where
  "ring_single_main E data = do {
     r \<leftarrow> rte_eal_init E;
     if r < 0 then do { say ''EAL Initialization Failed'' []; ret (Some 1) } else do {
     say ''Initialization Successfull'' [];
     ring \<leftarrow> create_ring E;
     if ring = NULL then do { emit [Undefined]; ret None } else do {
     r \<leftarrow> ask_status E (Ring (Ring_enqueue ring data));
     if r < 0 then do { say ''error in queuing the packet failed'' []; ret (Some 1) } else do {
     say ''enqueued the packet : %d'' [PD 2];
     r \<leftarrow> ask_status E (Ring (Ring_dequeue ring));
     out_data \<leftarrow> output_of E (Ring (Ring_dequeue ring));
     if r < 0 then do { say ''error in dequeuing the packet failed'' []; ret (Some 1) } else
     if out_data \<noteq> [data] then do { emit [Undefined]; ret None } else do {
     say ''Dequeued the packet : %d'' [PD 2];
     ret (Some 0) } } } } }"

text \<open>A ring gives back what was put on it, and the program prints it; a ring that could not be created is used all the same.\<close>

lemma ring_single_roundtrip:
  assumes "\<And>t nm n. pointer E t (Ring (Ring_create nm n)) \<noteq> NULL"
    and "\<And>t ring. filled E t (Ring (Ring_dequeue ring)) = [data]"
  shows "result (ring_single_main E data) [] = Some 1 \<or>
    result (ring_single_main E data) [] = Some 0 \<and>
    last (final (ring_single_main E data) []) = Printf ''Dequeued the packet : %d'' [PD 2]"
  using assms by (auto simp: ring_single_main_def create_ring_def)

lemma ring_single_uses_null:
  assumes "0 \<le> status E 0 (Eal Eal_init)" and "pointer E 2 (Ring (Ring_create ''my_ring'' 1024)) = NULL"
  shows "result (ring_single_main E data) [] = None"
  using assms by (simp add: ring_single_main_def create_ring_def numeral_2_eq_2)

section \<open>fragmentation\<close>

text \<open>The statements after \<open>continue\<close> are never reached and have no counterpart.\<close>

definition fragmentation_round :: "unit \<Rightarrow> (int + unit) io" where
  "fragmentation_round u = do { sleep_us 1000000; ret (Inr ()) }"

definition fragmentation_main :: "env \<Rightarrow> nat \<Rightarrow> int option io" where
  "fragmentation_main E n = do {
     r \<leftarrow> rte_eal_init E;
     if r < 0 then do { x \<leftarrow> rte_exit ''EAL init failed'' []; ret (Some x) } else do {
     say ''EAL initialized'' [];
     mp \<leftarrow> rte_pktmbuf_pool_create E ''MBUF_POOL'' 8192 256;
     if mp = NULL then do { x \<leftarrow> rte_exit ''Cannot create mbuf pool'' []; ret (Some x) } else do {
     say ''Mbuf pool created'' [];
     hz \<leftarrow> ask_count E (Eal Tsc_hz);
     tbl \<leftarrow> ask_pointer E (Mem (Frag_table_create 1024 1024 1024 hz));
     if tbl = NULL then do { x \<leftarrow> rte_exit ''Cannot create frag table'' []; ret (Some x) } else do {
     say ''Fragment table created. Waiting for fragments...'' [];
     over \<leftarrow> rounds n fragmentation_round ();
     ret (case over of Inl x \<Rightarrow> Some x | Inr u \<Rightarrow> None) } } } }"

lemma fragmentation_sleeps:
  "result (rounds n fragmentation_round u) h = Inr ()"
  "final (rounds n fragmentation_round u) h = h @ replicate n (Did (Eal (Sleep_us 1000000)))"
proof -
  have "result (rounds n fragmentation_round u) h = Inr () \<and>
      final (rounds n fragmentation_round u) h = h @ replicate n (Did (Eal (Sleep_us 1000000)))"
  proof (induction n arbitrary: h u)
    case (Suc n)
    then show ?case by (simp add: fragmentation_round_def)
  qed simp
  then show "result (rounds n fragmentation_round u) h = Inr ()"
    "final (rounds n fragmentation_round u) h = h @ replicate n (Did (Eal (Sleep_us 1000000)))" by simp_all
qed

end
