(* ===== verification/Spec2Isabelle.thy ===== *)
theory Spec2Isabelle
  imports Packet_Parsing Rx_Loops Ring_Pipeline Acl_Firewall Eventdev_Parsing Graph_Nodes Metering
    Ipc_Rings Ipc_One_Ring Rcu_Qsbr Eventdev_Workers Event_Setup Event_Exchange Reorder_Demo Mp_Messages Mem_Info Basics
begin

text \<open>
  A verification of the DPDK example programs of this repository.  Every directory under \<open>src/\<close> is
  a program of its own (or a pair of processes) on top of the DPDK library; they share no code, but
  the same few patterns: set a port up, run a packet loop, hand buffers to another core or process.

  \<^bold>\<open>How a program is modelled.\<close>  A C function is a HOL function of the same name or, where two programs
  use a name (\<open>main\<close>, \<open>port_init\<close>, \<open>print_mbuf_info\<close>), with a prefix for the program.  A function that
  calls the library is a value of the state monad over the trace of calls so far (\<open>Dpdk_Prelude\<close>);
  a pure parsing function is a function on the bytes of the packet, \<open>None\<close> when it reads past them.
  The library is not part of the repository: a call is an event of the trace, its answer comes from
  an environment \<open>env\<close> (\<open>Dpdk_Api\<close>), and what the code relies on is a named predicate on the answers
  (\<open>bursts_bounded\<close>, \<open>bursts_distinct\<close>, \<open>rings_fifo\<close>, \<open>acl_documented\<close>, \<open>fields_documented\<close>,
  \<open>malloc_ok\<close>, \<open>enqueue_ok\<close>, \<open>dequeue_ok\<close>, \<open>keeps_promises\<close>), a hypothesis of the theorems that need it.
  Where the source does what has no meaning in C or in the library (a packet written through NULL, a port
  that was never set up), the trace gets the event \<open>Undefined\<close> or the thread a state such as
  \<open>V_undefined\<close>, and the model stops there: nothing is claimed of what would follow.  Processes and
  cores that share memory are step functions with a program counter, one step for each access to shared
  data, and run in any interleaving (\<open>Machines\<close>).

  \<^bold>\<open>Shared theories.\<close>
  \<^item> \<open>Dpdk_Prelude\<close>: machine types, the monad, C loops (\<open>for_each\<close>, \<open>for_return\<close>, \<open>rounds\<close>), byte order.
  \<^item> \<open>Dpdk_Api\<close>: calls, environments, events; the C names of the calls; documented constants.
  \<^item> \<open>Trace_Logic\<close>: usage rules as monitors of the trace and rules to prove that a function keeps one.
  \<^item> \<open>Rely_Logic\<close>: triples for functions that keep a rule as long as the library keeps its promises.
  \<^item> \<open>Event_Life\<close>: the life cycle of an event device as a monitor.
  \<^item> \<open>Eth_Protocol\<close>: the order of the calls on a network device, locale \<open>port_initialiser\<close>.
  \<^item> \<open>Mbuf_Ownership\<close>: who holds a packet buffer, locale \<open>burst_stage\<close> for the body of a packet loop.
  \<^item> \<open>Packet_Data\<close>: reading headers from the bytes of a packet.
  \<^item> \<open>Machines\<close>, \<open>Shared_Memory\<close>: interleaved threads, locales \<open>machine\<close> (an invariant) and \<open>draining\<close>
    (a measure that bounds the steps); cells of \<open>rte_malloc\<close> and rings of pointers.

  \<^bold>\<open>Programs.\<close>
  \<^item> \<open>Port_Setup\<close>: the initialisers of \<open>port_init/\<close> (\<open>notes.c\<close>, \<open>port_init.c\<close>), \<open>port_init2/port.c\<close>,
    \<open>prefetch/\<close>, \<open>ACL_DPDK_2/\<close>, \<open>packet_parsing/\<close>, \<open>eventdev_packet_parsing/\<close>: each is a
    \<open>port_initialiser\<close>; equivalence of three of them.
  \<^item> \<open>Packet_Parsing\<close>: \<open>packet_parsing/\<close>, what is printed and exactly when it reads past the packet.
  \<^item> \<open>Rx_Loops\<close>: \<open>prefetch/main.c\<close>, \<open>port_init2/\<close>, \<open>vhost/\<close>: loops that free what they receive.
  \<^item> \<open>Ring_Pipeline\<close>: \<open>packet_parseer_ring/\<close>, three cores and two rings, in every interleaving.
  \<^item> \<open>Acl_Firewall\<close>: \<open>ACL_DPDK/\<close> and \<open>ACL_DPDK_2/\<close>, rules and filtering loop.
  \<^item> \<open>Eventdev_Parsing\<close>: \<open>eventdev_packet_parsing/\<close>, parser, the three handlers and \<open>main\<close>, which waits
    for ever when a worker core runs a handler; the handlers' rounds come in any order (\<open>evp_serve\<close>).
  \<^item> \<open>Graph_Nodes\<close>: \<open>graph_dpdk/\<close>, \<open>disable_node/\<close>, \<open>2_source_graph/\<close>, locale \<open>classifying_graph\<close>.
  \<^item> \<open>Metering\<close>: \<open>meter_dpdk/\<close>, the order of profile, policy, meter and flow.
  \<^item> \<open>Ipc_Rings\<close>, \<open>Ipc_One_Ring\<close>: \<open>full_duplex_2_rings/\<close> and \<open>ipc_ring_pri_sec/\<close>, two processes with
    messages in shared cells.
  \<^item> \<open>Rcu_Qsbr\<close>: \<open>rcu_dpdk/\<close>, a writer that waits for the reader before it frees.
  \<^item> \<open>Eventdev_Workers\<close>: \<open>eventdev/\<close>, a producer and any number of workers on an atomic queue.
    The device has eight ports, and the ninth worker has none: what is shown of the run is for at
    most eight workers.  The first worker shares port 0 with the producer, which the model lets pass.
  \<^item> \<open>Event_Ipc\<close>, \<open>Event_Setup\<close>, \<open>Event_Exchange\<close>: \<open>beginner_eventdev/\<close>, \<open>ipc_eventdev/\<close>, \<open>ipc_eventdev2/\<close>; the life
    cycle of the event device in every program that uses one, to its stop and close, and the exchange
    between two processes.
  \<^item> \<open>Reorder_Demo\<close>: \<open>reorder_packet/\<close>, \<open>reorder_packet2/\<close>, \<open>reorder_2/\<close>, on the documented answers of
    the reorder buffer (\<open>reorder_promise\<close>): window, order of the drain, no packet allocated twice.
  \<^item> \<open>Mp_Messages\<close>: \<open>Message_Passing_DPDK/\<close>, \<open>Multiple_Msg_Passing/\<close>, \<open>Multiple_Sender_MP/\<close>.
  \<^item> \<open>Mem_Info\<close>: \<open>mem_info/\<close>, \<open>mem_info2/\<close>, \<open>mem_pool/\<close>, the fields of a buffer.
  \<^item> \<open>Basics\<close>: \<open>lcore/\<close>, \<open>lcore_thread/\<close>, \<open>timer_dpdk/\<close>, \<open>rte_ring_single/\<close>, \<open>fragmentation/\<close>.

  \<^bold>\<open>What the lemmas show.\<close>  Safety of the calls (device protocols, ownership of buffers and cells: no use
  after free, no double free, no leak, or exactly which); what is printed for which packet; where every
  received packet ends up; order of delivery through rings and queues; termination or the exact condition
  for it; error paths (failed calls, refused enqueues, retries).  Where the code breaks such a rule
  the theorem says exactly when, and an example shows that it happens.

  \<^bold>\<open>Bounds.\<close>  A service loop that never ends is run for \<open>n\<close> rounds (\<open>rounds n\<close>), with \<open>n\<close> arbitrary in the
  theorems; the drain loops of the reorder programs need two rounds (one hands out all packets,
  the next none), and the theorem says that the result is there by then.  Machines have no fuel:
  runs are of any length, \<open>draining\<close> ones are bounded by their measure.

  \<^bold>\<open>Not modelled.\<close>  The DPDK library itself (drivers, pools, rings, the graph walk, the ACL compiler, the
  event scheduler, the reorder buffer), other than by the documented answers above.  NUMA placement
  and the configuration fields no theorem depends on (offloads, thresholds, descriptor options).
  Newlines, rulers and emojis in messages.  Weak memory: a step is atomic and seen at once by all threads.
  Code that is commented out (the first half of \<open>prefetch/main.c\<close> and of \<open>packet_parseer_ring/transmit.c\<close>) and
  code that cannot be reached (after \<open>continue\<close> in \<open>fragmentation/main.c\<close>).
\<close>

end
